(* ===== verification/Kernel_Prelude.thy ===== *)
theory Kernel_Prelude
  imports Main "HOL-Library.Word"
begin

text \<open>
  Shared vocabulary of the development: the widths of the kernel's integer types, the
  errno values the drivers return, C's signed wrap-around and remainder, byte arrays
  (\<open>memcpy\<close> into an array, a run of array cells read as a ring), little-endian struct
  fields, and the generic list facts that the component proofs use.
\<close>

unbundle bit_operations_syntax

named_theorems ring_simps \<open>a circular array read as a list\<close>
named_theorems bytes_simps \<open>byte layout of the structs that cross the user boundary\<close>
named_theorems res_simps \<open>resource accounting of probe, remove, init and exit paths\<close>

section \<open>Types and constants\<close>

type_synonym u8 = "8 word"
type_synonym u16 = "16 word"
type_synonym u32 = "32 word"
type_synonym u64 = "64 word"

abbreviation (input) EPERM :: int where "EPERM \<equiv> 1"
abbreviation (input) ENOENT :: int where "ENOENT \<equiv> 2"
abbreviation (input) EAGAIN :: int where "EAGAIN \<equiv> 11"
abbreviation (input) ENOMEM :: int where "ENOMEM \<equiv> 12"
abbreviation (input) EACCES :: int where "EACCES \<equiv> 13"
abbreviation (input) EFAULT :: int where "EFAULT \<equiv> 14"
abbreviation (input) EBUSY :: int where "EBUSY \<equiv> 16"
abbreviation (input) ENODEV :: int where "ENODEV \<equiv> 19"
abbreviation (input) EINVAL :: int where "EINVAL \<equiv> 22"
abbreviation (input) ECONNRESET :: int where "ECONNRESET \<equiv> 104"
abbreviation (input) ESHUTDOWN :: int where "ESHUTDOWN \<equiv> 108"

abbreviation (input) POLLIN :: u32 where "POLLIN \<equiv> 0x0001"
abbreviation (input) POLLPRI :: u32 where "POLLPRI \<equiv> 0x0002"
abbreviation (input) POLLRDNORM :: u32 where "POLLRDNORM \<equiv> 0x0040"

text \<open>The value an \<open>irqreturn_t\<close> handler returns.\<close>

datatype irqreturn = IRQ_NONE | IRQ_HANDLED | IRQ_WAKE_THREAD

text \<open>
  An ioctl command number, kept as the arguments of the \<open>_IO\<close>, \<open>_IOR\<close>, \<open>_IOW\<close> and
  \<open>_IOWR\<close> macros that build it (magic, number, size of the argument type). The macros
  pack these fields into disjoint bits, so equal commands are equal arguments.
\<close>

datatype ioc = IO nat nat | IOR nat nat nat | IOW nat nat nat | IOWR nat nat nat

section \<open>C's \<open>int\<close>\<close>

text \<open>
  A C \<open>int\<close> is an \<open>int\<close> between \<open>- 2 ^ 31\<close> and \<open>2 ^ 31 - 1\<close>. The kernel is built with
  wrapping signed arithmetic, so an increment that leaves the range wraps.
\<close>

definition s32 :: "int \<Rightarrow> int" where
  "s32 x = (x + 2 ^ 31) mod 2 ^ 32 - 2 ^ 31"

definition is_s32 :: "int \<Rightarrow> bool" where
  "is_s32 x \<longleftrightarrow> - (2 ^ 31) \<le> x \<and> x < 2 ^ 31"

text \<open>C's \<open>%\<close>: the remainder has the sign of the dividend.\<close>

definition c_mod :: "int \<Rightarrow> int \<Rightarrow> int" where
  "c_mod a b = sgn a * (\<bar>a\<bar> mod \<bar>b\<bar>)"

lemma s32_id [simp]: "- 2147483648 \<le> x \<Longrightarrow> x < 2147483648 \<Longrightarrow> s32 x = x"
  by (simp add: s32_def)

lemma s32_range: "- 2147483648 \<le> s32 x" "s32 x < 2147483648"
  using pos_mod_bound [of "2 ^ 32" "x + 2 ^ 31"] pos_mod_sign [of "2 ^ 32" "x + 2 ^ 31"]
  by (simp_all add: s32_def)

lemma s32_s32 [simp]: "s32 (s32 x) = s32 x"
  by (rule s32_id) (rule s32_range)+

lemma is_s32_s32 [simp]: "is_s32 (s32 x)"
  using s32_range [of x] by (simp add: is_s32_def)

lemma s32_idem: "is_s32 x \<Longrightarrow> s32 x = x"
  by (simp add: is_s32_def)

lemma c_mod_nonneg [simp]: "0 \<le> a \<Longrightarrow> 0 < b \<Longrightarrow> c_mod a b = a mod b"
  by (cases "a = 0") (simp_all add: c_mod_def)

lemma s32_add_left: "s32 (s32 x + y) = s32 (x + y)"
proof -
  have "(s32 x + y + 2 ^ 31) mod 2 ^ 32 = ((x + 2 ^ 31) mod 2 ^ 32 + y) mod 2 ^ 32"
    by (simp add: s32_def)
  also have "\<dots> = (x + y + 2 ^ 31) mod 2 ^ 32"
    by (simp add: mod_simps algebra_simps)
  finally show ?thesis by (simp add: s32_def)
qed

lemma s32_add_right: "s32 (y + s32 x) = s32 (y + x)"
  using s32_add_left [of x y] by (simp add: add.commute)

section \<open>Circular arrays\<close>

text \<open>\<open>n\<close> cells of an array of \<open>N\<close> cells, starting at index \<open>t\<close> and wrapping at \<open>N\<close>.\<close>

definition ring_list :: "nat \<Rightarrow> 'a list \<Rightarrow> nat \<Rightarrow> nat \<Rightarrow> 'a list" where
  "ring_list N arr t n = map (\<lambda>i. arr ! ((t + i) mod N)) [0..<n]"

lemma length_ring_list [simp]: "length (ring_list N arr t n) = n"
  by (simp add: ring_list_def)

lemma ring_list_0 [simp]: "ring_list N arr t 0 = []"
  by (simp add: ring_list_def)

lemma nth_ring_list [simp]: "i < n \<Longrightarrow> ring_list N arr t n ! i = arr ! ((t + i) mod N)"
  by (simp add: ring_list_def)

text \<open>Two offsets below the size of the ring that meet at the same cell are equal.\<close>

lemma ring_index_inj:
  assumes "i < N" "j < N" "(t + i) mod N = (t + j) mod (N::nat)"
  shows "i = j"
proof -
  have *: "a = b" if "a \<le> b" "b < N" "(t + a) mod N = (t + b) mod N" for a b
  proof -
    from that have "N dvd (t + b) - (t + a)"
      by (metis mod_eq_dvd_iff_nat add_le_cancel_left)
    then have "N dvd b - a" by simp
    with that show "a = b" by (auto dest: dvd_imp_le)
  qed
  show ?thesis
    using * [of i j] * [of j i] assms by (cases "i \<le> j") auto
qed

lemma ring_list_update_outside:
  assumes "n \<le> k" "k < N"
  shows "ring_list N (arr[(t + k) mod N := v]) t n = ring_list N arr t n"
proof (rule nth_equalityI)
  fix i assume "i < length (ring_list N (arr[(t + k) mod N := v]) t n)"
  then have i: "i < n" by simp
  with assms have "(t + k) mod N \<noteq> (t + i) mod N"
    using ring_index_inj [of k N i t] by auto
  with i show "ring_list N (arr[(t + k) mod N := v]) t n ! i = ring_list N arr t n ! i"
    by simp
qed simp

text \<open>Storing one cell past a window that is not full appends to the list.\<close>

lemma ring_list_snoc [ring_simps]:
  assumes "length arr = N" "n < N"
  shows "ring_list N (arr[(t + n) mod N := v]) t (Suc n) = ring_list N arr t n @ [v]"
proof -
  have "ring_list N (arr[(t + n) mod N := v]) t (Suc n)
      = ring_list N (arr[(t + n) mod N := v]) t n @ [arr[(t + n) mod N := v] ! ((t + n) mod N)]"
    by (simp add: ring_list_def)
  with assms show ?thesis by (simp add: ring_list_update_outside)
qed

text \<open>Advancing the start of the window drops the oldest element.\<close>

lemma ring_list_tl:
  "ring_list N arr (Suc t mod N) n = tl (ring_list N arr t (Suc n))"
proof (rule nth_equalityI)
  fix i assume "i < length (ring_list N arr (Suc t mod N) n)"
  then show "ring_list N arr (Suc t mod N) n ! i = tl (ring_list N arr t (Suc n)) ! i"
    by (simp add: nth_tl mod_add_left_eq)
qed simp

lemma ring_list_Cons:
  "0 < n \<Longrightarrow> ring_list N arr t n = arr ! (t mod N) # ring_list N arr (Suc t mod N) (n - 1)"
  by (cases n) (simp_all add: ring_list_tl, simp add: ring_list_def upt_conv_Cons del: upt_Suc)

text \<open>Storing at the start of a full window and advancing it replaces the oldest element.\<close>

lemma ring_list_overwrite [ring_simps]:
  assumes "length arr = N" "0 < N" "t < N"
  shows "ring_list N (arr[t := v]) (Suc t mod N) N = tl (ring_list N arr t N) @ [v]"
proof -
  obtain m where N: "N = Suc m" using assms(2) by (cases N) auto
  have "(Suc t mod N + m) mod N = t"
    using assms(3) N by (metis mod_add_left_eq mod_add_self2 mod_less add_Suc_shift)
  then have "ring_list N (arr[t := v]) (Suc t mod N) (Suc m) = ring_list N arr (Suc t mod N) m @ [v]"
    using ring_list_snoc [of arr N m "Suc t mod N" v] assms N by simp
  then show ?thesis by (simp add: ring_list_tl N)
qed

text \<open>Runs of the window: its beginning, its rest, and a run that does not reach the wrap.\<close>

lemma take_ring_list [simp]: "k \<le> n \<Longrightarrow> take k (ring_list N arr t n) = ring_list N arr t k"
  by (rule nth_equalityI) simp_all

lemma drop_ring_list:
  "drop k (ring_list N arr t n) = ring_list N arr ((t + k) mod N) (n - k)"
  by (rule nth_equalityI) (simp_all add: mod_simps add.assoc)

lemma ring_list_straight:
  "t + k \<le> N \<Longrightarrow> N \<le> length arr \<Longrightarrow> ring_list N arr t k = take k (drop t arr)"
  by (rule nth_equalityI) simp_all

text \<open>Indices are computed in \<open>int\<close> by the code and in \<open>nat\<close> by the window.\<close>

lemma nat_int_mod_numeral [simp]: "nat (int a mod numeral k) = a mod numeral k"
  by (metis nat_int of_nat_numeral zmod_int)

lemma nat_int_add_mod_numeral [simp]: "nat ((int a + int b) mod numeral k) = (a + b) mod numeral k"
  by (metis nat_int_mod_numeral of_nat_add)

lemma nat_int_Suc [simp]: "nat (1 + int n) = Suc n" "nat (int n + 1) = Suc n"
  by simp_all

section \<open>Bytes\<close>

text \<open>\<open>memcpy(buf + off, bs, length bs)\<close> into an array long enough to hold the result.\<close>

definition memcpy_at :: "'a list \<Rightarrow> nat \<Rightarrow> 'a list \<Rightarrow> 'a list" where
  "memcpy_at buf off bs = take off buf @ bs @ drop (off + length bs) buf"

lemma length_memcpy_at [simp]:
  "off + length bs \<le> length buf \<Longrightarrow> length (memcpy_at buf off bs) = length buf"
  by (simp add: memcpy_at_def)

lemma memcpy_at_Nil [simp]: "memcpy_at buf off [] = buf"
  by (simp add: memcpy_at_def)

lemma memcpy_at_append:
  "off + length as + length bs \<le> length buf \<Longrightarrow>
   memcpy_at (memcpy_at buf off as) (off + length as) bs = memcpy_at buf off (as @ bs)"
  by (simp add: memcpy_at_def add.commute add.left_commute)

lemma take_drop_memcpy_at [simp]:
  "off + length bs \<le> length buf \<Longrightarrow> take (length bs) (drop off (memcpy_at buf off bs)) = bs"
  by (simp add: memcpy_at_def)

lemma nth_memcpy_at:
  "off + length bs \<le> length buf \<Longrightarrow>
   memcpy_at buf off bs ! i = (if off \<le> i \<and> i < off + length bs then bs ! (i - off) else buf ! i)"
  by (auto simp: memcpy_at_def nth_append)

text \<open>The bytes of a field in memory order: the target machines are little-endian.\<close>

primrec le_bytes :: "nat \<Rightarrow> nat \<Rightarrow> u8 list" where
  "le_bytes 0 x = []"
| "le_bytes (Suc n) x = of_nat (x mod 256) # le_bytes n (x div 256)"

primrec le_value :: "u8 list \<Rightarrow> nat" where
  "le_value [] = 0"
| "le_value (b # bs) = unat b + 256 * le_value bs"

lemma length_le_bytes [simp]: "length (le_bytes n x) = n"
  by (induction n arbitrary: x) simp_all

lemma unat_byte [simp]: "unat (of_nat (x mod 256) :: u8) = x mod 256"
  by (simp add: unat_of_nat)

lemma le_value_le_bytes [bytes_simps]: "x < 256 ^ n \<Longrightarrow> le_value (le_bytes n x) = x"
proof (induction n arbitrary: x)
  case 0
  then show ?case by simp
next
  case (Suc n)
  then have "x div 256 < 256 ^ n" by (simp add: less_mult_imp_div_less mult.commute)
  with Suc.IH show ?case by simp
qed

lemma le_value_u32 [bytes_simps]: "le_value (le_bytes 4 (unat (w :: u32))) = unat w"
  using unsigned_less [of w] by (intro le_value_le_bytes) simp

lemma le_value_u64 [bytes_simps]: "le_value (le_bytes 8 (unat (w :: u64))) = unat w"
  using unsigned_less [of w] by (intro le_value_le_bytes) simp

section \<open>Lists\<close>

lemma take_eq_mono: "take n xs = take n ys \<Longrightarrow> m \<le> n \<Longrightarrow> take m xs = take m ys"
  by (metis min.absorb1 take_take)

lemma replicate_update_same [simp]: "(replicate n x)[i := x] = replicate n x"
  by (cases "i < n") (simp_all add: list_eq_iff_nth_eq nth_list_update)

text \<open>The last \<open>n\<close> elements.\<close>

definition lastn :: "nat \<Rightarrow> 'a list \<Rightarrow> 'a list" where
  "lastn n xs = drop (length xs - n) xs"

lemma length_lastn [simp]: "length (lastn n xs) = min n (length xs)"
  by (simp add: lastn_def)

lemma lastn_all [simp]: "length xs \<le> n \<Longrightarrow> lastn n xs = xs"
  by (simp add: lastn_def)

lemma lastn_snoc:
  "0 < n \<Longrightarrow> lastn n (xs @ [x]) = (if length (lastn n xs) = n then tl (lastn n xs) else lastn n xs) @ [x]"
  by (auto simp: lastn_def drop_Suc tl_drop Suc_diff_le)

end
