(* ===== verification/Ring_Spec.thy ===== *)
theory Ring_Spec
  imports Kernel_Prelude
begin

text \<open>
  What the drivers expect of a sample buffer: a queue of bounded capacity that never
  refuses a sample and forgets the oldest one when it is full. The interface is a locale;
  \<open>Ringbuf\<close> (\<open>practice/myfakebell/ringbuf.h\<close>) and \<open>Sensor_Ring\<close>
  (\<open>practice/mysensor/mysensor.c\<close>) interpret it on the two ring buffers of the repository,
  and the drivers use the facts proved here once.
\<close>

locale overwriting_ring =
  fixes cap :: nat
    and empty :: 'r
    and push :: "'a \<Rightarrow> 'r \<Rightarrow> 'r"
    and pop :: "'r \<Rightarrow> ('a \<times> 'r) option"
    and contents :: "'r \<Rightarrow> 'a list"
    and invar :: "'r \<Rightarrow> bool"
  assumes cap_pos: "0 < cap"
    and invar_empty: "invar empty"
    and contents_empty: "contents empty = []"
    and contents_bound: "invar r \<Longrightarrow> length (contents r) \<le> cap"
    and invar_push: "invar r \<Longrightarrow> invar (push x r)"
    and contents_push: "invar r \<Longrightarrow>
      contents (push x r) = (if length (contents r) = cap then tl (contents r) else contents r) @ [x]"
    and pop_empty: "invar r \<Longrightarrow> contents r = [] \<Longrightarrow> pop r = None"
    and pop_oldest: "invar r \<Longrightarrow> contents r = x # xs \<Longrightarrow>
      \<exists>r'. pop r = Some (x, r') \<and> invar r' \<and> contents r' = xs"
begin

lemma contents_push_lastn:
  "invar r \<Longrightarrow> contents r = lastn cap xs \<Longrightarrow> contents (push x r) = lastn cap (xs @ [x])"
  by (simp only: contents_push lastn_snoc [OF cap_pos])

text \<open>Any run of pushes leaves the newest \<open>cap\<close> samples, in the order they came.\<close>

lemma push_all_from:
  assumes "invar r" "contents r = lastn cap ys"
  shows "invar (fold push xs r) \<and> contents (fold push xs r) = lastn cap (ys @ xs)"
  using assms
proof (induction xs arbitrary: r ys)
  case Nil
  then show ?case by simp
next
  case (Cons x xs)
  have "contents (push x r) = lastn cap (ys @ [x])"
    using Cons.prems by (rule contents_push_lastn)
  with Cons.IH [of "push x r" "ys @ [x]"] Cons.prems show ?case
    by (simp add: invar_push)
qed

lemma push_all:
  "invar r \<Longrightarrow> invar (fold push xs r) \<and> contents (fold push xs r) = lastn cap (contents r @ xs)"
  by (rule push_all_from) (simp_all add: contents_bound)

text \<open>Popping \<open>n\<close> times, stopping when nothing is left.\<close>

primrec pop_n :: "nat \<Rightarrow> 'r \<Rightarrow> 'a list \<times> 'r" where
  "pop_n 0 r = ([], r)"
| "pop_n (Suc n) r = (case pop r of None \<Rightarrow> ([], r)
     | Some (x, r') \<Rightarrow> (let (xs, r'') = pop_n n r' in (x # xs, r'')))"

lemma pop_n_oldest:
  "invar r \<Longrightarrow> fst (pop_n n r) = take n (contents r)
    \<and> invar (snd (pop_n n r)) \<and> contents (snd (pop_n n r)) = drop n (contents r)"
proof (induction n arbitrary: r)
  case 0
  then show ?case by simp
next
  case (Suc n)
  show ?case
  proof (cases "contents r")
    case Nil
    with Suc.prems show ?thesis by (simp add: pop_empty)
  next
    case (Cons x xs)
    with Suc.prems obtain r' where "pop r = Some (x, r')" "invar r'" "contents r' = xs"
      using pop_oldest by blast
    with Suc.IH [of r'] Cons show ?thesis by (simp add: case_prod_unfold)
  qed
qed

text \<open>First in, first out: draining the ring after a run of pushes gives the newest samples in order.\<close>

lemma push_all_pop_n:
  "fst (pop_n cap (fold push xs empty)) = lastn cap xs"
  using push_all [OF invar_empty, of xs] pop_n_oldest [of "fold push xs empty" cap]
  by (simp add: contents_empty)

end

end
