(* ===== verification/Ringbuf.thy ===== *)
theory Ringbuf
  imports Ring_Spec
begin

text \<open>
  The sample ring of \<open>practice/myfakebell/ringbuf.h\<close>. Every function of the header is one
  critical section under \<open>lk\<close>, so every function is one atomic operation of the model; the
  lock itself is not part of the state. The lemmas show the representation invariant, the
  refinement to the bounded queue of \<open>Ring_Spec\<close> and the exact drop accounting.
\<close>

section \<open>Data\<close>

definition RINGBUF_SIZE :: nat where
  "RINGBUF_SIZE = 64"

record rbdata =
  timestamp_ns :: u64
  sample_value :: u32
  status :: u32

record ringbuf =
  data :: "rbdata list"
  head :: int
  tail :: int
  rsize :: int
  dropcount :: int

definition rbdata_zero :: rbdata where
  "rbdata_zero = \<lparr>timestamp_ns = 0, sample_value = 0, status = 0\<rparr>"

text \<open>A ring in zeroed memory, as \<open>kzalloc\<close> leaves it.\<close>

definition ringbuf_zero :: ringbuf where
  "ringbuf_zero = \<lparr>data = replicate RINGBUF_SIZE rbdata_zero, head = 0, tail = 0, rsize = 0, dropcount = 0\<rparr>"

section \<open>Operations\<close>

definition ringbuf_init :: "ringbuf \<Rightarrow> ringbuf" where
  "ringbuf_init r = \<lparr>data = replicate RINGBUF_SIZE rbdata_zero, head = 0, tail = 0, rsize = 0, dropcount = 0\<rparr>"

definition ringbuf_push :: "rbdata \<Rightarrow> ringbuf \<Rightarrow> ringbuf" where
  "ringbuf_push v r =
    (if rsize r = 0 then
       r\<lparr>data := (data r)[nat (head r) := v],
         head := c_mod (s32 (head r + 1)) (int RINGBUF_SIZE),
         rsize := s32 (rsize r + 1)\<rparr>
     else
       (let r1 = (if rsize r = int RINGBUF_SIZE
                  then r\<lparr>tail := c_mod (s32 (tail r + 1)) (int RINGBUF_SIZE),
                         dropcount := s32 (dropcount r + 1)\<rparr>
                  else r\<lparr>rsize := s32 (rsize r + 1)\<rparr>)
        in r1\<lparr>data := (data r1)[nat (head r1) := v],
              head := c_mod (s32 (head r1 + 1)) (int RINGBUF_SIZE)\<rparr>))"

text \<open>\<open>ringbuf_pop\<close> writes the popped sample through its second argument: the result is the
  return value, the pointed-to sample and the ring.\<close>

definition ringbuf_pop :: "ringbuf \<Rightarrow> rbdata \<Rightarrow> int \<times> rbdata \<times> ringbuf" where
  "ringbuf_pop r v =
    (if rsize r = 0 then (-1, v, r)
     else (0, data r ! nat (tail r),
           r\<lparr>tail := c_mod (s32 (tail r + 1)) (int RINGBUF_SIZE), rsize := s32 (rsize r - 1)\<rparr>))"

definition ringbuf_getsize :: "ringbuf \<Rightarrow> int" where
  "ringbuf_getsize r = rsize r"

definition ringbuf_getlost :: "ringbuf \<Rightarrow> int" where
  "ringbuf_getlost r = dropcount r"

definition ringbuf_resetlost :: "ringbuf \<Rightarrow> ringbuf" where
  "ringbuf_resetlost r = r\<lparr>dropcount := 0\<rparr>"

section \<open>Invariant and abstraction\<close>

definition ringbuf_inv :: "ringbuf \<Rightarrow> bool" where
  "ringbuf_inv r \<longleftrightarrow> length (data r) = 64 \<and> 0 \<le> tail r \<and> tail r < 64
     \<and> 0 \<le> rsize r \<and> rsize r \<le> 64 \<and> head r = (tail r + rsize r) mod 64"

definition ringbuf_list :: "ringbuf \<Rightarrow> rbdata list" where
  "ringbuf_list r = ring_list 64 (data r) (nat (tail r)) (nat (rsize r))"

text \<open>The pop of the queue interface: a sample exists exactly when the C function returns 0.\<close>

definition ringbuf_take :: "ringbuf \<Rightarrow> (rbdata \<times> ringbuf) option" where
  "ringbuf_take r = (case ringbuf_pop r rbdata_zero of (ret, v, r') \<Rightarrow> if ret = 0 then Some (v, r') else None)"

lemma ringbuf_inv_elim:
  assumes "ringbuf_inv r"
  obtains t n where "t < 64" "n \<le> 64" "tail r = int t" "rsize r = int n"
    "head r = int ((t + n) mod 64)" "length (data r) = 64"
proof
  show "nat (tail r) < 64" "nat (rsize r) \<le> 64" "tail r = int (nat (tail r))"
    "rsize r = int (nat (rsize r))" "length (data r) = 64"
    using assms by (auto simp: ringbuf_inv_def)
  show "head r = int ((nat (tail r) + nat (rsize r)) mod 64)"
    using assms by (simp add: ringbuf_inv_def zmod_int)
qed

lemma length_ringbuf_list: "length (ringbuf_list r) = nat (rsize r)"
  by (simp add: ringbuf_list_def)

lemma ringbuf_getsize_length: "ringbuf_inv r \<Longrightarrow> ringbuf_getsize r = int (length (ringbuf_list r))"
  by (simp add: ringbuf_getsize_def length_ringbuf_list ringbuf_inv_def)

lemma ringbuf_inv_init: "ringbuf_inv (ringbuf_init r)"
  by (simp add: ringbuf_inv_def ringbuf_init_def RINGBUF_SIZE_def)

lemma ringbuf_list_init: "ringbuf_list (ringbuf_init r) = []"
  by (simp add: ringbuf_list_def ringbuf_init_def)

text \<open>One push in the terms of the window: \<open>t\<close> the tail, \<open>n\<close> the number of samples.\<close>

lemma ringbuf_push_eq:
  assumes "t < 64" "n \<le> 64" "tail r = int t" "rsize r = int n"
    "head r = int ((t + n) mod 64)"
  shows "ringbuf_push v r =
    (if n = 64 then r\<lparr>data := (data r)[t := v], head := int (Suc t mod 64),
                      tail := int (Suc t mod 64), dropcount := s32 (dropcount r + 1)\<rparr>
     else r\<lparr>data := (data r)[(t + n) mod 64 := v], head := int ((t + Suc n) mod 64),
            rsize := int (Suc n)\<rparr>)"
proof -
  have "head r < 64" using assms by simp
  then show ?thesis
    using assms by (auto simp: ringbuf_push_def RINGBUF_SIZE_def zmod_int mod_simps Let_def ac_simps)
qed

lemma ringbuf_push_refines:
  assumes "ringbuf_inv r"
  shows "ringbuf_inv (ringbuf_push v r)"
    and "ringbuf_list (ringbuf_push v r)
       = (if length (ringbuf_list r) = 64 then tl (ringbuf_list r) else ringbuf_list r) @ [v]"
proof -
  from assms obtain t n where w: "t < 64" "n \<le> 64" "tail r = int t" "rsize r = int n"
    "head r = int ((t + n) mod 64)" and len: "length (data r) = 64"
    by (rule ringbuf_inv_elim)
  note eq = ringbuf_push_eq [OF w, of v]
  show "ringbuf_inv (ringbuf_push v r)"
    using w len by (simp add: eq ringbuf_inv_def zmod_int mod_simps ac_simps)
  show "ringbuf_list (ringbuf_push v r)
       = (if length (ringbuf_list r) = 64 then tl (ringbuf_list r) else ringbuf_list r) @ [v]"
    using w len by (auto simp: eq ringbuf_list_def ring_simps nat_int)
qed

lemma ringbuf_push_dropcount:
  "ringbuf_inv r \<Longrightarrow> dropcount (ringbuf_push v r)
     = (if length (ringbuf_list r) = 64 then s32 (dropcount r + 1) else dropcount r)"
  by (auto simp: ringbuf_push_def length_ringbuf_list RINGBUF_SIZE_def ringbuf_inv_def Let_def)

lemma ringbuf_pop_refines:
  assumes "ringbuf_inv r" "ringbuf_list r = x # xs"
  shows "\<exists>r'. ringbuf_pop r v = (0, x, r') \<and> ringbuf_inv r' \<and> ringbuf_list r' = xs
           \<and> dropcount r' = dropcount r"
proof -
  from assms(1) obtain t n where w: "t < 64" "n \<le> 64" "tail r = int t" "rsize r = int n"
    "head r = int ((t + n) mod 64)" "length (data r) = 64"
    by (rule ringbuf_inv_elim)
  with assms(2) have n: "0 < n" by (cases n) (simp_all add: ringbuf_list_def)
  let ?r' = "r\<lparr>tail := int (Suc t mod 64), rsize := int (n - 1)\<rparr>"
  have "ringbuf_pop r v = (0, data r ! t, ?r')"
    using w n by (simp add: ringbuf_pop_def RINGBUF_SIZE_def zmod_int of_nat_diff ac_simps)
  moreover have "ringbuf_inv ?r'"
    using w n by (simp add: ringbuf_inv_def zmod_int of_nat_diff mod_simps)
  moreover have "x # xs = data r ! t # ring_list 64 (data r) (Suc t mod 64) (n - 1)"
    using assms(2) w n ring_list_Cons [of n 64 "data r" t] by (simp add: ringbuf_list_def)
  ultimately show ?thesis by (simp add: ringbuf_list_def)
qed

lemma ringbuf_pop_empty:
  "ringbuf_inv r \<Longrightarrow> ringbuf_list r = [] \<Longrightarrow> ringbuf_pop r v = (-1, v, r)"
  using length_ringbuf_list [of r] by (auto simp: ringbuf_pop_def ringbuf_inv_def)

interpretation rb: overwriting_ring RINGBUF_SIZE "ringbuf_init r0" ringbuf_push ringbuf_take
  ringbuf_list ringbuf_inv
proof unfold_locales
  show "0 < RINGBUF_SIZE" by (simp add: RINGBUF_SIZE_def)
  show "ringbuf_inv (ringbuf_init r0)" by (rule ringbuf_inv_init)
  show "ringbuf_list (ringbuf_init r0) = []" by (rule ringbuf_list_init)
  fix r x assume inv: "ringbuf_inv r"
  then show "length (ringbuf_list r) \<le> RINGBUF_SIZE"
    by (auto simp: length_ringbuf_list ringbuf_inv_def RINGBUF_SIZE_def)
  from inv show "ringbuf_inv (ringbuf_push x r)" by (rule ringbuf_push_refines)
  from inv show "ringbuf_list (ringbuf_push x r)
    = (if length (ringbuf_list r) = RINGBUF_SIZE then tl (ringbuf_list r) else ringbuf_list r) @ [x]"
    unfolding RINGBUF_SIZE_def by (rule ringbuf_push_refines)
next
  fix r assume "ringbuf_inv r" "ringbuf_list r = []"
  then show "ringbuf_take r = None" by (simp add: ringbuf_take_def ringbuf_pop_empty)
next
  fix r x xs assume "ringbuf_inv r" "ringbuf_list r = x # xs"
  then show "\<exists>r'. ringbuf_take r = Some (x, r') \<and> ringbuf_inv r' \<and> ringbuf_list r' = xs"
    using ringbuf_pop_refines [of r x xs rbdata_zero] by (auto simp: ringbuf_take_def)
qed

section \<open>Histories\<close>

lemma ringbuf_push_all_drops:
  assumes "ringbuf_inv r"
  shows "dropcount (fold ringbuf_push vs r)
    = s32 (dropcount r + int (length (ringbuf_list r) + length vs - 64)) \<or>
      (length (ringbuf_list r) + length vs \<le> 64 \<and> dropcount (fold ringbuf_push vs r) = dropcount r)"
  using assms
proof (induction vs arbitrary: r)
  case Nil
  then show ?case using rb.contents_bound [of r] by (simp add: RINGBUF_SIZE_def)
next
  case (Cons v vs)
  have le: "length (ringbuf_list r) \<le> 64"
    using rb.contents_bound [OF Cons.prems] by (simp add: RINGBUF_SIZE_def)
  note push = ringbuf_push_refines [OF Cons.prems, of v] ringbuf_push_dropcount [OF Cons.prems, of v]
  have "int (Suc (63 + length vs) - 64) = int (length vs)"
    "int (64 + Suc (length vs) - 64) = 1 + int (length vs)" by simp_all
  with Cons.IH [OF push(1)] push(2,3) le show ?case
    by (auto simp: s32_add_left s32_add_right algebra_simps split: if_splits)
qed

text \<open>
  C1: after any sequence of pushes into a freshly initialised ring, \<open>ringbuf_pop\<close> hands out the
  newest 64 of them, oldest first, and \<open>ringbuf_getlost\<close> is the number of the others (as a C
  \<open>int\<close>): what the ring forgets is exactly what it counts.
\<close>

theorem ringbuf_push_history:
  "ringbuf_inv (fold ringbuf_push vs (ringbuf_init r0))
   \<and> ringbuf_list (fold ringbuf_push vs (ringbuf_init r0)) = lastn 64 vs
   \<and> ringbuf_getsize (fold ringbuf_push vs (ringbuf_init r0)) = int (min 64 (length vs))
   \<and> ringbuf_getlost (fold ringbuf_push vs (ringbuf_init r0)) = s32 (int (length vs - 64))"
proof -
  have hist: "ringbuf_inv (fold ringbuf_push vs (ringbuf_init r0))"
    "ringbuf_list (fold ringbuf_push vs (ringbuf_init r0)) = lastn 64 vs"
    using rb.push_all [OF ringbuf_inv_init, of vs r0] by (simp_all add: ringbuf_list_init RINGBUF_SIZE_def)
  moreover have "dropcount (ringbuf_init r0) = 0" by (simp add: ringbuf_init_def)
  ultimately show ?thesis
    using ringbuf_push_all_drops [OF ringbuf_inv_init, of vs r0]
    by (auto simp: ringbuf_getsize_length ringbuf_getlost_def ringbuf_list_init)
qed

text \<open>
  C2: on every well-formed ring the four operations refine the bounded queue: a push appends and,
  when 64 samples are held, forgets the oldest and counts it; a pop returns 0 with the oldest
  sample, or \<open>-1\<close> with the caller's sample and the ring untouched when there is none; every
  result is well-formed again.
\<close>

theorem ringbuf_operations_refine:
  assumes "ringbuf_inv r"
  shows "ringbuf_inv (ringbuf_push v r)
    \<and> ringbuf_list (ringbuf_push v r)
        = (if length (ringbuf_list r) = 64 then tl (ringbuf_list r) else ringbuf_list r) @ [v]
    \<and> ringbuf_getlost (ringbuf_push v r)
        = (if length (ringbuf_list r) = 64 then s32 (ringbuf_getlost r + 1) else ringbuf_getlost r)
    \<and> (case ringbuf_list r of [] \<Rightarrow> ringbuf_pop r v = (- 1, v, r)
        | x # xs \<Rightarrow> \<exists>r'. ringbuf_pop r v = (0, x, r') \<and> ringbuf_inv r' \<and> ringbuf_list r' = xs
                         \<and> ringbuf_getlost r' = ringbuf_getlost r)
    \<and> ringbuf_inv (ringbuf_resetlost r) \<and> ringbuf_list (ringbuf_resetlost r) = ringbuf_list r
    \<and> ringbuf_getlost (ringbuf_resetlost r) = 0"
proof -
  have "ringbuf_inv (ringbuf_resetlost r)" "ringbuf_list (ringbuf_resetlost r) = ringbuf_list r"
    using assms by (simp_all add: ringbuf_resetlost_def ringbuf_inv_def ringbuf_list_def)
  moreover have "case ringbuf_list r of [] \<Rightarrow> ringbuf_pop r v = (- 1, v, r)
        | x # xs \<Rightarrow> \<exists>r'. ringbuf_pop r v = (0, x, r') \<and> ringbuf_inv r' \<and> ringbuf_list r' = xs
                         \<and> dropcount r' = dropcount r"
    using assms ringbuf_pop_refines by (auto simp: ringbuf_pop_empty split: list.splits)
  ultimately show ?thesis
    using ringbuf_push_refines [OF assms, of v] ringbuf_push_dropcount [OF assms, of v]
    by (simp add: ringbuf_getlost_def ringbuf_resetlost_def split: list.splits)
qed

theorem ringbuf_operations_refine_witness:
  "ringbuf_list (ringbuf_push rbdata_zero (ringbuf_init ringbuf_zero)) = [rbdata_zero]
   \<and> ringbuf_pop (ringbuf_init ringbuf_zero) rbdata_zero = (- 1, rbdata_zero, ringbuf_init ringbuf_zero)"
  using ringbuf_operations_refine [OF ringbuf_inv_init, of rbdata_zero ringbuf_zero]
  by (simp add: ringbuf_list_init)

end
