(* ===== verification/Bell_Regs.thy ===== *)
theory Bell_Regs
  imports Kernel_Prelude
begin

text \<open>
  The register interface of the fake bell (\<open>practice/myfakebell/mybell.h\<close>; the copies in
  \<open>myirq\<close>, \<open>practice/myalarm\<close> and \<open>practice/mysensor\<close> declare the first five registers). The
  device behind \<open>readl\<close> and \<open>writel\<close> is a parameter: a state and two access functions. What the
  drivers rely on is the locale \<open>bell_device\<close>; it is interpreted on the device that the
  repository documents, the QEMU model printed in \<open>myirq/README\<close>.
\<close>

section \<open>Registers\<close>

record 'h bell_hw =
  hw_readl :: "'h \<Rightarrow> u32 \<Rightarrow> u32"
  hw_writel :: "'h \<Rightarrow> u32 \<Rightarrow> u32 \<Rightarrow> 'h"

definition MB_REG_STATUS :: u32 where "MB_REG_STATUS = 0x00"
definition MB_REG_IRQ_ENABLE :: u32 where "MB_REG_IRQ_ENABLE = 0x04"
definition MB_REG_IRQ_STATUS :: u32 where "MB_REG_IRQ_STATUS = 0x08"
definition MB_REG_IRQ_ACK :: u32 where "MB_REG_IRQ_ACK = 0x0c"
definition MB_REG_EVENT_COUNT :: u32 where "MB_REG_EVENT_COUNT = 0x10"
definition MB_REG_THRESHOLD :: u32 where "MB_REG_THRESHOLD = 0x14"
definition MB_REG_SAMPLE_VALUE :: u32 where "MB_REG_SAMPLE_VALUE = 0x18"
definition MB_REG_ERROR_FLAGS :: u32 where "MB_REG_ERROR_FLAGS = 0x1c"

definition MB_STATUS_EVENT_ACTIVE :: u32 where "MB_STATUS_EVENT_ACTIVE = push_bit 0 1"
definition MB_STATUS_OVER_THRESHOLD :: u32 where "MB_STATUS_OVER_THRESHOLD = push_bit 1 1"
definition MB_IRQ_ENABLE_EN :: u32 where "MB_IRQ_ENABLE_EN = push_bit 0 1"
definition MB_IRQ_STATUS_PENDING :: u32 where "MB_IRQ_STATUS_PENDING = push_bit 0 1"

lemmas mb_regs = MB_REG_STATUS_def MB_REG_IRQ_ENABLE_def MB_REG_IRQ_STATUS_def MB_REG_IRQ_ACK_def
  MB_REG_EVENT_COUNT_def MB_REG_THRESHOLD_def MB_REG_SAMPLE_VALUE_def MB_REG_ERROR_FLAGS_def
  MB_STATUS_EVENT_ACTIVE_def MB_STATUS_OVER_THRESHOLD_def MB_IRQ_ENABLE_EN_def
  MB_IRQ_STATUS_PENDING_def

definition mb_readl :: "'h bell_hw \<Rightarrow> 'h \<Rightarrow> u32 \<Rightarrow> u32" where
  "mb_readl B d reg = hw_readl B d reg"

definition mb_writel :: "'h bell_hw \<Rightarrow> 'h \<Rightarrow> u32 \<Rightarrow> u32 \<Rightarrow> 'h" where
  "mb_writel B d reg val = hw_writel B d reg val"

definition mb_get_status :: "'h bell_hw \<Rightarrow> 'h \<Rightarrow> u32" where
  "mb_get_status B d = mb_readl B d MB_REG_STATUS"

definition mb_get_irq_status :: "'h bell_hw \<Rightarrow> 'h \<Rightarrow> u32" where
  "mb_get_irq_status B d = mb_readl B d MB_REG_IRQ_STATUS"

definition mb_get_event_count :: "'h bell_hw \<Rightarrow> 'h \<Rightarrow> u32" where
  "mb_get_event_count B d = mb_readl B d MB_REG_EVENT_COUNT"

definition mb_enable_irq :: "'h bell_hw \<Rightarrow> 'h \<Rightarrow> 'h" where
  "mb_enable_irq B d = mb_writel B d MB_REG_IRQ_ENABLE MB_IRQ_ENABLE_EN"

definition mb_disable_irq :: "'h bell_hw \<Rightarrow> 'h \<Rightarrow> 'h" where
  "mb_disable_irq B d = mb_writel B d MB_REG_IRQ_ENABLE 0"

definition mb_ack_irq :: "'h bell_hw \<Rightarrow> 'h \<Rightarrow> 'h" where
  "mb_ack_irq B d = mb_writel B d MB_REG_IRQ_ACK 1"

definition mb_get_threshold :: "'h bell_hw \<Rightarrow> 'h \<Rightarrow> u32" where
  "mb_get_threshold B d = mb_readl B d MB_REG_THRESHOLD"

definition mb_set_threshold :: "'h bell_hw \<Rightarrow> 'h \<Rightarrow> u32 \<Rightarrow> 'h" where
  "mb_set_threshold B d v = mb_writel B d MB_REG_THRESHOLD v"

definition mb_get_sample_value :: "'h bell_hw \<Rightarrow> 'h \<Rightarrow> u32" where
  "mb_get_sample_value B d = mb_readl B d MB_REG_SAMPLE_VALUE"

definition mb_get_error_flags :: "'h bell_hw \<Rightarrow> 'h \<Rightarrow> u32" where
  "mb_get_error_flags B d = mb_readl B d MB_REG_ERROR_FLAGS"

definition irq_pending :: "'h bell_hw \<Rightarrow> 'h \<Rightarrow> bool" where
  "irq_pending B d \<longleftrightarrow> mb_get_irq_status B d AND MB_IRQ_STATUS_PENDING \<noteq> 0"

section \<open>What the drivers rely on\<close>

text \<open>
  \<open>line\<close> is the level of the device's interrupt line, \<open>event\<close> the device's own activity (its
  timer). Acknowledging clears the pending bit, the line is high exactly while an enabled
  interrupt is pending, and an event that comes while one is pending changes nothing.
\<close>

locale bell_device =
  fixes B :: "'h bell_hw"
    and line :: "'h \<Rightarrow> bool"
    and event :: "'h \<Rightarrow> 'h"
  assumes ack_clears: "\<not> irq_pending B (mb_ack_irq B d)"
    and line_level: "line d \<longleftrightarrow> mb_readl B d MB_REG_IRQ_ENABLE AND MB_IRQ_ENABLE_EN \<noteq> 0 \<and> irq_pending B d"
    and ack_keeps_enable: "mb_readl B (mb_ack_irq B d) MB_REG_IRQ_ENABLE = mb_readl B d MB_REG_IRQ_ENABLE"
    and enable_sets: "mb_readl B (mb_enable_irq B d) MB_REG_IRQ_ENABLE AND MB_IRQ_ENABLE_EN \<noteq> 0"
    and disable_clears: "mb_readl B (mb_disable_irq B d) MB_REG_IRQ_ENABLE AND MB_IRQ_ENABLE_EN = 0"
    and enable_keeps_pending: "irq_pending B (mb_enable_irq B d) \<longleftrightarrow> irq_pending B d"
    and event_pending: "irq_pending B d \<Longrightarrow> event d = d"
    and event_raises: "irq_pending B (event d)"
    and event_keeps_enable: "mb_readl B (event d) MB_REG_IRQ_ENABLE = mb_readl B d MB_REG_IRQ_ENABLE"
begin

lemma ack_drops_line: "\<not> line (mb_ack_irq B d)"
  by (simp add: line_level ack_clears)

lemma disable_drops_line: "\<not> line (mb_disable_irq B d)"
  by (simp add: line_level disable_clears)

lemma ack_enable_quiet: "\<not> line (mb_enable_irq B (mb_ack_irq B d))"
  by (simp add: line_level enable_keeps_pending ack_clears)

lemma event_raises_line:
  "mb_readl B d MB_REG_IRQ_ENABLE AND MB_IRQ_ENABLE_EN \<noteq> 0 \<Longrightarrow> line (event d)"
  by (simp add: line_level event_raises event_keeps_enable)

end

section \<open>The documented device\<close>

text \<open>The QEMU device of \<open>myirq/README\<close>; its debug output is left out.\<close>

record fakebell =
  fb_status :: u32
  fb_irq_enable :: u32
  fb_irq_status :: u32
  fb_event_count :: u32
  fb_line :: bool

definition fakebell_update_irq :: "fakebell \<Rightarrow> fakebell" where
  "fakebell_update_irq s = s\<lparr>fb_line := fb_irq_enable s AND 1 \<noteq> 0 \<and> fb_irq_status s AND 1 \<noteq> 0\<rparr>"

definition fakebell_read :: "fakebell \<Rightarrow> u32 \<Rightarrow> u32" where
  "fakebell_read s off =
    (if off = 0x00 then fb_status s else if off = 0x04 then fb_irq_enable s
     else if off = 0x08 then fb_irq_status s else if off = 0x10 then fb_event_count s else 0)"

definition fakebell_write :: "fakebell \<Rightarrow> u32 \<Rightarrow> u32 \<Rightarrow> fakebell" where
  "fakebell_write s off val =
    (if off = 0x04 then fakebell_update_irq (s\<lparr>fb_irq_enable := val AND 1\<rparr>)
     else if off = 0x0c then
       (if val AND 1 \<noteq> 0 then fakebell_update_irq (s\<lparr>fb_status := 0, fb_irq_status := 0\<rparr>) else s)
     else s)"

definition fakebell_timer_cb :: "fakebell \<Rightarrow> fakebell" where
  "fakebell_timer_cb s =
    (if fb_irq_status s AND 1 = 0
     then fakebell_update_irq (s\<lparr>fb_event_count := fb_event_count s + 1, fb_status := 1, fb_irq_status := 1\<rparr>)
     else s)"

definition fakebell_realize :: fakebell where
  "fakebell_realize = \<lparr>fb_status = 0, fb_irq_enable = 0, fb_irq_status = 0, fb_event_count = 0, fb_line = False\<rparr>"

definition fakebell_hw :: "fakebell bell_hw" where
  "fakebell_hw = \<lparr>hw_readl = fakebell_read, hw_writel = fakebell_write\<rparr>"

lemmas fakebell_defs = fakebell_hw_def fakebell_read_def fakebell_write_def fakebell_timer_cb_def
  fakebell_update_irq_def mb_readl_def mb_writel_def mb_get_irq_status_def mb_get_status_def
  mb_get_event_count_def mb_ack_irq_def mb_enable_irq_def mb_disable_irq_def irq_pending_def mb_regs

text \<open>
  The line of the QEMU device is a stored level; in every state the device can reach it is the
  conjunction the drivers rely on. The contract is interpreted on that level.
\<close>

definition fakebell_level :: "fakebell \<Rightarrow> bool" where
  "fakebell_level s \<longleftrightarrow> fb_irq_enable s AND 1 \<noteq> 0 \<and> fb_irq_status s AND 1 \<noteq> 0"

lemma fakebell_line_consistent:
  "fb_line fakebell_realize = fakebell_level fakebell_realize"
  "fb_line s = fakebell_level s \<Longrightarrow> fb_line (fakebell_write s off v) = fakebell_level (fakebell_write s off v)"
  "fb_line s = fakebell_level s \<Longrightarrow> fb_line (fakebell_timer_cb s) = fakebell_level (fakebell_timer_cb s)"
  by (simp_all add: fakebell_level_def fakebell_realize_def fakebell_write_def fakebell_timer_cb_def
      fakebell_update_irq_def)

interpretation bell: bell_device fakebell_hw fakebell_level fakebell_timer_cb
  by unfold_locales (simp_all add: fakebell_defs fakebell_level_def)

end
