(* ===== verification/Kernel_Resources.thy ===== *)
theory Kernel_Resources
  imports Kernel_Prelude "HOL-Library.Multiset"
begin

text \<open>
  The resource discipline of a driver. A probe, remove, init or exit function is modelled by
  the value it returns and by the registration calls it makes, in order: a call acquires a
  resource, releases one, or uses one it was given (the class passed to \<open>device_create\<close> and
  \<open>device_destroy\<close>). Whether such a run is sound is decided by \<open>run_calls\<close>: releasing or using
  what is not held is a fault (a double free, a use after free). Which call acquires what is the
  documented pairing of the kernel interface: \<open>cdev_add\<close> with \<open>cdev_del\<close>, \<open>device_create\<close> with
  \<open>device_destroy\<close>, \<open>ida_alloc_range\<close> with \<open>ida_free\<close>, and so on. Allocations managed by the driver
  core (\<open>devm_*\<close>) are released by the core and do not appear.

  The locales \<open>device_lifecycle\<close> and \<open>module_lifecycle\<close> are the contract a driver owes the
  driver core: a failed probe leaves nothing behind, remove undoes probe, and module exit undoes
  module init with any set of devices still bound.
\<close>

section \<open>Calls and their effect\<close>

datatype resource =
    Region | Class | Driver
  | Minor int | Cdev int | Device int
  | Attr string int
  | Mem string
  | Pdev string
  | Timer int | Irq
  | Named string

datatype kcall = Acq resource | Rel resource | Use resource | Ida_destroy

definition is_minor :: "resource \<Rightarrow> bool" where
  "is_minor r = (case r of Minor _ \<Rightarrow> True | _ \<Rightarrow> False)"

fun call_effect :: "kcall \<Rightarrow> resource multiset \<Rightarrow> resource multiset option" where
  "call_effect (Acq r) h = Some (add_mset r h)"
| "call_effect (Rel r) h = (if r \<in># h then Some (h - {#r#}) else None)"
| "call_effect (Use r) h = (if r \<in># h then Some h else None)"
| "call_effect Ida_destroy h = Some (filter_mset (\<lambda>r. \<not> is_minor r) h)"

fun run_calls :: "kcall list \<Rightarrow> resource multiset \<Rightarrow> resource multiset option" where
  "run_calls [] h = Some h"
| "run_calls (c # cs) h = (case call_effect c h of None \<Rightarrow> None | Some h' \<Rightarrow> run_calls cs h')"

text \<open>Pointers returned by the kernel carry small negative errors: \<open>IS_ERR\<close> and \<open>PTR_ERR\<close>.\<close>

definition IS_ERR :: "int \<Rightarrow> bool" where
  "IS_ERR p \<longleftrightarrow> - 4095 \<le> p \<and> p < 0"

definition PTR_ERR :: "int \<Rightarrow> int" where
  "PTR_ERR p = p"

text \<open>
  Unregistering a driver makes the core call its remove function for every device still bound
  to it, then forgets the driver.
\<close>

definition driver_unregister :: "kcall list list \<Rightarrow> kcall list" where
  "driver_unregister removes = concat removes @ [Rel Driver]"

text \<open>The outcomes of the three calls most module init functions make.\<close>

record mod_env =
  m_region :: int
  m_class :: int
  m_register :: int

lemma run_calls_append [res_simps]:
  "run_calls (cs @ ds) h = (case run_calls cs h of None \<Rightarrow> None | Some h' \<Rightarrow> run_calls ds h')"
  by (induction cs arbitrary: h) (auto split: option.splits)

lemma IS_ERR_PTR_ERR [res_simps]: "IS_ERR p \<Longrightarrow> PTR_ERR p \<noteq> 0"
  by (simp add: IS_ERR_def PTR_ERR_def)

lemma add_mset_union_right [res_simps]: "add_mset a A + B = add_mset a (A + B)"
  by simp

section \<open>Devices\<close>

locale device_lifecycle =
  fixes needs :: "resource set"
    and probe :: "'e \<Rightarrow> int \<times> kcall list"
    and remove :: "'e \<Rightarrow> kcall list"
    and owned :: "'e \<Rightarrow> resource multiset"
  assumes probe_ok: "needs \<subseteq> set_mset h \<Longrightarrow> fst (probe e) = 0 \<Longrightarrow>
      run_calls (snd (probe e)) h = Some (owned e + h)"
    and probe_err: "needs \<subseteq> set_mset h \<Longrightarrow> fst (probe e) \<noteq> 0 \<Longrightarrow>
      run_calls (snd (probe e)) h = Some h"
    and remove_ok: "needs \<subseteq> set_mset h \<Longrightarrow> fst (probe e) = 0 \<Longrightarrow>
      run_calls (remove e) (owned e + h) = Some h"
begin

abbreviation bound :: "'e list \<Rightarrow> 'e list" where
  "bound es \<equiv> filter (\<lambda>e. fst (probe e) = 0) es"

abbreviation owned_all :: "'e list \<Rightarrow> resource multiset" where
  "owned_all es \<equiv> sum_list (map owned es)"

lemma probe_remove: "needs \<subseteq> set_mset h \<Longrightarrow> fst (probe e) = 0 \<Longrightarrow>
    run_calls (snd (probe e) @ remove e) h = Some h"
  by (simp add: run_calls_append probe_ok remove_ok)

lemma probe_all:
  "needs \<subseteq> set_mset h \<Longrightarrow>
   run_calls (concat (map (\<lambda>e. snd (probe e)) es)) h = Some (owned_all (bound es) + h)"
proof (induction es arbitrary: h)
  case Nil
  then show ?case by simp
next
  case (Cons e es)
  show ?case
  proof (cases "fst (probe e) = 0")
    case True
    with Cons have "run_calls (concat (map (\<lambda>e. snd (probe e)) es)) (owned e + h)
        = Some (owned_all (bound es) + (owned e + h))" by (simp add: le_supI2)
    with Cons.prems True show ?thesis by (simp add: run_calls_append probe_ok ac_simps)
  next
    case False
    with Cons show ?thesis by (simp add: run_calls_append probe_err)
  qed
qed

lemma remove_all:
  "needs \<subseteq> set_mset h \<Longrightarrow> \<forall>e\<in>set es. fst (probe e) = 0 \<Longrightarrow>
   run_calls (concat (map remove es)) (owned_all es + h) = Some h"
proof (induction es arbitrary: h)
  case Nil
  then show ?case by simp
next
  case (Cons e es)
  have "needs \<subseteq> set_mset (owned_all es + h)" using Cons.prems(1) by auto
  then have "run_calls (remove e) (owned e + (owned_all es + h)) = Some (owned_all es + h)"
    using Cons.prems(2) remove_ok by simp
  with Cons show ?case by (simp add: run_calls_append add.assoc)
qed

text \<open>The usual exit: unregister the driver, then destroy the class, then give the numbers back.\<close>

lemma std_exit:
  assumes "needs \<subseteq> {Region, Class, Driver}" "\<forall>e\<in>set es. fst (probe e) = 0"
  shows "run_calls (driver_unregister (map remove es) @ [Rel Class, Rel Region])
      (owned_all es + ({#Region, Class, Driver#} + h)) = Some h"
proof -
  have "needs \<subseteq> set_mset ({#Region, Class, Driver#} + h)" using assms(1) by auto
  then have "run_calls (concat (map remove es)) (owned_all es + ({#Region, Class, Driver#} + h))
      = Some ({#Region, Class, Driver#} + h)" using assms(2) by (rule remove_all)
  then show ?thesis by (simp add: driver_unregister_def run_calls_append)
qed

end

section \<open>Modules\<close>

locale module_lifecycle = device_lifecycle needs probe remove owned
  for needs :: "resource set"
    and probe :: "'e \<Rightarrow> int \<times> kcall list"
    and remove :: "'e \<Rightarrow> kcall list"
    and owned :: "'e \<Rightarrow> resource multiset" +
  fixes minit :: "'i \<Rightarrow> int \<times> kcall list"
    and mexit :: "'e list \<Rightarrow> kcall list"
    and base :: "resource multiset"
  assumes needs_base: "needs \<subseteq> set_mset base"
    and init_ok: "fst (minit i) = 0 \<Longrightarrow> run_calls (snd (minit i)) h = Some (base + h)"
    and init_err: "fst (minit i) \<noteq> 0 \<Longrightarrow> run_calls (snd (minit i)) h = Some h"
    and exit_ok: "\<forall>e\<in>set es. fst (probe e) = 0 \<Longrightarrow>
      run_calls (mexit es) (owned_all es + (base + h)) = Some h"
begin

text \<open>
  A whole life of the module: init, any number of probes with any outcomes, exit while the
  successfully probed devices are still bound. Nothing faults and nothing is left over.
\<close>

lemma module_session:
  assumes "fst (minit i) = 0"
  shows "run_calls (snd (minit i) @ concat (map (\<lambda>e. snd (probe e)) es) @ mexit (bound es)) h = Some h"
proof -
  have "needs \<subseteq> set_mset (base + h)" using needs_base by auto
  then have "run_calls (concat (map (\<lambda>e. snd (probe e)) es)) (base + h)
      = Some (owned_all (bound es) + (base + h))" by (rule probe_all)
  then show ?thesis
    using assms by (simp add: run_calls_append init_ok exit_ok)
qed

end

section \<open>Modules that only register a driver\<close>

text \<open>
  \<open>usb_register\<close>, \<open>pci_register_driver\<close>, \<open>spi_register_driver\<close>: init returns what the bus says, exit
  unregisters. For such a module the contract of its devices is enough.
\<close>

definition register_driver :: "int \<Rightarrow> int \<times> kcall list" where
  "register_driver ret = (ret, if ret = 0 then [Acq Driver] else [])"

locale plain_driver = device_lifecycle "{}" probe remove owned
  for probe :: "'e \<Rightarrow> int \<times> kcall list"
    and remove :: "'e \<Rightarrow> kcall list"
    and owned :: "'e \<Rightarrow> resource multiset"

sublocale plain_driver \<subseteq> module_lifecycle "{}" probe remove owned register_driver
  "\<lambda>es. driver_unregister (map remove es)" "{#Driver#}"
proof unfold_locales
  fix es h
  assume "\<forall>e\<in>set es. fst (probe e) = 0"
  then have "run_calls (concat (map remove es)) (owned_all es + ({#Driver#} + h)) = Some ({#Driver#} + h)"
    by (intro remove_all) simp_all
  then show "run_calls (driver_unregister (map remove es)) (owned_all es + ({#Driver#} + h)) = Some h"
    by (simp add: driver_unregister_def run_calls_append)
qed (auto simp: register_driver_def)

end
