(* ===== verification/Fakebell.thy ===== *)
theory Fakebell
  imports Ringbuf Bell_Regs Kernel_Resources "HOL-Library.Sublist"
begin

text \<open>
  The fake bell driver \<open>practice/myfakebell/myfakebell.c\<close>: file operations, interrupt handlers,
  probe and remove, module init and exit. The parts of the kernel it calls are parameters: the
  register file (\<open>Bell_Regs\<close>), the number of bytes a user copy leaves uncopied, what
  \<open>wait_event_interruptible\<close> returns and the state it returns in, what other contexts do to the
  ring between two critical sections, and the outcome of every registration call.
\<close>

section \<open>Data\<close>

definition MAX_DEV_NUM :: int where "MAX_DEV_NUM = 16"

record statusmsg =
  sm_status :: u32
  sm_threshold :: u32
  sm_last_sample :: u32

record statmsg =
  st_bufcnt :: u32
  st_dropcnt :: u32
  st_irqcnt :: u32

definition FB_GET_STATUS :: ioc where "FB_GET_STATUS = IOR 42 0 12"
definition FB_SET_THRESHOLD :: ioc where "FB_SET_THRESHOLD = IOW 42 1 4"
definition FB_CLEAR_ALARM :: ioc where "FB_CLEAR_ALARM = IOW 42 2 4"
definition FB_GET_STATS :: ioc where "FB_GET_STATS = IOR 42 3 12"
definition FB_RESET_BUFFER :: ioc where "FB_RESET_BUFFER = IOW 42 4 4"

lemmas fb_cmds = FB_GET_STATUS_def FB_SET_THRESHOLD_def FB_CLEAR_ALARM_def FB_GET_STATS_def
  FB_RESET_BUFFER_def

record 'h myfbdev =
  fminor :: int
  mybell :: 'h
  mybell_irq :: int
  myrb :: ringbuf
  fwakes :: nat

text \<open>Memory images of the structs handed to user space.\<close>

definition rbdata_bytes :: "rbdata \<Rightarrow> u8 list" where
  "rbdata_bytes v = le_bytes 8 (unat (timestamp_ns v)) @ le_bytes 4 (unat (sample_value v))
     @ le_bytes 4 (unat (status v))"

definition statusmsg_bytes :: "statusmsg \<Rightarrow> u8 list" where
  "statusmsg_bytes m = le_bytes 4 (unat (sm_status m)) @ le_bytes 4 (unat (sm_threshold m))
     @ le_bytes 4 (unat (sm_last_sample m))"

definition statmsg_bytes :: "statmsg \<Rightarrow> u8 list" where
  "statmsg_bytes m = le_bytes 4 (unat (st_bufcnt m)) @ le_bytes 4 (unat (st_dropcnt m))
     @ le_bytes 4 (unat (st_irqcnt m))"

section \<open>File operations\<close>

text \<open>
  \<open>myfbioctl\<close>: \<open>left\<close> is what the one user copy of the command leaves uncopied, \<open>uval\<close> the word
  behind the user pointer. The result is the return value, the bytes written to user memory and
  the device.
\<close>

definition myfbioctl ::
  "'h bell_hw \<Rightarrow> nat \<Rightarrow> u32 \<Rightarrow> ioc \<Rightarrow> 'h myfbdev \<Rightarrow> int \<times> u8 list \<times> 'h myfbdev" where
  "myfbioctl B left uval nr dev =
    (if nr = FB_GET_STATUS then
       (let msg = \<lparr>sm_status = mb_get_status B (mybell dev),
                   sm_threshold = mb_get_threshold B (mybell dev),
                   sm_last_sample = mb_get_sample_value B (mybell dev)\<rparr>;
            out = take (12 - left) (statusmsg_bytes msg)
        in (if left \<noteq> 0 then - EFAULT else 0, out, dev))
     else if nr = FB_SET_THRESHOLD then
       (if left \<noteq> 0 then (- EFAULT, [], dev)
        else (0, [], dev\<lparr>mybell := mb_set_threshold B (mybell dev) uval\<rparr>))
     else if nr = FB_CLEAR_ALARM then (0, [], dev)
     else if nr = FB_GET_STATS then
       (let bufmsg = \<lparr>st_bufcnt = word_of_int (ringbuf_getsize (myrb dev)),
                      st_dropcnt = word_of_int (ringbuf_getlost (myrb dev)), st_irqcnt = 0\<rparr>;
            out = take (12 - left) (statmsg_bytes bufmsg)
        in (if left \<noteq> 0 then - EFAULT else 0, out, dev))
     else if nr = FB_RESET_BUFFER then (0, [], dev\<lparr>myrb := ringbuf_init (myrb dev)\<rparr>)
     else (- EINVAL, [], dev))"

text \<open>
  The copy loop of \<open>myfbread\<close> with \<open>n\<close> iterations to go. \<open>env off\<close> is what other contexts (the
  interrupt thread, other readers, an ioctl) did to the ring before the iteration at \<open>off\<close>;
  \<open>ctu off\<close> is what \<open>copy_to_user\<close> at that offset leaves uncopied. The result is \<open>ret\<close>, \<open>offset\<close>,
  the user buffer and the ring.
\<close>

fun myfbread_loop ::
  "(nat \<Rightarrow> ringbuf \<Rightarrow> ringbuf) \<Rightarrow> (nat \<Rightarrow> nat) \<Rightarrow> nat \<Rightarrow> nat \<Rightarrow> rbdata \<Rightarrow> u8 list \<Rightarrow> ringbuf
    \<Rightarrow> int \<times> nat \<times> u8 list \<times> ringbuf" where
  "myfbread_loop env ctu 0 off v ubuf r = (0, off, ubuf, r)"
| "myfbread_loop env ctu (Suc n) off v ubuf r =
    (case ringbuf_pop (env off r) v of (ret, v', r') \<Rightarrow>
       if ret \<noteq> 0 then (ret, off, ubuf, r')
       else (let ubuf' = memcpy_at ubuf off (take (16 - ctu off) (rbdata_bytes v'))
             in if ctu off \<noteq> 0 then (- EFAULT, off, ubuf', r')
                else myfbread_loop env ctu n (off + 16) v' ubuf' r'))"

text \<open>No interference.\<close>

definition quiet :: "nat \<Rightarrow> ringbuf \<Rightarrow> ringbuf" where
  "quiet off r = r"

text \<open>
  \<open>wait\<close> stands for \<open>wait_event_interruptible(mydev->wq, ringbuf_getsize(..))\<close>: its return value
  and the ring when it returns. \<open>v0\<close> is the uninitialised local \<open>v\<close>.
\<close>

definition myfbread ::
  "(ringbuf \<Rightarrow> int \<times> ringbuf) \<Rightarrow> (nat \<Rightarrow> ringbuf \<Rightarrow> ringbuf) \<Rightarrow> (nat \<Rightarrow> nat) \<Rightarrow> rbdata \<Rightarrow> bool
    \<Rightarrow> nat \<Rightarrow> u8 list \<Rightarrow> 'h myfbdev \<Rightarrow> int \<times> u8 list \<times> 'h myfbdev" where
  "myfbread wait env ctu v0 nonblock cnt ubuf dev =
    (let len = ringbuf_getsize (myrb dev);
         copy = (\<lambda>r. let len = nat (ringbuf_getsize r);
                        n = (if len > cnt div 16 then cnt div 16 else len)
                    in case myfbread_loop env ctu n 0 v0 ubuf r of (ret, off, ubuf', r') \<Rightarrow>
                         (if ret \<noteq> 0 then ret else int off, ubuf', dev\<lparr>myrb := r'\<rparr>))
     in if len = 0 \<and> \<not> nonblock then
          (case wait (myrb dev) of (ret, r) \<Rightarrow>
             if ret \<noteq> 0 then (ret, ubuf, dev\<lparr>myrb := r\<rparr>) else copy r)
        else if len = 0 \<and> nonblock then (- EAGAIN, ubuf, dev)
        else copy (myrb dev))"

definition myfbpoll :: "'h bell_hw \<Rightarrow> 'h myfbdev \<Rightarrow> u32" where
  "myfbpoll B dev =
    (let stat = mb_get_status B (mybell dev);
         mask = (if stat AND MB_STATUS_OVER_THRESHOLD \<noteq> 0 then POLLPRI else 0)
     in if ringbuf_getsize (myrb dev) \<noteq> 0 then mask OR (POLLIN OR POLLRDNORM) else mask)"

section \<open>Interrupts\<close>

definition myirq_top :: "'h bell_hw \<Rightarrow> 'h myfbdev \<Rightarrow> irqreturn" where
  "myirq_top B dev =
    (if mb_get_irq_status B (mybell dev) AND MB_IRQ_STATUS_PENDING = 0 then IRQ_NONE
     else IRQ_WAKE_THREAD)"

text \<open>\<open>now\<close> is \<open>ktime_get_ns()\<close>.\<close>

definition myirq_bottom :: "'h bell_hw \<Rightarrow> u64 \<Rightarrow> 'h myfbdev \<Rightarrow> irqreturn \<times> 'h myfbdev" where
  "myirq_bottom B now dev =
    (let sv = mb_get_sample_value B (mybell dev);
         st = mb_get_status B (mybell dev);
         h = mb_ack_irq B (mybell dev);
         v = \<lparr>timestamp_ns = now, sample_value = sv, status = st\<rparr>
     in (IRQ_HANDLED, dev\<lparr>mybell := h, myrb := ringbuf_push v (myrb dev), fwakes := Suc (fwakes dev)\<rparr>))"

section \<open>Probe, remove, init, exit\<close>

text \<open>The outcomes of the calls of \<open>myfbprobe\<close>; pointers are read with \<open>IS_ERR\<close>.\<close>

record fb_env =
  fb_kzalloc :: bool
  fb_ida :: int
  fb_cdev_add :: int
  fb_device_create :: int
  fb_resource :: bool
  fb_ioremap :: int
  fb_get_irq :: int
  fb_request_irq :: int

definition myfakebell_init :: "'h myfbdev \<Rightarrow> 'h myfbdev" where
  "myfakebell_init dev = dev\<lparr>myrb := ringbuf_init (myrb dev), fwakes := 0\<rparr>"

definition myfbprobe ::
  "'h bell_hw \<Rightarrow> fb_env \<Rightarrow> 'h myfbdev \<Rightarrow> int \<times> kcall list \<times> 'h myfbdev" where
  "myfbprobe B e dev0 =
    (if \<not> fb_kzalloc e then (- ENOMEM, [], dev0)
     else let m = fb_ida e;
         dev1 = dev0\<lparr>fminor := m\<rparr>;
         dev2 = (myfakebell_init dev1)\<lparr>mybell := mb_enable_irq B (mybell dev1)\<rparr>;
         dev3 = dev2\<lparr>mybell_irq := fb_get_irq e\<rparr>;
         c0 = [Acq (Mem ''mydev'')];
         c1 = c0 @ [Acq (Minor m)];
         c2 = c1 @ [Acq (Cdev m)];
         c3 = c2 @ [Use Class, Acq (Device m)];
         ida_error = [Rel (Mem ''mydev'')];
         cdevadd_error = Rel (Minor m) # ida_error;
         cdevcreate_error = Rel (Cdev m) # cdevadd_error;
         res_error = [Use Class, Rel (Device m)] @ cdevcreate_error
     in if m < 0 then (- ENOMEM, c0 @ ida_error, dev1)
        else if fb_cdev_add e \<noteq> 0 then (fb_cdev_add e, c1 @ cdevadd_error, dev1)
        else if IS_ERR (fb_device_create e) then
          (PTR_ERR (fb_device_create e), c2 @ [Use Class] @ cdevcreate_error, dev1)
        else if \<not> fb_resource e then (- EINVAL, c3 @ res_error, dev1)
        else if IS_ERR (fb_ioremap e) then (PTR_ERR (fb_ioremap e), c3 @ res_error, dev1)
        else if fb_get_irq e < 0 then (fb_get_irq e, c3 @ res_error, dev3)
        else if fb_request_irq e \<noteq> 0 then (fb_request_irq e, c3 @ res_error, dev3)
        else (0, c3, dev3))"

definition myfbremove :: "'h myfbdev \<Rightarrow> kcall list" where
  "myfbremove dev = [Use Class, Rel (Device (fminor dev)), Rel (Cdev (fminor dev)),
     Rel (Minor (fminor dev)), Rel (Mem ''mydev'')]"

definition myfbinit :: "mod_env \<Rightarrow> int \<times> kcall list" where
  "myfbinit e =
    (let class_error = [Rel Region];
         pltdrv_error = Rel Class # class_error
     in if m_region e \<noteq> 0 then (m_region e, [])
        else if IS_ERR (m_class e) then (PTR_ERR (m_class e), [Acq Region] @ class_error)
        else if m_register e \<noteq> 0 then (m_register e, [Acq Region, Acq Class] @ pltdrv_error)
        else (0, [Acq Region, Acq Class, Acq Driver]))"

definition myfbexit :: "'h myfbdev list \<Rightarrow> kcall list" where
  "myfbexit devs = driver_unregister (map myfbremove devs) @ [Rel Class, Rel Region]"


section \<open>The read path\<close>

lemma myfbread_loop_quiet:
  "myfbread_loop quiet ctu (Suc n) off v ubuf r =
    (case ringbuf_pop r v of (ret, v', r') \<Rightarrow>
       if ret \<noteq> 0 then (ret, off, ubuf, r')
       else (let ubuf' = memcpy_at ubuf off (take (16 - ctu off) (rbdata_bytes v'))
             in if ctu off \<noteq> 0 then (- EFAULT, off, ubuf', r')
                else myfbread_loop quiet ctu n (off + 16) v' ubuf' r'))"
  by (subst myfbread_loop.simps) (subst quiet_def, rule refl)

lemma length_rbdata_bytes [simp]: "length (rbdata_bytes v) = 16"
  by (simp add: rbdata_bytes_def)

lemma length_concat_rbdata_bytes [simp]: "length (concat (map rbdata_bytes vs)) = 16 * length vs"
  by (induction vs) simp_all

text \<open>Without interference and faults, \<open>n\<close> iterations move the \<open>n\<close> oldest samples.\<close>

lemma myfbread_loop_delivers:
  assumes "ringbuf_inv r" "n \<le> length (ringbuf_list r)" "off + 16 * n \<le> length ubuf"
  shows "\<exists>r'. myfbread_loop quiet (\<lambda>_. 0) n off v ubuf r
      = (0, off + 16 * n, memcpy_at ubuf off (concat (map rbdata_bytes (take n (ringbuf_list r)))), r')
      \<and> ringbuf_inv r' \<and> ringbuf_list r' = drop n (ringbuf_list r) \<and> dropcount r' = dropcount r"
  using assms
proof (induction n arbitrary: off v ubuf r)
  case 0
  then show ?case by simp
next
  case (Suc n)
  then obtain x xs where L: "ringbuf_list r = x # xs" by (cases "ringbuf_list r") auto
  then obtain r1 where r1: "ringbuf_pop r v = (0, x, r1)" "ringbuf_inv r1" "ringbuf_list r1 = xs"
      "dropcount r1 = dropcount r"
    using ringbuf_pop_refines [OF Suc.prems(1) L] by blast
  let ?u = "memcpy_at ubuf off (rbdata_bytes x)"
  obtain r2 where r2: "myfbread_loop quiet (\<lambda>_. 0) n (off + 16) x ?u r1
      = (0, off + 16 + 16 * n, memcpy_at ?u (off + 16) (concat (map rbdata_bytes (take n xs))), r2)"
      "ringbuf_inv r2" "ringbuf_list r2 = drop n xs" "dropcount r2 = dropcount r1"
    using Suc.IH [of r1 "off + 16" ?u x] r1 Suc.prems L by auto
  have "memcpy_at ?u (off + 16) (concat (map rbdata_bytes (take n xs)))
      = memcpy_at ubuf off (rbdata_bytes x @ concat (map rbdata_bytes (take n xs)))"
    using Suc.prems L memcpy_at_append [of off "rbdata_bytes x"] by simp
  with r1 r2 L show ?case by (simp add: myfbread_loop_quiet del: myfbread_loop.simps)
qed

text \<open>
  Whatever other contexts do to the ring and whichever copies fault, the loop keeps the ring
  well-formed and writes only the part of the user buffer it was allowed to.
\<close>

lemma myfbread_loop_safe:
  assumes "\<And>i r. ringbuf_inv r \<Longrightarrow> ringbuf_inv (env i r)"
    and "ringbuf_inv r" "off + 16 * n \<le> length ubuf"
    and "myfbread_loop env ctu n off v ubuf r = (ret, off', ubuf', r')"
  shows "ringbuf_inv r' \<and> length ubuf' = length ubuf \<and> take off ubuf' = take off ubuf
     \<and> drop (off + 16 * n) ubuf' = drop (off + 16 * n) ubuf
     \<and> off \<le> off' \<and> off' \<le> off + 16 * n \<and> 16 dvd (off' - off) \<and> (ret = 0 \<or> ret = - 1 \<or> ret = - EFAULT)"
  using assms(2-)
proof (induction n arbitrary: off v ubuf r)
  case 0
  then show ?case by simp
next
  case (Suc n)
  obtain p v1 r1 where pop: "ringbuf_pop (env off r) v = (p, v1, r1)"
    by (cases "ringbuf_pop (env off r) v") auto
  have inv: "ringbuf_inv (env off r)" using Suc.prems(1) by (rule assms(1))
  have r1: "ringbuf_inv r1 \<and> (p = 0 \<or> p = - 1)"
  proof (cases "ringbuf_list (env off r)")
    case Nil
    with inv pop show ?thesis by (simp add: ringbuf_pop_empty)
  next
    case (Cons x xs)
    with ringbuf_pop_refines [OF inv this, of v] pop show ?thesis by auto
  qed
  let ?u = "memcpy_at ubuf off (take (16 - ctu off) (rbdata_bytes v1))"
  have u: "length ?u = length ubuf" "take off ?u = take off ubuf"
    "drop (off + 16) ?u = drop (off + 16) ubuf"
    using Suc.prems(2) by (simp_all add: memcpy_at_def add.commute)
  have u4: "drop (off + 16 + k) ?u = drop (off + 16 + k) ubuf" for k
    using arg_cong [OF u(3), of "drop k"] by (simp add: add.commute)
  show ?case
  proof (cases "p = 0 \<and> ctu off = 0")
    case False
    with Suc.prems(3) pop r1 u u4 [of "16 * n"] show ?thesis
      by (auto simp: Let_def add.assoc split: if_splits)
  next
    case True
    with Suc.prems(3) pop have "myfbread_loop env ctu n (off + 16) v1 ?u r1 = (ret, off', ubuf', r')"
      by simp
    from Suc.IH [OF _ _ this] r1 u Suc.prems(2)
    have "ringbuf_inv r' \<and> length ubuf' = length ubuf \<and> take (off + 16) ubuf' = take (off + 16) ?u
      \<and> drop (off + 16 + 16 * n) ubuf' = drop (off + 16 + 16 * n) ?u
      \<and> off + 16 \<le> off' \<and> off' \<le> off + 16 + 16 * n \<and> 16 dvd (off' - (off + 16))
      \<and> (ret = 0 \<or> ret = - 1 \<or> ret = - EFAULT)" by simp
    moreover from this have "take off ubuf' = take off ubuf"
      using u(2) take_eq_mono [of "off + 16" ubuf' ?u off] by simp
    moreover have "16 dvd off' - off" if "off + 16 \<le> off'" "16 dvd off' - (off + 16)"
      using that dvd_add [OF that(2) dvd_refl] by (simp add: le_add_diff_inverse)
    ultimately show ?thesis using u4 [of "16 * n"] by (auto simp: add.assoc)
  qed
qed

text \<open>A copy that faults after \<open>k\<close> good ones has already taken \<open>k + 1\<close> samples from the ring.\<close>

lemma myfbread_loop_fault:
  assumes "ringbuf_inv r" "k < n" "n \<le> length (ringbuf_list r)" "off + 16 * n \<le> length ubuf"
    and "\<And>j. j < k \<Longrightarrow> ctu (off + 16 * j) = 0" "ctu (off + 16 * k) \<noteq> 0"
  shows "\<exists>ubuf' r'. myfbread_loop quiet ctu n off v ubuf r = (- EFAULT, off + 16 * k, ubuf', r')
      \<and> ringbuf_inv r' \<and> ringbuf_list r' = drop (Suc k) (ringbuf_list r)"
  using assms
proof (induction n arbitrary: off v ubuf r k)
  case 0
  then show ?case by simp
next
  case (Suc n)
  from Suc.prems(3) obtain x xs where L: "ringbuf_list r = x # xs" by (cases "ringbuf_list r") auto
  then obtain r1 where r1: "ringbuf_pop r v = (0, x, r1)" "ringbuf_inv r1" "ringbuf_list r1 = xs"
    using ringbuf_pop_refines [OF Suc.prems(1) L] by blast
  show ?case
  proof (cases k)
    case 0
    with Suc.prems r1 L show ?thesis
      by (simp add: Let_def myfbread_loop_quiet del: myfbread_loop.simps)
  next
    case (Suc j)
    let ?u = "memcpy_at ubuf off (rbdata_bytes x)"
    have "\<exists>ubuf' r'. myfbread_loop quiet ctu n (off + 16) x ?u r1 = (- EFAULT, off + 16 + 16 * j, ubuf', r')
      \<and> ringbuf_inv r' \<and> ringbuf_list r' = drop (Suc j) (ringbuf_list r1)"
      using Suc.prems(2-) Suc r1 L Suc.prems(5) [of "Suc _"]
      by (intro Suc.IH) (auto simp: algebra_simps)
    moreover have "ctu off = 0" using Suc.prems(5) [of 0] Suc by simp
    ultimately show ?thesis using r1 L Suc
      by (simp add: myfbread_loop_quiet algebra_simps del: myfbread_loop.simps)
  qed
qed

section \<open>Life cycle\<close>

definition myfb_probe :: "'h bell_hw \<Rightarrow> 'h myfbdev \<Rightarrow> fb_env \<Rightarrow> int \<times> kcall list" where
  "myfb_probe B dev0 e = (case myfbprobe B e dev0 of (ret, calls, dev) \<Rightarrow> (ret, calls))"

definition myfb_dev :: "'h bell_hw \<Rightarrow> 'h myfbdev \<Rightarrow> fb_env \<Rightarrow> 'h myfbdev" where
  "myfb_dev B dev0 e = snd (snd (myfbprobe B e dev0))"

definition myfb_owned :: "fb_env \<Rightarrow> resource multiset" where
  "myfb_owned e = {#Mem ''mydev'', Minor (fb_ida e), Cdev (fb_ida e), Device (fb_ida e)#}"

lemmas myfb_life = myfb_probe_def myfb_dev_def myfb_owned_def myfbprobe_def myfbremove_def
  myfakebell_init_def Let_def

lemma myfb_dev_minor:
  "fst (myfb_probe B dev0 e) = 0 \<Longrightarrow> fminor (myfb_dev B dev0 e) = fb_ida e"
  by (auto simp: myfb_life split: if_splits)

interpretation fb_dev: device_lifecycle "{Class}" "myfb_probe B dev0"
  "\<lambda>e. myfbremove (myfb_dev B dev0 e)" myfb_owned
proof unfold_locales
  fix h :: "resource multiset" and e
  assume h: "{Class} \<subseteq> set_mset h"
  { assume "fst (myfb_probe B dev0 e) = 0"
    then show "run_calls (snd (myfb_probe B dev0 e)) h = Some (myfb_owned e + h)"
      using h by (auto simp: myfb_life IS_ERR_PTR_ERR split: if_splits) }
  { assume "fst (myfb_probe B dev0 e) \<noteq> 0"
    then show "run_calls (snd (myfb_probe B dev0 e)) h = Some h"
      using h by (auto simp: myfb_life split: if_splits) }
  { assume "fst (myfb_probe B dev0 e) = 0"
    then show "run_calls (myfbremove (myfb_dev B dev0 e)) (myfb_owned e + h) = Some h"
      using h by (simp add: myfbremove_def myfb_dev_minor) (simp add: myfb_owned_def) }
qed

interpretation fb_mod: module_lifecycle "{Class}" "myfb_probe B dev0"
  "\<lambda>e. myfbremove (myfb_dev B dev0 e)" myfb_owned
  myfbinit "\<lambda>es. myfbexit (map (myfb_dev B dev0) es)" "{#Region, Class, Driver#}"
proof unfold_locales
  fix i h
  show "fst (myfbinit i) = 0 \<Longrightarrow> run_calls (snd (myfbinit i)) h = Some ({#Region, Class, Driver#} + h)"
    by (auto simp: myfbinit_def Let_def IS_ERR_PTR_ERR add_mset_commute split: if_splits)
  show "fst (myfbinit i) \<noteq> 0 \<Longrightarrow> run_calls (snd (myfbinit i)) h = Some h"
    by (auto simp: myfbinit_def Let_def split: if_splits)
next
  fix es and h :: "resource multiset"
  assume "\<forall>e\<in>set es. fst (myfb_probe B dev0 e) = 0"
  then show "run_calls (myfbexit (map (myfb_dev B dev0) es))
      (sum_list (map myfb_owned es) + ({#Region, Class, Driver#} + h)) = Some h"
    using fb_dev.std_exit [of es B dev0 h] by (simp add: myfbexit_def comp_def)
qed simp

end
