(* ===== verification/Fakebell_System.thy ===== *)
theory Fakebell_System
  imports Fakebell
begin

text \<open>
  The fake bell driver as a system: interrupt threads, readers and ioctl callers of one device
  interleaved at the granularity of its critical sections, with the samples that arrived and the
  samples handed to readers recorded beside the device. The first section is the step relation
  and its invariant; the second states what the driver guarantees.
\<close>

section \<open>Interleaved execution\<close>

text \<open>
  A call of \<open>myfbread\<close> inside its copy loop: \<open>Loop n off\<close> with \<open>n\<close> iterations to go and
  \<open>off\<close> bytes copied, \<open>Holding n off v\<close> between \<open>ringbuf_pop\<close>, which put a sample into the local \<open>v\<close>,
  and \<open>copy_to_user\<close>, \<open>Done ret\<close> when it has its result.
\<close>

datatype reader = Out | Loop nat nat | Holding nat nat rbdata | Done int

text \<open>
  The device, the readers (one per task), the registers the interrupt thread has read and not yet pushed, and the
  history: the samples pushed, the samples popped with the task that did it, and the samples a task has dealt with, with
  whether they were delivered or lost to a faulting copy.
\<close>

record 'h fbsys =
  dev :: "'h myfbdev"
  rd :: "nat \<Rightarrow> reader"
  irq_regs :: "(u32 \<times> u32) option"
  arrived :: "rbdata list"
  taken :: "(nat \<times> rbdata) list"
  copied :: "(nat \<times> rbdata \<times> bool) list"

text \<open>
  The steps: the interrupt thread's two critical sections, the iterations of the readers split at the lock
  and at the user copy, ioctls, the device. \<open>FB_RESET_BUFFER\<close> is not among the ioctls: it
  re-initialises the ring without its lock, so it is not a step that other contexts see as one (\<open>Ringbuf_Race\<close>).
\<close>

inductive fb_step :: "'h bell_hw \<Rightarrow> 'h fbsys \<Rightarrow> 'h fbsys \<Rightarrow> bool" for B where
  irq_read: "irq_regs s = None \<Longrightarrow>
    fb_step B s (s\<lparr>irq_regs := Some (mb_get_sample_value B (mybell (dev s)), mb_get_status B (mybell (dev s))),
                   dev := (dev s)\<lparr>mybell := mb_ack_irq B (mybell (dev s))\<rparr>\<rparr>)"
| irq_push: "irq_regs s = Some (sv, st) \<Longrightarrow> v = \<lparr>timestamp_ns = now, sample_value = sv, status = st\<rparr> \<Longrightarrow>
    fb_step B s (s\<lparr>irq_regs := None, arrived := arrived s @ [v],
                   dev := (dev s)\<lparr>myrb := ringbuf_push v (myrb (dev s)), fwakes := Suc (fwakes (dev s))\<rparr>\<rparr>)"
| enter: "rd s i = Out \<Longrightarrow> n = nat (ringbuf_getsize (myrb (dev s))) \<Longrightarrow>
    fb_step B s (s\<lparr>rd := (rd s)(i := Loop (if n > cnt div 16 then cnt div 16 else n) 0)\<rparr>)"
| pop: "rd s i = Loop (Suc n) off \<Longrightarrow> ringbuf_pop (myrb (dev s)) v = (0, v', r) \<Longrightarrow>
    fb_step B s (s\<lparr>dev := (dev s)\<lparr>myrb := r\<rparr>, rd := (rd s)(i := Holding n off v'), taken := taken s @ [(i, v')]\<rparr>)"
| pop_fails: "rd s i = Loop (Suc n) off \<Longrightarrow> ringbuf_pop (myrb (dev s)) v = (ret, v', r) \<Longrightarrow> ret \<noteq> 0 \<Longrightarrow>
    fb_step B s (s\<lparr>dev := (dev s)\<lparr>myrb := r\<rparr>, rd := (rd s)(i := Done ret)\<rparr>)"
| copy: "rd s i = Holding n off v \<Longrightarrow>
    fb_step B s (s\<lparr>rd := (rd s)(i := Loop n (off + 16)), copied := copied s @ [(i, v, True)]\<rparr>)"
| fault: "rd s i = Holding n off v \<Longrightarrow>
    fb_step B s (s\<lparr>rd := (rd s)(i := Done (- EFAULT)), copied := copied s @ [(i, v, False)]\<rparr>)"
| finish: "rd s i = Loop 0 off \<Longrightarrow> fb_step B s (s\<lparr>rd := (rd s)(i := Done (int off))\<rparr>)"
| leave: "rd s i = Done ret \<Longrightarrow> fb_step B s (s\<lparr>rd := (rd s)(i := Out)\<rparr>)"
| ioctl: "nr \<noteq> FB_RESET_BUFFER \<Longrightarrow> myfbioctl B left u nr (dev s) = (ret, out, d) \<Longrightarrow> fb_step B s (s\<lparr>dev := d\<rparr>)"
| hardware: "fb_step B s (s\<lparr>dev := (dev s)\<lparr>mybell := h\<rparr>\<rparr>)"

definition fb_start :: "'h myfbdev \<Rightarrow> 'h fbsys" where
  "fb_start d = \<lparr>dev = myfakebell_init d, rd = \<lambda>_. Out, irq_regs = None, arrived = [], taken = [], copied = []\<rparr>"

inductive fb_reach :: "'h bell_hw \<Rightarrow> 'h fbsys \<Rightarrow> bool" for B where
  start: "fb_reach B (fb_start d)"
| step: "fb_reach B s \<Longrightarrow> fb_step B s t \<Longrightarrow> fb_reach B t"

text \<open>What a task holds, has popped and has dealt with.\<close>

fun in_hand :: "reader \<Rightarrow> rbdata list" where
  "in_hand (Holding n off v) = [v]"
| "in_hand _ = []"

definition taken_by :: "nat \<Rightarrow> 'h fbsys \<Rightarrow> rbdata list" where
  "taken_by i s = map snd (filter (\<lambda>p. fst p = i) (taken s))"

definition copied_by :: "nat \<Rightarrow> 'h fbsys \<Rightarrow> (rbdata \<times> bool) list" where
  "copied_by i s = map snd (filter (\<lambda>p. fst p = i) (copied s))"

definition delivered_to :: "nat \<Rightarrow> 'h fbsys \<Rightarrow> rbdata list" where
  "delivered_to i s = map fst (filter snd (copied_by i s))"

text \<open>The two steps of the interrupt thread with nothing between them are \<open>myirq_bottom\<close>.\<close>

definition irq_sample :: "'h bell_hw \<Rightarrow> u64 \<Rightarrow> 'h myfbdev \<Rightarrow> rbdata" where
  "irq_sample B now d = \<lparr>timestamp_ns = now, sample_value = mb_get_sample_value B (mybell d),
     status = mb_get_status B (mybell d)\<rparr>"

lemma myirq_bottom_eq:
  "myirq_bottom B now d = (IRQ_HANDLED, d\<lparr>mybell := mb_ack_irq B (mybell d),
     myrb := ringbuf_push (irq_sample B now d) (myrb d), fwakes := Suc (fwakes d)\<rparr>)"
  by (simp add: myirq_bottom_def irq_sample_def Let_def)

lemma irq_steps:
  assumes "irq_regs s = None"
  shows "(fb_step B)\<^sup>*\<^sup>* s (s\<lparr>dev := snd (myirq_bottom B now (dev s)), arrived := arrived s @ [irq_sample B now (dev s)]\<rparr>)"
proof -
  let ?t = "s\<lparr>irq_regs := Some (mb_get_sample_value B (mybell (dev s)), mb_get_status B (mybell (dev s))),
     dev := (dev s)\<lparr>mybell := mb_ack_irq B (mybell (dev s))\<rparr>\<rparr>"
  have "fb_step B s ?t" using assms by (rule fb_step.irq_read)
  moreover have "fb_step B ?t (?t\<lparr>irq_regs := None, arrived := arrived ?t @ [irq_sample B now (dev s)],
      dev := (dev ?t)\<lparr>myrb := ringbuf_push (irq_sample B now (dev s)) (myrb (dev ?t)), fwakes := Suc (fwakes (dev ?t))\<rparr>\<rparr>)"
    by (rule fb_step.irq_push) (simp_all add: irq_sample_def)
  ultimately have "(fb_step B)\<^sup>*\<^sup>* s (?t\<lparr>irq_regs := None, arrived := arrived ?t @ [irq_sample B now (dev s)],
      dev := (dev ?t)\<lparr>myrb := ringbuf_push (irq_sample B now (dev s)) (myrb (dev ?t)), fwakes := Suc (fwakes (dev ?t))\<rparr>\<rparr>)"
    by (rule rtranclp.rtrancl_into_rtrancl [OF r_into_rtranclp])
  then show ?thesis using assms by (cases s) (simp add: myirq_bottom_eq)
qed

text \<open>The copy loop of \<open>myfbread\<close>, run with nothing between its iterations, is a run of the steps of one task with the same results.\<close>

lemma myfbread_loop_steps:
  assumes "myfbread_loop quiet ctu n off v ubuf (myrb (dev s)) = (ret, off', ubuf', r)" "rd s i = Loop n off"
  shows "\<exists>t. (fb_step B)\<^sup>*\<^sup>* s t \<and> rd t i = Done (if ret \<noteq> 0 then ret else int off') \<and> myrb (dev t) = r
    \<and> (\<exists>vs. delivered_to i t = delivered_to i s @ vs \<and> off' = off + 16 * length vs)"
  using assms
proof (induction n arbitrary: off v ubuf s)
  case 0
  then show ?case
    using fb_step.finish [of s i off B] by (intro exI [of _ "s\<lparr>rd := (rd s)(i := Done (int off))\<rparr>"])
      (auto simp: delivered_to_def copied_by_def)
next
  case (Suc n)
  obtain p v1 r1 where pop: "ringbuf_pop (myrb (dev s)) v = (p, v1, r1)" by (cases "ringbuf_pop (myrb (dev s)) v") auto
  let ?h = "s\<lparr>dev := (dev s)\<lparr>myrb := r1\<rparr>, rd := (rd s)(i := Holding n off v1), taken := taken s @ [(i, v1)]\<rparr>"
  show ?case
  proof (cases "p = 0")
    case False
    have "fb_step B s (s\<lparr>dev := (dev s)\<lparr>myrb := r1\<rparr>, rd := (rd s)(i := Done p)\<rparr>)"
      using Suc.prems(2) pop False by (rule fb_step.pop_fails)
    with False pop Suc.prems(1) show ?thesis
      by (intro exI [of _ "s\<lparr>dev := (dev s)\<lparr>myrb := r1\<rparr>, rd := (rd s)(i := Done p)\<rparr>"])
        (auto simp: myfbread_loop_quiet delivered_to_def copied_by_def simp del: myfbread_loop.simps)
  next
    case True
    have h: "fb_step B s ?h" using Suc.prems(2) pop unfolding True by (rule fb_step.pop)
    show ?thesis
    proof (cases "ctu off = 0")
      case False
      let ?t = "?h\<lparr>rd := (rd ?h)(i := Done (- EFAULT)), copied := copied ?h @ [(i, v1, False)]\<rparr>"
      have "fb_step B ?h ?t" by (rule fb_step.fault [where n = n and off = off]) simp
      with h have "(fb_step B)\<^sup>*\<^sup>* s ?t" by auto
      with True False pop Suc.prems(1) show ?thesis
        by (intro exI [of _ ?t])
          (auto simp: myfbread_loop_quiet Let_def delivered_to_def copied_by_def simp del: myfbread_loop.simps)
    next
      case ok: True
      let ?t = "?h\<lparr>rd := (rd ?h)(i := Loop n (off + 16)), copied := copied ?h @ [(i, v1, True)]\<rparr>"
      have "fb_step B ?h ?t" by (rule fb_step.copy) simp
      with h have st: "(fb_step B)\<^sup>*\<^sup>* s ?t" by auto
      have "myfbread_loop quiet ctu n (off + 16) v1 (memcpy_at ubuf off (take (16 - ctu off) (rbdata_bytes v1))) (myrb (dev ?t))
          = (ret, off', ubuf', r)"
        using Suc.prems(1) pop True ok by (simp add: myfbread_loop_quiet Let_def del: myfbread_loop.simps)
      from Suc.IH [OF this] obtain t vs where "(fb_step B)\<^sup>*\<^sup>* ?t t" "rd t i = Done (if ret \<noteq> 0 then ret else int off')"
        "myrb (dev t) = r" "delivered_to i t = delivered_to i ?t @ vs" "off' = off + 16 + 16 * length vs" by auto
      moreover have "delivered_to i ?t = delivered_to i s @ [v1]" by (simp add: delivered_to_def copied_by_def)
      ultimately show ?thesis using st
        by (intro exI [of _ t]) (auto intro!: exI [of _ "v1 # vs"] intro: rtranclp_trans)
    qed
  qed
qed

text \<open>
  Every sample that arrived has either left the ring, from the front, or is still in it; what was
  popped is among what left, in order, and the drop counter counts the rest. What a task popped it has dealt with, in order, or still
  holds.
\<close>

definition hands :: "'h fbsys \<Rightarrow> nat set" where
  "hands s = {i. in_hand (rd s i) \<noteq> []}"

definition stream_ok :: "'h fbsys \<Rightarrow> bool" where
  "stream_ok s \<longleftrightarrow> ringbuf_inv (myrb (dev s))
     \<and> (\<exists>gone. arrived s = gone @ ringbuf_list (myrb (dev s)) \<and> subseq (map snd (taken s)) gone
          \<and> dropcount (myrb (dev s)) = s32 (int (length gone - length (taken s))))"

definition tasks_ok :: "'h fbsys \<Rightarrow> bool" where
  "tasks_ok s \<longleftrightarrow> (\<forall>i. taken_by i s = map fst (copied_by i s) @ in_hand (rd s i))
     \<and> finite (hands s) \<and> length (taken s) = length (copied s) + card (hands s)"

definition fb_inv :: "'h fbsys \<Rightarrow> bool" where
  "fb_inv s \<longleftrightarrow> stream_ok s \<and> tasks_ok s"

lemma stream_okI:
  "ringbuf_inv (myrb (dev s)) \<Longrightarrow> arrived s = gone @ ringbuf_list (myrb (dev s)) \<Longrightarrow>
   subseq (map snd (taken s)) gone \<Longrightarrow>
   dropcount (myrb (dev s)) = s32 (int (length gone - length (taken s))) \<Longrightarrow> stream_ok s"
  by (auto simp: stream_ok_def)

lemma stream_okE:
  assumes "stream_ok s"
  obtains gone where "ringbuf_inv (myrb (dev s))" "arrived s = gone @ ringbuf_list (myrb (dev s))"
    "subseq (map snd (taken s)) gone" "length (taken s) \<le> length gone"
    "dropcount (myrb (dev s)) = s32 (int (length gone - length (taken s)))"
  using assms list_emb_length by (fastforce simp: stream_ok_def)

lemma fb_inv_start: "fb_inv (fb_start d)"
  unfolding fb_inv_def
proof
  show "stream_ok (fb_start d)"
    by (rule stream_okI [where gone = "[]"])
      (simp_all add: fb_start_def myfakebell_init_def ringbuf_inv_init ringbuf_list_init, simp add: ringbuf_init_def)
  show "tasks_ok (fb_start d)" by (simp add: tasks_ok_def fb_start_def taken_by_def copied_by_def hands_def)
qed

text \<open>Steps that leave the ring or the tasks alone, and a push, a pop and the end of a user copy.\<close>

lemma stream_ok_same:
  "stream_ok s \<Longrightarrow> myrb (dev t) = myrb (dev s) \<Longrightarrow> arrived t = arrived s \<Longrightarrow> taken t = taken s \<Longrightarrow> stream_ok t"
  by (simp add: stream_ok_def)

lemma tasks_ok_same:
  "tasks_ok s \<Longrightarrow> taken t = taken s \<Longrightarrow> copied t = copied s \<Longrightarrow> (\<And>i. in_hand (rd t i) = in_hand (rd s i)) \<Longrightarrow> tasks_ok t"
  by (simp add: tasks_ok_def hands_def taken_by_def copied_by_def)

lemma fb_inv_same:
  "fb_inv s \<Longrightarrow> myrb (dev t) = myrb (dev s) \<Longrightarrow> arrived t = arrived s \<Longrightarrow> taken t = taken s \<Longrightarrow> copied t = copied s \<Longrightarrow>
   (\<And>i. in_hand (rd t i) = in_hand (rd s i)) \<Longrightarrow> fb_inv t"
  unfolding fb_inv_def using stream_ok_same tasks_ok_same by blast

lemma stream_ok_push:
  assumes "stream_ok s" "myrb (dev t) = ringbuf_push v (myrb (dev s))" "arrived t = arrived s @ [v]" "taken t = taken s"
  shows "stream_ok t"
proof -
  from assms(1) obtain gone where inv: "ringbuf_inv (myrb (dev s))"
    and arr: "arrived s = gone @ ringbuf_list (myrb (dev s))" and sub: "subseq (map snd (taken s)) gone"
    and le: "length (taken s) \<le> length gone"
    and drop: "dropcount (myrb (dev s)) = s32 (int (length gone - length (taken s)))"
    by (rule stream_okE)
  note push = ringbuf_push_refines [OF inv, of v] ringbuf_push_dropcount [OF inv, of v]
  show ?thesis
  proof (cases "length (ringbuf_list (myrb (dev s))) = 64")
    case True
    then obtain x xs where L: "ringbuf_list (myrb (dev s)) = x # xs"
      by (cases "ringbuf_list (myrb (dev s))") auto
    have "s32 (s32 (int (length gone - length (taken s))) + 1) = s32 (int (length (gone @ [x]) - length (taken s)))"
      using le by (simp add: s32_add_left Suc_diff_le add.commute) (simp add: s32_add_right)
    with True L push arr sub drop assms show ?thesis
      by (intro stream_okI [where gone = "gone @ [x]"]) (auto simp: subseq_order.trans [OF sub])
  next
    case False
    with push arr sub drop assms show ?thesis
      by (intro stream_okI [where gone = gone]) auto
  qed
qed

lemma stream_ok_pop:
  assumes "stream_ok s" "ringbuf_pop (myrb (dev s)) v = (0, v', myrb (dev t))" "arrived t = arrived s" "taken t = taken s @ [(i, v')]"
  shows "stream_ok t"
proof -
  from assms(1) obtain gone where inv: "ringbuf_inv (myrb (dev s))"
    and arr: "arrived s = gone @ ringbuf_list (myrb (dev s))" and sub: "subseq (map snd (taken s)) gone"
    and drop: "dropcount (myrb (dev s)) = s32 (int (length gone - length (taken s)))"
    by (rule stream_okE)
  obtain x xs where L: "ringbuf_list (myrb (dev s)) = x # xs"
    using assms(2) ringbuf_pop_empty [OF inv, of v] by (cases "ringbuf_list (myrb (dev s))") auto
  with ringbuf_pop_refines [OF inv L, of v] assms(2)
  have r: "v' = x" "ringbuf_inv (myrb (dev t))" "ringbuf_list (myrb (dev t)) = xs" "dropcount (myrb (dev t)) = dropcount (myrb (dev s))"
    by auto
  have "subseq (map snd (taken t)) (gone @ [x])" using sub by (simp add: assms(4) r(1))
  with L arr drop r assms(3,4) show ?thesis
    by (intro stream_okI [where gone = "gone @ [x]"]) simp_all
qed

lemma tasks_ok_pop:
  assumes "tasks_ok s" "in_hand (rd s i) = []" "rd t = (rd s)(i := Holding n off v)" "taken t = taken s @ [(i, v)]" "copied t = copied s"
  shows "tasks_ok t"
proof -
  have h: "hands t = insert i (hands s)" "i \<notin> hands s" using assms(2,3) by (auto simp: hands_def)
  have "taken_by j t = map fst (copied_by j t) @ in_hand (rd t j)" for j
    using assms by (cases "j = i") (simp_all add: tasks_ok_def taken_by_def copied_by_def)
  with h assms(1,4,5) show ?thesis by (simp add: tasks_ok_def)
qed

lemma tasks_ok_copied:
  assumes "tasks_ok s" "rd s i = Holding n off v" "in_hand q = []" "rd t = (rd s)(i := q)" "taken t = taken s"
    "copied t = copied s @ [(i, v, ok)]"
  shows "tasks_ok t"
proof -
  have h: "hands t = hands s - {i}" "i \<in> hands s" using assms(2-4) by (auto simp: hands_def)
  have "finite (hands s)" using assms(1) by (simp add: tasks_ok_def)
  from card.remove [OF this h(2)] have c: "card (hands s) = Suc (card (hands t))" by (simp only: h(1))
  have "taken_by j t = map fst (copied_by j t) @ in_hand (rd t j)" for j
  proof -
    have base: "taken_by j s = map fst (copied_by j s) @ in_hand (rd s j)" using assms(1) by (simp add: tasks_ok_def)
    have "taken_by j t = taken_by j s" using assms(5) by (simp add: taken_by_def)
    moreover have "map fst (copied_by j t) @ in_hand (rd t j) = map fst (copied_by j s) @ in_hand (rd s j)"
      using assms(2,3,4,6) by (cases "j = i") (simp_all add: copied_by_def)
    ultimately show ?thesis using base by simp
  qed
  with h(1) c assms(1,5,6) show ?thesis by (simp add: tasks_ok_def)
qed

lemma fb_step_inv: "fb_step B s t \<Longrightarrow> fb_inv s \<Longrightarrow> fb_inv t"
proof (induction rule: fb_step.induct)
  case (irq_push s sv st v now)
  let ?t = "s\<lparr>irq_regs := None, arrived := arrived s @ [v],
      dev := (dev s)\<lparr>myrb := ringbuf_push v (myrb (dev s)), fwakes := Suc (fwakes (dev s))\<rparr>\<rparr>"
  have "stream_ok ?t" using irq_push(3) by (intro stream_ok_push [of s ?t v]) (simp_all add: fb_inv_def)
  moreover have "tasks_ok ?t" using irq_push(3) by (intro tasks_ok_same [of s ?t]) (simp_all add: fb_inv_def)
  ultimately show ?case by (simp add: fb_inv_def)
next
  case (pop s i n off v v' r)
  let ?t = "s\<lparr>dev := (dev s)\<lparr>myrb := r\<rparr>, rd := (rd s)(i := Holding n off v'), taken := taken s @ [(i, v')]\<rparr>"
  have "stream_ok ?t" using pop(2,3) by (intro stream_ok_pop [of s v v' ?t i]) (simp_all add: fb_inv_def)
  moreover have "tasks_ok ?t" using pop(1,3) by (intro tasks_ok_pop [of s i ?t n off v']) (simp_all add: fb_inv_def)
  ultimately show ?case by (simp add: fb_inv_def)
next
  case (pop_fails s i n off v ret v' r)
  then have inv: "ringbuf_inv (myrb (dev s))" by (simp add: fb_inv_def stream_ok_def)
  have "r = myrb (dev s)"
  proof (cases "ringbuf_list (myrb (dev s))")
    case Nil
    with ringbuf_pop_empty [OF inv, of v] pop_fails(2) show ?thesis by auto
  next
    case (Cons x xs)
    from ringbuf_pop_refines [OF inv this, of v] pop_fails(2,3) show ?thesis by auto
  qed
  then show ?case using pop_fails(1) by (intro fb_inv_same [OF pop_fails(4)]) auto
next
  case (copy s i n off v)
  let ?t = "s\<lparr>rd := (rd s)(i := Loop n (off + 16)), copied := copied s @ [(i, v, True)]\<rparr>"
  have "tasks_ok ?t" using copy by (intro tasks_ok_copied [of s i n off v "Loop n (off + 16)" ?t True]) (simp_all add: fb_inv_def)
  moreover have "stream_ok ?t" using copy(2) by (intro stream_ok_same [of s ?t]) (simp_all add: fb_inv_def)
  ultimately show ?case by (simp add: fb_inv_def)
next
  case (fault s i n off v)
  let ?t = "s\<lparr>rd := (rd s)(i := Done (- EFAULT)), copied := copied s @ [(i, v, False)]\<rparr>"
  have "tasks_ok ?t" using fault by (intro tasks_ok_copied [of s i n off v "Done (- EFAULT)" ?t False]) (simp_all add: fb_inv_def)
  moreover have "stream_ok ?t" using fault(2) by (intro stream_ok_same [of s ?t]) (simp_all add: fb_inv_def)
  ultimately show ?case by (simp add: fb_inv_def)
next
  case (ioctl nr left u s ret out d)
  then have "myrb d = myrb (dev s)"
    by (auto simp: myfbioctl_def Let_def split: if_splits)
  then show ?case by (intro fb_inv_same [OF ioctl(3)]) auto
qed (auto intro: fb_inv_same)

lemma fb_reach_inv: "fb_reach B s \<Longrightarrow> fb_inv s"
  by (induction rule: fb_reach.induct) (auto intro: fb_inv_start fb_step_inv)

lemma fb_reach_steps: "(fb_step B)\<^sup>*\<^sup>* s t \<Longrightarrow> fb_reach B s \<Longrightarrow> fb_reach B t"
  by (induction rule: rtranclp_induct) (auto intro: fb_reach.step)

section \<open>Guarantees\<close>

text \<open>The loop with the bound \<open>myfbread\<close> computes from the request and the fill level.\<close>

lemma myfbread_loop_bounded:
  assumes inv: "ringbuf_inv r" and room: "cnt \<le> length ubuf"
  defines "k \<equiv> min (cnt div 16) (length (ringbuf_list r))"
  shows "\<exists>r'. myfbread_loop quiet (\<lambda>_. 0)
        (if nat (ringbuf_getsize r) > cnt div 16 then cnt div 16 else nat (ringbuf_getsize r)) 0 v0 ubuf r
      = (0, 16 * k, memcpy_at ubuf 0 (concat (map rbdata_bytes (take k (ringbuf_list r)))), r')
      \<and> ringbuf_inv r' \<and> ringbuf_list r' = drop k (ringbuf_list r)"
proof -
  have "16 * k \<le> 16 * (cnt div 16)" by (simp add: k_def)
  then have "16 * k \<le> length ubuf" using room times_div_less_eq_dividend [of 16 cnt] by linarith
  moreover have "(if nat (ringbuf_getsize r) > cnt div 16 then cnt div 16 else nat (ringbuf_getsize r)) = k"
    using inv by (simp add: k_def min_def ringbuf_getsize_length)
  ultimately show ?thesis
    using myfbread_loop_delivers [OF inv, of k 0 ubuf v0] by (auto simp: k_def)
qed

text \<open>
  C3: \<open>myfbread\<close> on a ring with samples, or a blocking one whose wait returned with samples in the
  ring, and no interference or fault, returns the number of bytes of the \<open>min (cnt / 16) size\<close>
  oldest samples, has written exactly their memory images to the front of the user buffer, in
  order, and leaves exactly the newer samples in the ring.
\<close>

theorem myfbread_delivers:
  assumes inv: "ringbuf_inv (myrb d)" "ringbuf_inv r"
    and src: "if ringbuf_list (myrb d) = [] then \<not> nonblock \<and> wait (myrb d) = (0, r) else r = myrb d"
    and room: "cnt \<le> length ubuf"
  defines "k \<equiv> min (cnt div 16) (length (ringbuf_list r))"
  shows "\<exists>r'. myfbread wait quiet (\<lambda>_. 0) v0 nonblock cnt ubuf d
      = (int (16 * k), memcpy_at ubuf 0 (concat (map rbdata_bytes (take k (ringbuf_list r)))), d\<lparr>myrb := r'\<rparr>)
      \<and> ringbuf_inv r' \<and> ringbuf_list r' = drop k (ringbuf_list r)"
proof -
  have "(ringbuf_getsize (myrb d) = 0) = (ringbuf_list (myrb d) = [])"
    using inv by (simp add: ringbuf_getsize_length)
  with src myfbread_loop_bounded [OF inv(2) room, of v0] show ?thesis
    unfolding k_def by (auto simp: myfbread_def Let_def split: if_splits)
qed

theorem myfbread_delivers_witness:
  "\<exists>r'. myfbread (\<lambda>r. (0, r)) quiet (\<lambda>_. 0) rbdata_zero True 20 (replicate 20 0)
        \<lparr>fminor = 0, mybell = (), mybell_irq = 0,
          myrb = ringbuf_push \<lparr>timestamp_ns = 7, sample_value = 1, status = 2\<rparr> (ringbuf_init ringbuf_zero), fwakes = 0\<rparr>
      = (16, [7, 0, 0, 0, 0, 0, 0, 0, 1, 0, 0, 0, 2, 0, 0, 0] @ replicate 4 0,
         \<lparr>fminor = 0, mybell = (), mybell_irq = 0, myrb = r', fwakes = 0\<rparr>) \<and> ringbuf_list r' = []"
proof -
  let ?v = "\<lparr>timestamp_ns = 7, sample_value = 1, status = 2\<rparr> :: rbdata"
  let ?r = "ringbuf_push ?v (ringbuf_init ringbuf_zero)"
  have inv: "ringbuf_inv ?r" and L: "ringbuf_list ?r = [?v]"
    using ringbuf_push_refines [OF ringbuf_inv_init, where v = ?v] by (simp_all add: ringbuf_list_init)
  have "rbdata_bytes ?v = [7, 0, 0, 0, 0, 0, 0, 0, 1, 0, 0, 0, 2, 0, 0, 0]"
    by code_simp
  then show ?thesis
    using myfbread_delivers [of "\<lparr>fminor = 0, mybell = (), mybell_irq = 0, myrb = ?r, fwakes = 0\<rparr>" ?r True
      "\<lambda>r. (0, r)" 20 "replicate 20 0" rbdata_zero] inv L
    by (auto simp: memcpy_at_def)
qed

text \<open>
  C6: whatever other contexts do to the ring between its critical sections (keeping it
  well-formed) and wherever user copies fault, \<open>myfbread\<close> keeps the ring well-formed, never
  touches the user buffer beyond the \<open>cnt\<close> bytes it was given, and returns either an error
  (what the wait returned, \<open>-EAGAIN\<close>, \<open>-EFAULT\<close> or \<open>-1\<close>) or a whole number of samples that fits.
\<close>

theorem myfbread_safe:
  assumes env: "\<And>i r. ringbuf_inv r \<Longrightarrow> ringbuf_inv (env i r)"
    and wait: "\<And>r. ringbuf_inv r \<Longrightarrow> ringbuf_inv (snd (wait r))"
    and inv: "ringbuf_inv (myrb d)" and room: "cnt \<le> length ubuf"
    and run: "myfbread wait env ctu v0 nonblock cnt ubuf d = (ret, ubuf', d')"
  shows "ringbuf_inv (myrb d') \<and> length ubuf' = length ubuf \<and> drop cnt ubuf' = drop cnt ubuf
     \<and> (ret = fst (wait (myrb d)) \<or> ret = - EAGAIN \<or> ret = - 1 \<or> ret = - EFAULT
        \<or> (0 \<le> ret \<and> ret \<le> int cnt \<and> 16 dvd ret))"
proof -
  have copy: "ringbuf_inv r1 \<and> length u1 = length ubuf \<and> drop cnt u1 = drop cnt ubuf
      \<and> (q = - 1 \<or> q = - EFAULT \<or> (q = 0 \<and> o1 \<le> cnt \<and> 16 dvd o1))"
    if "ringbuf_inv r" "n \<le> cnt div 16" "myfbread_loop env ctu n 0 v0 ubuf r = (q, o1, u1, r1)"
    for r n q o1 u1 r1
  proof -
    from that(2) have "16 * n \<le> 16 * (cnt div 16)" by simp
    then have n: "16 * n \<le> cnt" using times_div_less_eq_dividend [of 16 cnt] by linarith
    with myfbread_loop_safe [OF env that(1) _ that(3)] room
    have *: "ringbuf_inv r1 \<and> length u1 = length ubuf \<and> drop (16 * n) u1 = drop (16 * n) ubuf
        \<and> o1 \<le> 16 * n \<and> 16 dvd o1 \<and> (q = 0 \<or> q = - 1 \<or> q = - EFAULT)" by simp
    then have "drop (cnt - 16 * n) (drop (16 * n) u1) = drop (cnt - 16 * n) (drop (16 * n) ubuf)" by simp
    with n have "drop cnt u1 = drop cnt ubuf" by simp
    with * n show ?thesis by auto
  qed
  have wait': "ringbuf_inv r" if "wait (myrb d) = (q, r)" for q r
    using wait [OF inv] that by simp
  show ?thesis
    using run inv room
    by (auto simp: myfbread_def Let_def dest!: copy [rotated 2] wait' split: if_splits prod.splits)
qed

theorem myfbread_safe_witness:
  "\<exists>ret ubuf' d'. myfbread (\<lambda>r. (0, r)) (\<lambda>i. ringbuf_init) (\<lambda>_. 0) rbdata_zero True 16 [0, 0]
       \<lparr>fminor = 0, mybell = (), mybell_irq = 0, myrb = ringbuf_init ringbuf_zero, fwakes = 0\<rparr> = (ret, ubuf', d')
     \<and> ret = - EAGAIN \<and> ringbuf_inv (myrb d')
     \<and> ringbuf_inv (myrb (snd (snd (myfbread (\<lambda>r. (0, r)) (\<lambda>i. ringbuf_init) (\<lambda>_. 0) rbdata_zero False 2 [0, 0]
       \<lparr>fminor = 0, mybell = (), mybell_irq = 0, myrb = ringbuf_push rbdata_zero (ringbuf_init ringbuf_zero), fwakes = 0\<rparr>))))"
proof -
  let ?d = "\<lparr>fminor = 0, mybell = (), mybell_irq = 0, myrb = ringbuf_push rbdata_zero (ringbuf_init ringbuf_zero), fwakes = 0\<rparr>"
  obtain ret u d' where run: "myfbread (\<lambda>r. (0, r)) (\<lambda>i. ringbuf_init) (\<lambda>_. 0) rbdata_zero False 2 [0, 0] ?d = (ret, u, d')"
    by (cases "myfbread (\<lambda>r. (0, r)) (\<lambda>i. ringbuf_init) (\<lambda>_. 0) rbdata_zero False 2 [0, 0] ?d") auto
  have "ringbuf_inv (myrb d')"
    using myfbread_safe [OF _ _ _ _ run] by (simp add: ringbuf_inv_init ringbuf_push_refines)
  with run show ?thesis
    by (simp add: myfbread_def ringbuf_getsize_def ringbuf_init_def)
      (simp add: ringbuf_inv_init [unfolded ringbuf_init_def])
qed

text \<open>
  C7: when the user copy of sample \<open>k\<close> faults, \<open>myfbread\<close> returns \<open>-EFAULT\<close> with no byte count, and
  \<open>k + 1\<close> samples are gone from the ring: the \<open>k\<close> already copied, which the caller is not told
  about, and the one that could not be copied.
\<close>

theorem myfbread_fault_loses:
  assumes inv: "ringbuf_inv (myrb d)" and k: "k < cnt div 16" "k < length (ringbuf_list (myrb d))"
    and room: "cnt \<le> length ubuf"
    and good: "\<And>j. j < k \<Longrightarrow> ctu (16 * j) = 0" and bad: "ctu (16 * k) \<noteq> 0"
  shows "\<exists>ubuf' r'. myfbread wait quiet ctu v0 nonblock cnt ubuf d = (- EFAULT, ubuf', d\<lparr>myrb := r'\<rparr>)
      \<and> ringbuf_list r' = drop (Suc k) (ringbuf_list (myrb d))"
proof -
  let ?len = "length (ringbuf_list (myrb d))"
  define n where "n = (if ?len > cnt div 16 then cnt div 16 else ?len)"
  have len: "ringbuf_getsize (myrb d) = int ?len" using inv by (rule ringbuf_getsize_length)
  have n: "k < n" "n \<le> ?len" "n \<le> cnt div 16" using k by (simp_all add: n_def)
  from n(3) have "16 * n \<le> 16 * (cnt div 16)" by simp
  then have "16 * n \<le> length ubuf" using room times_div_less_eq_dividend [of 16 cnt] by linarith
  then obtain ubuf' r' where "myfbread_loop quiet ctu n 0 v0 ubuf (myrb d) = (- EFAULT, 16 * k, ubuf', r')"
    "ringbuf_list r' = drop (Suc k) (ringbuf_list (myrb d))"
    using myfbread_loop_fault [OF inv n(1,2), of 0 ubuf ctu v0] good bad by auto
  with k len show ?thesis by (auto simp: myfbread_def Let_def n_def)
qed

theorem myfbread_fault_loses_witness:
  "\<exists>ubuf' r'. myfbread (\<lambda>r. (0, r)) quiet (\<lambda>_. 16) rbdata_zero True 16 (replicate 16 0)
       \<lparr>fminor = 0, mybell = (), mybell_irq = 0, myrb = ringbuf_push rbdata_zero (ringbuf_init ringbuf_zero), fwakes = 0\<rparr>
     = (- EFAULT, ubuf', \<lparr>fminor = 0, mybell = (), mybell_irq = 0, myrb = r', fwakes = 0\<rparr>) \<and> ringbuf_list r' = []"
  using myfbread_fault_loses [of "\<lparr>fminor = 0, mybell = (), mybell_irq = 0,
      myrb = ringbuf_push rbdata_zero (ringbuf_init ringbuf_zero), fwakes = 0\<rparr>" 0 16 "replicate 16 0" "\<lambda>_. 16"
      "\<lambda>r. (0, r)" rbdata_zero True]
    ringbuf_push_refines [OF ringbuf_inv_init, where v = rbdata_zero]
  by (simp add: ringbuf_list_init)

text \<open>
  C4: in every state that an interleaving of the interrupt thread's two critical sections, of any number of
  readers (popping under the lock, then copying to user memory, which can fault) and of ioctls other than the buffer reset
  reaches: the samples popped so far, in the order of the pops, followed by those still in the ring are a subsequence of
  the samples that arrived; and every task has dealt with the samples it popped in this order, each delivered or lost to a faulting copy, but for
  the one it still holds. So nothing is invented, duplicated or reordered, and what each reader is handed is in order of
  arrival. A buffer reset is excluded because it is not atomic.
\<close>

theorem fb_reach_in_order:
  assumes "fb_reach B s"
  shows "ringbuf_inv (myrb (dev s))
    \<and> subseq (map snd (taken s) @ ringbuf_list (myrb (dev s))) (arrived s)
    \<and> taken_by i s = map fst (copied_by i s) @ in_hand (rd s i)
    \<and> subseq (delivered_to i s @ in_hand (rd s i)) (arrived s)"
proof -
  from assms have "fb_inv s" by (rule fb_reach_inv)
  then have inv: "stream_ok s" and t: "taken_by i s = map fst (copied_by i s) @ in_hand (rd s i)"
    by (simp_all add: fb_inv_def tasks_ok_def)
  from inv have s: "ringbuf_inv (myrb (dev s))" "subseq (map snd (taken s) @ ringbuf_list (myrb (dev s))) (arrived s)"
    by (auto simp: stream_ok_def intro: list_emb_append_mono)
  have "subseq (delivered_to i s @ in_hand (rd s i)) (taken_by i s)"
    unfolding t delivered_to_def by (intro list_emb_append_mono subseq_map) simp_all
  also have "subseq (taken_by i s) (map snd (taken s))"
    unfolding taken_by_def by (intro subseq_map) simp
  also have "subseq (map snd (taken s)) (arrived s)"
    using subseq_order.trans [OF _ s(2), of "map snd (taken s)"] by (simp add: list_emb_append2 subseq_rev_drop_many)
  finally show ?thesis using s t by simp
qed

text \<open>A sample pushed, popped by reader 7 and delivered.\<close>

lemma fb_reach_irq_example:
  "fb_reach fakebell_hw (fb_start d\<lparr>dev := snd (myirq_bottom fakebell_hw 5 (myfakebell_init d)),
     arrived := [irq_sample fakebell_hw 5 (myfakebell_init d)]\<rparr>)"
  using fb_reach_steps [OF irq_steps [of "fb_start d" fakebell_hw 5] fb_reach.start] by (simp add: fb_start_def)

lemma fb_reach_delivery_example:
  "\<exists>s v. fb_reach fakebell_hw s \<and> arrived s = [v] \<and> ringbuf_list (myrb (dev s)) = [] \<and> rd s 7 = Out
     \<and> copied s = [(7, v, ok)] \<and> taken s = [(7, v)] \<and> (\<forall>i. rd s i = Out)"
proof -
  let ?v = "irq_sample fakebell_hw 5 (myfakebell_init d)"
  let ?s1 = "fb_start d\<lparr>dev := snd (myirq_bottom fakebell_hw 5 (myfakebell_init d)), arrived := [?v]\<rparr>"
  have L: "ringbuf_inv (myrb (dev ?s1))" "ringbuf_list (myrb (dev ?s1)) = [?v]"
    using ringbuf_push_refines [OF ringbuf_inv_init, where v = ?v]
    by (simp_all add: myirq_bottom_eq myfakebell_init_def ringbuf_list_init)
  obtain r where r: "ringbuf_pop (myrb (dev ?s1)) ?v = (0, ?v, r)" "ringbuf_list r = []"
    using ringbuf_pop_refines [OF L, of ?v] by blast
  let ?s2 = "?s1\<lparr>rd := (rd ?s1)(7 := Loop 1 0)\<rparr>"
  have sz: "1 = nat (ringbuf_getsize (myrb (dev ?s1)))" by (subst ringbuf_getsize_length [OF L(1)]) (simp only: L(2), simp)
  have 2: "fb_reach fakebell_hw ?s2"
    using fb_reach.step [OF fb_reach_irq_example fb_step.enter [OF _ sz, of 7 fakebell_hw 16]] by (simp add: fb_start_def)
  let ?s3 = "?s2\<lparr>dev := (dev ?s2)\<lparr>myrb := r\<rparr>, rd := (rd ?s2)(7 := Holding 0 0 ?v), taken := taken ?s2 @ [(7, ?v)]\<rparr>"
  have 3: "fb_reach fakebell_hw ?s3"
    using 2 by (rule fb_reach.step) (rule fb_step.pop [where off = 0 and v = ?v], use r(1) in simp_all)
  let ?q = "if ok then Loop 0 16 else Done (- EFAULT)"
  let ?s4 = "?s3\<lparr>rd := (rd ?s3)(7 := ?q), copied := copied ?s3 @ [(7, ?v, ok)]\<rparr>"
  have 4: "fb_reach fakebell_hw ?s4"
    using fb_reach.step [OF 3 fb_step.copy [of ?s3 7 0 0 ?v]] fb_reach.step [OF 3 fb_step.fault [of ?s3 7 0 0 ?v]]
    by (cases ok) simp_all
  let ?ret = "if ok then 16 else - EFAULT"
  let ?s5 = "?s4\<lparr>rd := (rd ?s4)(7 := Done ?ret)\<rparr>"
  have 5: "fb_reach fakebell_hw ?s5"
    using 4 fb_reach.step [OF 4 fb_step.finish [of ?s4 7 16]] by (cases ok) (simp_all add: fb_start_def)
  let ?s6 = "?s5\<lparr>rd := (rd ?s5)(7 := Out)\<rparr>"
  have "fb_reach fakebell_hw ?s6"
    using 5 by (rule fb_reach.step) (rule fb_step.leave [where ret = ?ret], simp)
  then show ?thesis using r(2) by (intro exI [of _ ?s6]) (simp add: fb_start_def)
qed

theorem fb_reach_in_order_witness:
  "\<exists>s v. fb_reach fakebell_hw s \<and> arrived s = [v] \<and> delivered_to 7 s = [v]
     \<and> subseq (delivered_to 7 s @ in_hand (rd s 7)) (arrived s)"
proof -
  obtain s v where s: "fb_reach fakebell_hw s" "arrived s = [v]" "copied s = [(7, v, True)]"
    using fb_reach_delivery_example [of True] by blast
  then show ?thesis
    using fb_reach_in_order [OF s(1), of 7] by (intro exI [of _ s] exI [of _ v]) (simp add: delivered_to_def copied_by_def)
qed

text \<open>
  C5: as long as the buffer has not been reset, every sample that arrived is accounted for: it was
  delivered to a reader, lost to a faulting user copy, is in the hands of a reader between pop and copy, is still in the ring, or was
  overwritten, and \<open>dropcount\<close> counts exactly the last ones (modulo \<open>int\<close> wrap-around).
\<close>

theorem fb_reach_accounting:
  assumes "fb_reach B s"
  shows "finite {i. in_hand (rd s i) \<noteq> []}
    \<and> (\<exists>lost. length (arrived s) = length (filter (\<lambda>(i, v, ok). ok) (copied s)) + length (filter (\<lambda>(i, v, ok). \<not> ok) (copied s))
           + card {i. in_hand (rd s i) \<noteq> []} + nat (ringbuf_getsize (myrb (dev s))) + lost
       \<and> ringbuf_getlost (myrb (dev s)) = s32 (int lost))"
proof -
  from assms have inv: "stream_ok s" "tasks_ok s" using fb_reach_inv by (auto simp: fb_inv_def)
  from inv(1) obtain gone where g: "ringbuf_inv (myrb (dev s))" "arrived s = gone @ ringbuf_list (myrb (dev s))"
    "length (taken s) \<le> length gone"
    "dropcount (myrb (dev s)) = s32 (int (length gone - length (taken s)))"
    by (rule stream_okE)
  have "length (filter (\<lambda>(i, v, ok). ok) cs) + length (filter (\<lambda>(i, v, ok). \<not> ok) cs) = length cs"
    for cs :: "(nat \<times> rbdata \<times> bool) list"
    using sum_length_filter_compl [of "\<lambda>(i, v, ok). ok" cs] by (simp add: case_prod_unfold)
  with g inv(2) show ?thesis unfolding tasks_ok_def hands_def
    by (intro conjI exI [of _ "length gone - length (taken s)"])
      (simp_all add: ringbuf_getlost_def ringbuf_getsize_length)
qed

text \<open>A sample lost to a faulting copy.\<close>

theorem fb_reach_accounting_witness:
  "\<exists>s v. fb_reach fakebell_hw s \<and> copied s = [(7, v, False)]
     \<and> (\<exists>lost. length (arrived s) = 0 + 1 + 0 + nat (ringbuf_getsize (myrb (dev s))) + lost)"
proof -
  obtain s v where s: "fb_reach fakebell_hw s" "copied s = [(7, v, False)]" "\<forall>i. rd s i = Out"
    using fb_reach_delivery_example [of False] by blast
  then show ?thesis
    using fb_reach_accounting [OF s(1)] by (intro exI [of _ s] exI [of _ v]) auto
qed

text \<open>
  \<open>myfbpoll\<close> reports the device readable exactly when a non-blocking read would not return
  \<open>-EAGAIN\<close>, and it does so after every interrupt thread.
\<close>

theorem myfbpoll_readable:
  assumes "ringbuf_inv (myrb d)" "cnt \<le> length ubuf"
  shows "(myfbpoll B d AND POLLIN \<noteq> 0)
       = (fst (myfbread wait quiet (\<lambda>_. 0) v0 True cnt ubuf d) \<noteq> - EAGAIN)
     \<and> myfbpoll B (snd (myirq_bottom B now d)) AND POLLIN \<noteq> 0"
proof
  have mask: "(myfbpoll B e AND POLLIN \<noteq> 0) = (ringbuf_getsize (myrb e) \<noteq> 0)" for e :: "'a myfbdev"
    by (simp add: myfbpoll_def Let_def bit.conj_disj_distrib2)
  show "myfbpoll B (snd (myirq_bottom B now d)) AND POLLIN \<noteq> 0"
    using ringbuf_push_refines [OF assms(1)]
    by (simp add: mask myirq_bottom_eq ringbuf_getsize_length)
  show "(myfbpoll B d AND POLLIN \<noteq> 0)
       = (fst (myfbread wait quiet (\<lambda>_. 0) v0 True cnt ubuf d) \<noteq> - EAGAIN)"
    using myfbread_loop_bounded [OF assms, of v0] unfolding mask
    by (auto simp: myfbread_def Let_def)
qed

theorem myfbpoll_readable_witness:
  "myfbpoll fakebell_hw (snd (myirq_bottom fakebell_hw 5 (myfakebell_init
      \<lparr>fminor = 0, mybell = fakebell_realize, mybell_irq = 3, myrb = ringbuf_zero, fwakes = 0\<rparr>))) AND POLLIN \<noteq> 0"
  using myfbpoll_readable [of "myfakebell_init
      \<lparr>fminor = 0, mybell = fakebell_realize, mybell_irq = 3, myrb = ringbuf_zero, fwakes = 0\<rparr>" 0 "[]" fakebell_hw]
  by (simp add: myfakebell_init_def ringbuf_inv_init)

text \<open>
  C9: a whole life of the module, from a successful \<open>myfbinit\<close> over any number of probes with any
  outcomes to \<open>myfbexit\<close> with the probed devices still bound, never releases or uses what it does
  not hold and leaves exactly the resources that were held before.
\<close>

theorem myfb_session_balanced:
  assumes "fst (myfbinit i) = 0"
  shows "run_calls (snd (myfbinit i) @ concat (map (\<lambda>e. snd (myfb_probe B d0 e)) es)
      @ myfbexit (map (myfb_dev B d0) (filter (\<lambda>e. fst (myfb_probe B d0 e) = 0) es))) h = Some h"
  using fb_mod.module_session [OF assms, of B d0 es h] by simp

theorem myfb_session_balanced_witness:
  "run_calls (snd (myfbinit \<lparr>m_region = 0, m_class = 1, m_register = 0\<rparr>) @ []
      @ myfbexit (map (myfb_dev fakebell_hw undefined) [])) {#} = Some {#}"
  using myfb_session_balanced [of "\<lparr>m_region = 0, m_class = 1, m_register = 0\<rparr>" fakebell_hw undefined "[]" "{#}"]
  by (simp add: myfbinit_def IS_ERR_def)

end
