(* ===== verification/C_Strings.thy ===== *)
theory C_Strings
  imports Kernel_Prelude
begin

text \<open>
  The part of C's string handling that the programs use: decimal output of \<open>printf\<close>'s \<open>%d\<close> and
  \<open>%u\<close>, the number readers of the C library (\<open>atoi\<close>, \<open>strtoul\<close> with base 0, \<open>%d\<close> of \<open>sscanf\<close>
  behind a literal prefix), and NUL-terminated strings in a fixed array. A string is the list of
  its characters without the terminator. The lemmas give the round trip between printing and
  reading and the lengths that the fixed buffers of the drivers must hold.
\<close>

named_theorems text_simps \<open>printing and reading decimal numbers\<close>

section \<open>Printing\<close>

definition digit_char :: "nat \<Rightarrow> char" where
  "digit_char d = char_of (48 + d)"

fun print_u :: "nat \<Rightarrow> string" where
  "print_u n = (if n < 10 then [digit_char n] else print_u (n div 10) @ [digit_char (n mod 10)])"

declare print_u.simps [simp del]

definition print_d :: "int \<Rightarrow> string" where
  "print_d x = (if x < 0 then CHR ''-'' # print_u (nat (- x)) else print_u (nat x))"

section \<open>Reading\<close>

definition c_isspace :: "char \<Rightarrow> bool" where
  "c_isspace c \<longleftrightarrow> of_char c = (32 :: nat) \<or> (9 \<le> (of_char c :: nat) \<and> of_char c \<le> (13 :: nat))"

definition c_isdigit :: "char \<Rightarrow> bool" where
  "c_isdigit c \<longleftrightarrow> 48 \<le> (of_char c :: nat) \<and> of_char c \<le> (57 :: nat)"

text \<open>The value of a character as a digit of a base up to 16; no value is \<open>16\<close> or more.\<close>

definition digit_val :: "char \<Rightarrow> nat" where
  "digit_val c = (let k = of_char c in
     if 48 \<le> k \<and> k \<le> 57 then k - 48
     else if 65 \<le> k \<and> k \<le> 70 then k - 55
     else if 97 \<le> k \<and> k \<le> 102 then k - 87 else 16)"

definition digits_of :: "nat \<Rightarrow> string \<Rightarrow> string" where
  "digits_of b s = takeWhile (\<lambda>c. digit_val c < b) s"

definition digits_val :: "nat \<Rightarrow> string \<Rightarrow> nat" where
  "digits_val b s = foldl (\<lambda>a c. b * a + digit_val c) 0 s"

text \<open>An optional sign: whether it was a minus, and the rest.\<close>

definition read_sign :: "string \<Rightarrow> bool \<times> string" where
  "read_sign s = (case s of [] \<Rightarrow> (False, s)
     | c # r \<Rightarrow> if c = CHR ''-'' then (True, r) else if c = CHR ''+'' then (False, r) else (False, s))"

text \<open>\<open>atoi\<close>: skip white space, an optional sign, decimal digits; no digits read as 0. A value
  that does not fit is taken modulo the width.\<close>

definition atoi :: "string \<Rightarrow> int" where
  "atoi s = (case read_sign (dropWhile c_isspace s) of (neg, r) \<Rightarrow>
     let v = int (digits_val 10 (digits_of 10 r)) in s32 (if neg then - v else v))"

text \<open>\<open>strtoul(s, NULL, 0)\<close>: base 16 after \<open>0x\<close>, base 8 after \<open>0\<close>, else base 10; out of range
  gives \<open>ULONG_MAX\<close>, a minus sign negates in the unsigned type.\<close>

definition strtoul_prefix :: "string \<Rightarrow> nat \<times> string" where
  "strtoul_prefix r = (case r of
       CHR ''0'' # x # d # t \<Rightarrow>
         if (x = CHR ''x'' \<or> x = CHR ''X'') \<and> digit_val d < 16 then (16, d # t) else (8, r)
     | CHR ''0'' # t \<Rightarrow> (8, r)
     | _ \<Rightarrow> (10, r))"

definition strtoul0 :: "string \<Rightarrow> u64" where
  "strtoul0 s = (case read_sign (dropWhile c_isspace s) of (neg, r) \<Rightarrow>
     case strtoul_prefix r of (b, t) \<Rightarrow>
     let v = digits_val b (digits_of b t) in
     if v \<ge> 2 ^ 64 then - 1 else if neg then - of_nat v else of_nat v)"

text \<open>\<open>sscanf(s, prefix ''%d'', &v)\<close>: the value when one conversion is made.\<close>

definition sscanf_d :: "string \<Rightarrow> string \<Rightarrow> int option" where
  "sscanf_d prefix s =
    (if take (length prefix) s \<noteq> prefix then None
     else let r = dropWhile c_isspace (drop (length prefix) s);
              neg = (r \<noteq> [] \<and> hd r = CHR ''-'');
              t = (if neg then tl r else r);
              ds = digits_of 10 t;
              v = int (digits_val 10 ds)
          in if ds = [] then None else Some (s32 (if neg then - v else v)))"

section \<open>Round trip\<close>

lemma digit_char_props [simp]:
  assumes "d < 10"
  shows "digit_val (digit_char d) = d" "c_isdigit (digit_char d)" "\<not> c_isspace (digit_char d)"
    "digit_char d \<noteq> CHR ''-''" "digit_char d \<noteq> CHR ''+''"
proof -
  have code: "of_char (digit_char d) = 48 + d"
    using assms by (simp add: digit_char_def)
  then show "digit_val (digit_char d) = d" "c_isdigit (digit_char d)" "\<not> c_isspace (digit_char d)"
    using assms by (simp_all add: digit_val_def c_isdigit_def c_isspace_def)
  have "c \<noteq> digit_char d" if "of_char c < (48 :: nat)" for c
    using that code by auto
  from this [of "CHR ''-''"] this [of "CHR ''+''"]
  show "digit_char d \<noteq> CHR ''-''" "digit_char d \<noteq> CHR ''+''" by auto
qed

lemma print_u_digits: "c \<in> set (print_u n) \<Longrightarrow> \<exists>d < 10. c = digit_char d"
proof (induction n rule: print_u.induct)
  case (1 n)
  show ?case
  proof (cases "n < 10")
    case True
    with "1.prems" show ?thesis by (auto simp: print_u.simps [of n])
  next
    case False
    with 1 show ?thesis by (auto simp: print_u.simps [of n] intro: exI [of _ "n mod 10"])
  qed
qed

lemma print_u_ne [simp]: "print_u n \<noteq> []"
  by (subst print_u.simps) simp

lemma digits_val_print_u [text_simps]: "digits_val 10 (print_u n) = n"
proof (induction n rule: print_u.induct)
  case (1 n)
  then show ?case
    by (cases "n < 10") (simp_all add: print_u.simps [of n] digits_val_def)
qed

lemma digits_of_append:
  "(\<forall>c \<in> set xs. digit_val c < b) \<Longrightarrow> digits_of b (xs @ ys) = xs @ digits_of b ys"
  by (simp add: digits_of_def takeWhile_append2)

lemma digits_of_print_u [text_simps]: "digits_of 10 (print_u n @ s) = print_u n @ digits_of 10 s"
  by (rule digits_of_append) (auto dest: print_u_digits)

lemma print_u_hd: "\<exists>d r. d < 10 \<and> print_u n = digit_char d # r"
  using print_u_digits [of "hd (print_u n)" n] print_u_ne [of n]
  by (metis list.collapse list.set_sel(1))

lemma dropWhile_print_d [text_simps]: "dropWhile c_isspace (print_d x @ s) = print_d x @ s"
proof -
  obtain d r where "d < 10" "print_u (nat x) = digit_char d # r" using print_u_hd by blast
  moreover have "\<not> c_isspace (CHR ''-'')" by (simp add: c_isspace_def)
  ultimately show ?thesis by (simp add: print_d_def)
qed

lemma sscanf_d_print_d [text_simps]:
  assumes "is_s32 v" "\<And>c r. s = c # r \<Longrightarrow> \<not> digit_val c < 10"
  shows "sscanf_d prefix (prefix @ print_d v @ s) = Some v"
proof -
  obtain d r where d: "d < 10" "print_u (nat v) = digit_char d # r" using print_u_hd by blast
  have "digits_of 10 s = []"
    using assms(2) by (cases s) (simp_all add: digits_of_def)
  then have "digits_of 10 (print_u n @ s) = print_u n" for n by (simp add: text_simps)
  moreover have "digit_char d \<noteq> CHR ''-''" using d by simp
  ultimately show ?thesis
    using d assms(1) digits_of_print_u [of "nat v" s] digits_val_print_u [of "nat v"]
    by (auto simp: sscanf_d_def dropWhile_print_d Let_def s32_idem)
      (simp_all add: print_d_def text_simps s32_idem split: if_splits)
qed

lemma atoi_print_d [text_simps]: "is_s32 v \<Longrightarrow> atoi (print_d v) = v"
proof -
  assume v: "is_s32 v"
  obtain d r where d: "d < 10" "print_u (nat v) = digit_char d # r" using print_u_hd by blast
  have D: "digits_of 10 (print_u n) = print_u n" for n
    using digits_of_print_u [of n "[]"] by (simp add: digits_of_def)
  have "read_sign (print_d v) = (v < 0, print_u (nat \<bar>v\<bar>))"
    using d by (auto simp: print_d_def read_sign_def)
  moreover have "dropWhile c_isspace (print_d v) = print_d v"
    using dropWhile_print_d [of v "[]"] by simp
  ultimately show ?thesis
    using v by (simp add: atoi_def D text_simps s32_idem Let_def)
qed

section \<open>Lengths\<close>

lemma length_print_u: "n < 10 ^ k \<Longrightarrow> 0 < k \<Longrightarrow> length (print_u n) \<le> k"
proof (induction k arbitrary: n)
  case 0
  then show ?case by simp
next
  case (Suc k)
  show ?case
  proof (cases "n < 10")
    case True
    then show ?thesis by (simp add: print_u.simps [of n])
  next
    case False
    with Suc.prems have "n div 10 < 10 ^ k" "0 < k"
      by (auto simp: less_mult_imp_div_less mult.commute intro: gr0I)
    with Suc.IH False show ?thesis by (simp add: print_u.simps [of n])
  qed
qed

lemma length_print_d: "is_s32 v \<Longrightarrow> length (print_d v) \<le> 11"
proof -
  assume "is_s32 v"
  then have "nat v < 10 ^ 10" "nat (- v) < 10 ^ 10" by (auto simp: is_s32_def)
  then have "length (print_u (nat v)) \<le> 10" "length (print_u (nat (- v))) \<le> 10"
    by (auto intro: length_print_u)
  then show ?thesis by (simp add: print_d_def)
qed

text \<open>A string in an array: the characters before the first NUL, and how far reading goes.\<close>

definition cstr :: "string \<Rightarrow> string" where
  "cstr a = takeWhile (\<lambda>c. c \<noteq> CHR 0x00) a"

definition terminated :: "string \<Rightarrow> bool" where
  "terminated a \<longleftrightarrow> CHR 0x00 \<in> set a"

lemma cstr_term [simp]: "CHR 0x00 \<notin> set s \<Longrightarrow> cstr (s @ CHR 0x00 # t) = s"
  unfolding cstr_def by (subst takeWhile_append2) auto

lemma cstr_length: "terminated a \<Longrightarrow> length (cstr a) < length a"
  unfolding cstr_def terminated_def
  by (metis (mono_tags, lifting) length_takeWhile_le le_neq_implies_less set_takeWhileD takeWhile_eq_take take_all order_refl)

lemma print_u_no_nul: "CHR 0x00 \<notin> set (print_u n)"
proof
  assume "CHR 0x00 \<in> set (print_u n)"
  then obtain d where "d < 10" "CHR 0x00 = digit_char d" using print_u_digits by blast
  then have "of_char (CHR 0x00) = (48 + d :: nat)" by (simp only: digit_char_def) simp
  then show False by simp
qed

lemma print_d_no_nul [text_simps]: "CHR 0x00 \<notin> set (print_d v)"
  using print_u_no_nul by (simp add: print_d_def)

end
