(* ===== verification/Fakebell_App.thy ===== *)
theory Fakebell_App
  imports Fakebell_System C_Strings
begin

text \<open>
  The user program \<open>practice/myfakebell/app/main.c\<close> of the fake bell driver: the three modes, the
  command line, and the decoding of the structs the driver copies out. The system calls are
  arguments: what \<open>open\<close> returns, and for every round of a mode's loop what \<open>poll\<close>, \<open>read\<close> and
  \<open>ioctl\<close> return. A mode loops for ever unless a call fails, so it is run on the list of rounds
  observed so far: the result is the printed lines and the exit status, if it has exited.
\<close>

section \<open>Structs in the user buffer\<close>

definition rbdata_of :: "u8 list \<Rightarrow> rbdata" where
  "rbdata_of bs = \<lparr>timestamp_ns = of_nat (le_value (take 8 bs)),
     sample_value = of_nat (le_value (take 4 (drop 8 bs))), status = of_nat (le_value (take 4 (drop 12 bs)))\<rparr>"

definition statusmsg_of :: "u8 list \<Rightarrow> statusmsg" where
  "statusmsg_of bs = \<lparr>sm_status = of_nat (le_value (take 4 bs)),
     sm_threshold = of_nat (le_value (take 4 (drop 4 bs))), sm_last_sample = of_nat (le_value (take 4 (drop 8 bs)))\<rparr>"

definition statmsg_of :: "u8 list \<Rightarrow> statmsg" where
  "statmsg_of bs = \<lparr>st_bufcnt = of_nat (le_value (take 4 bs)),
     st_dropcnt = of_nat (le_value (take 4 (drop 4 bs))), st_irqcnt = of_nat (le_value (take 4 (drop 8 bs)))\<rparr>"

section \<open>Modes\<close>

text \<open>The lines the program prints, with their arguments.\<close>

datatype fb_line =
    Perror string | Usage
  | Waiting | Revents string u32 | High_priority
  | Got int int | Sample nat rbdata | Eof_line
  | Threshold_set u32 | Status_line statusmsg | Clear_requested
  | Stats_wait | Stats_line statmsg
  | Pollerr string | Pollhup string

abbreviation (input) POLLERR :: u32 where "POLLERR \<equiv> 0x0008"
abbreviation (input) POLLHUP :: u32 where "POLLHUP \<equiv> 0x0010"

definition poll_tail :: "string \<Rightarrow> u32 \<Rightarrow> fb_line list" where
  "poll_tail mode revents = (if revents AND POLLERR \<noteq> 0 then [Pollerr mode] else [])
     @ (if revents AND POLLHUP \<noteq> 0 then [Pollhup mode] else [])"

text \<open>One round of \<open>do_read_mode\<close>: what \<open>poll\<close> returned and reported, what \<open>read\<close> returned and
  the 128 bytes of \<open>buf\<close> after it.\<close>

record read_round =
  rr_poll :: int
  rr_revents :: u32
  rr_read :: int
  rr_buf :: "u8 list"

definition read_round_step :: "read_round \<Rightarrow> fb_line list \<times> int option" where
  "read_round_step x =
    (if rr_poll x < 0 then ([Perror ''poll''], Some 1)
     else let pre = [Revents ''read'' (rr_revents x)]
                @ (if rr_revents x AND POLLPRI \<noteq> 0 then [High_priority] else []);
              n = rr_read x; cnt = n div 16
          in if rr_revents x AND (POLLIN OR POLLRDNORM) \<noteq> 0 then
               if n < 0 then (pre @ [Perror ''read''], Some 1)
               else if n = 0 then (pre @ [Eof_line], Some 0)
               else (pre @ [Got n cnt] @ map (\<lambda>i. Sample i (rbdata_of (drop (16 * i) (rr_buf x)))) [0..<nat cnt]
                       @ poll_tail ''read'' (rr_revents x), None)
             else (pre @ poll_tail ''read'' (rr_revents x), None))"

fun run_rounds :: "('r \<Rightarrow> fb_line list \<times> int option) \<Rightarrow> 'r list \<Rightarrow> fb_line list \<times> int option" where
  "run_rounds f [] = ([], None)"
| "run_rounds f (x # xs) = (case f x of (out, Some c) \<Rightarrow> (out, Some c)
     | (out, None) \<Rightarrow> (case run_rounds f xs of (out', c) \<Rightarrow> (out @ out', c)))"

definition do_read_mode :: "int \<Rightarrow> read_round list \<Rightarrow> fb_line list \<times> int option" where
  "do_read_mode fd rounds =
    (if fd < 0 then ([Perror ''open''], Some 1)
     else case run_rounds read_round_step rounds of (out, c) \<Rightarrow> (Waiting # out, c))"

record alarm_round =
  ar_poll :: int
  ar_revents :: u32
  ar_get :: int
  ar_msg :: "u8 list"
  ar_clear :: int

definition alarm_round_step :: "alarm_round \<Rightarrow> fb_line list \<times> int option" where
  "alarm_round_step x =
    (if ar_poll x < 0 then ([Perror ''poll''], Some 1)
     else let pre = [Revents ''alarm'' (ar_revents x)];
              st = [Status_line (statusmsg_of (ar_msg x))]
          in if ar_revents x AND (POLLPRI OR POLLIN OR POLLRDNORM) \<noteq> 0 then
               if ar_get x < 0 then (pre @ [Perror ''ioctl(FB_GET_STATUS)''], Some 1)
               else if ar_clear x < 0 then (pre @ st @ [Perror ''ioctl(FB_CLEAR_ALARM)''], Some 1)
               else (pre @ st @ [Clear_requested] @ poll_tail ''alarm'' (ar_revents x), None)
             else (pre @ poll_tail ''alarm'' (ar_revents x), None))"

text \<open>\<open>setret\<close> is what \<open>ioctl(fd, FB_SET_THRESHOLD, &threshold)\<close> returns.\<close>

definition do_alarm_mode :: "int \<Rightarrow> int \<Rightarrow> u32 \<Rightarrow> alarm_round list \<Rightarrow> fb_line list \<times> int option" where
  "do_alarm_mode fd setret threshold rounds =
    (if fd < 0 then ([Perror ''open''], Some 1)
     else if setret < 0 then ([Perror ''ioctl(FB_SET_THRESHOLD)''], Some 1)
     else case run_rounds alarm_round_step rounds of (out, c) \<Rightarrow> (Threshold_set threshold # out, c))"

definition stats_round_step :: "int \<times> u8 list \<Rightarrow> fb_line list \<times> int option" where
  "stats_round_step x = (if fst x < 0 then ([Perror ''ioctl(FB_GET_STATS)''], Some 1)
     else ([Stats_line (statmsg_of (snd x))], None))"

definition do_stats_mode :: "int \<Rightarrow> (int \<times> u8 list) list \<Rightarrow> fb_line list \<times> int option" where
  "do_stats_mode fd rounds =
    (if fd < 0 then ([Perror ''open''], Some 1)
     else case run_rounds stats_round_step rounds of (out, c) \<Rightarrow> (Stats_wait # out, c))"

text \<open>\<open>main\<close>: the mode the command line selects.\<close>

datatype fb_mode = Mode_read | Mode_alarm u32 | Mode_stats | Mode_usage

definition fb_main :: "string list \<Rightarrow> fb_mode" where
  "fb_main argv =
    (if length argv < 2 then Mode_usage
     else if argv ! 1 = ''read'' then Mode_read
     else if argv ! 1 = ''alarm'' then
       Mode_alarm (if length argv \<ge> 3 then ucast (strtoul0 (argv ! 2)) else 50)
     else if argv ! 1 = ''stats'' then Mode_stats
     else Mode_usage)"

section \<open>Decoding what the driver wrote\<close>

lemma rbdata_of_bytes [bytes_simps]: "rbdata_of (rbdata_bytes v @ r) = v"
  by (simp add: rbdata_of_def rbdata_bytes_def bytes_simps)

lemma statusmsg_of_bytes [bytes_simps]: "statusmsg_of (statusmsg_bytes m) = m"
  by (simp add: statusmsg_of_def statusmsg_bytes_def bytes_simps)

lemma statmsg_of_bytes [bytes_simps]: "statmsg_of (statmsg_bytes m) = m"
  by (simp add: statmsg_of_def statmsg_bytes_def bytes_simps)

lemma drop_concat_rbdata_bytes:
  "i < length vs \<Longrightarrow> drop (16 * i) (concat (map rbdata_bytes vs))
     = rbdata_bytes (vs ! i) @ concat (map rbdata_bytes (drop (Suc i) vs))"
proof (induction vs arbitrary: i)
  case Nil
  then show ?case by simp
next
  case (Cons v vs)
  then show ?case by (cases i) (simp_all add: algebra_simps)
qed

lemma run_rounds_append:
  "snd (run_rounds f xs) = None \<Longrightarrow>
   run_rounds f (xs @ ys) = (fst (run_rounds f xs) @ fst (run_rounds f ys), snd (run_rounds f ys))"
proof (induction xs)
  case Nil
  then show ?case by simp
next
  case (Cons x xs)
  then show ?case by (auto split: prod.splits option.splits)
qed

section \<open>Driver and program together\<close>

text \<open>What a failed system call looks like to the program: \<open>-1\<close>.\<close>

definition syscall :: "int \<Rightarrow> int" where
  "syscall r = (if r < 0 then - 1 else r)"

text \<open>
  C12: one round of the program's read mode over the driver: after \<open>poll\<close> reported the device
  readable, the program prints exactly the (at most eight) oldest samples of the ring, decoded
  from the bytes \<open>myfbread\<close> copied out, and keeps running.
\<close>

theorem read_round_prints_oldest:
  assumes inv: "ringbuf_inv (myrb d)" and ne: "ringbuf_list (myrb d) \<noteq> []"
    and buf: "length buf = 128"
    and run: "myfbread wait quiet (\<lambda>_. 0) v0 nonblock 128 buf d = (ret, buf', d')"
  shows "read_round_step \<lparr>rr_poll = 1, rr_revents = POLLIN OR POLLRDNORM, rr_read = syscall ret, rr_buf = buf'\<rparr>
    = ([Revents ''read'' (POLLIN OR POLLRDNORM),
        Got (int (16 * length (take 8 (ringbuf_list (myrb d))))) (int (length (take 8 (ringbuf_list (myrb d)))))]
       @ map2 Sample [0..<length (take 8 (ringbuf_list (myrb d)))] (take 8 (ringbuf_list (myrb d))), None)"
proof -
  define vs where "vs = take 8 (ringbuf_list (myrb d))"
  define k where "k = length vs"
  have k: "k = min (128 div 16) (length (ringbuf_list (myrb d)))" "0 < k" "16 * k \<le> 128"
    using ne by (auto simp: k_def vs_def)
  have vs: "take k (ringbuf_list (myrb d)) = vs" by (simp add: k_def vs_def min_def)
  from myfbread_loop_bounded [OF inv, of 128 buf v0] buf run ne inv
  have ret: "ret = int (16 * k)" and b: "buf' = memcpy_at buf 0 (concat (map rbdata_bytes vs))"
    unfolding k(1) [symmetric] vs
    by (auto simp: myfbread_def Let_def ringbuf_getsize_length)
  have "rbdata_of (drop (16 * i) buf') = vs ! i" if "i < k" for i
    using that b by (simp add: memcpy_at_def k_def drop_concat_rbdata_bytes rbdata_of_bytes)
  then have "map (\<lambda>i. Sample i (rbdata_of (drop (16 * i) buf'))) [0..<k] = map2 Sample [0..<k] vs"
    by (intro nth_equalityI) (simp_all add: k_def)
  then show ?thesis
    using ret k(2) unfolding vs_def [symmetric] k_def [symmetric]
    by (simp add: read_round_step_def syscall_def poll_tail_def Let_def)
qed

theorem read_round_prints_oldest_witness:
  "read_round_step \<lparr>rr_poll = 1, rr_revents = POLLIN OR POLLRDNORM, rr_read = 16,
      rr_buf = [7, 0, 0, 0, 0, 0, 0, 0, 1, 0, 0, 0, 2, 0, 0, 0] @ replicate 112 0\<rparr>
    = ([Revents ''read'' (POLLIN OR POLLRDNORM), Got 16 1,
        Sample 0 \<lparr>timestamp_ns = 7, sample_value = 1, status = 2\<rparr>], None)"
proof -
  let ?v = "\<lparr>timestamp_ns = 7, sample_value = 1, status = 2\<rparr> :: rbdata"
  let ?r = "ringbuf_push ?v (ringbuf_init ringbuf_zero)"
  let ?d = "\<lparr>fminor = 0, mybell = (), mybell_irq = 0, myrb = ?r, fwakes = 0\<rparr>"
  have inv: "ringbuf_inv ?r" and L: "ringbuf_list ?r = [?v]"
    using ringbuf_push_refines [OF ringbuf_inv_init, where v = ?v] by (simp_all add: ringbuf_list_init)
  obtain ret b d' where run: "myfbread (\<lambda>r. (0, r)) quiet (\<lambda>_. 0) rbdata_zero True 128 (replicate 128 0) ?d = (ret, b, d')"
    by (cases "myfbread (\<lambda>r. (0, r)) quiet (\<lambda>_. 0) rbdata_zero True 128 (replicate 128 0) ?d") auto
  have bytes: "rbdata_bytes ?v = [7, 0, 0, 0, 0, 0, 0, 0, 1, 0, 0, 0, 2, 0, 0, 0]" by code_simp
  with myfbread_loop_bounded [OF inv, of 128 "replicate 128 0" rbdata_zero] run
  have "ret = 16" "b = [7, 0, 0, 0, 0, 0, 0, 0, 1, 0, 0, 0, 2, 0, 0, 0] @ replicate 112 0"
    using inv by (auto simp: myfbread_def Let_def ringbuf_getsize_length L memcpy_at_def)
  then show ?thesis
    using read_round_prints_oldest [OF _ _ _ run] inv L by (simp add: syscall_def)
qed

text \<open>
  C13: every ioctl command on every branch. The statistics and status commands return 0 and the bytes from which the program decodes
  what the driver holds: the fill level and the drop counter (as unsigned, with an interrupt count of always 0), and the three
  register values. Setting the threshold writes that register, clearing the alarm changes nothing, and the reset returns 0 and
  leaves a well-formed empty ring with the drop counter at 0 and the rest of the device as it was. Where a user copy leaves
  \<open>n > 0\<close> bytes the command returns \<open>-EFAULT\<close> without an effect on the device, the first \<open>12 - n\<close> bytes being copied
  out. A command the driver does not know is refused with \<open>-EINVAL\<close> and no effect.
\<close>

theorem myfbioctl_commands:
  assumes inv: "ringbuf_inv (myrb d)"
  shows "(\<exists>out. myfbioctl B 0 u FB_GET_STATS d = (0, out, d) \<and> statmsg_of out
            = \<lparr>st_bufcnt = of_nat (length (ringbuf_list (myrb d))),
               st_dropcnt = word_of_int (dropcount (myrb d)), st_irqcnt = 0\<rparr>
         \<and> (0 < n \<longrightarrow> myfbioctl B n u FB_GET_STATS d = (- EFAULT, take (12 - n) out, d)))
    \<and> (\<exists>out. myfbioctl B 0 u FB_GET_STATUS d = (0, out, d) \<and> statusmsg_of out
            = \<lparr>sm_status = hw_readl B (mybell d) 0x00, sm_threshold = hw_readl B (mybell d) 0x14,
               sm_last_sample = hw_readl B (mybell d) 0x18\<rparr>
         \<and> (0 < n \<longrightarrow> myfbioctl B n u FB_GET_STATUS d = (- EFAULT, take (12 - n) out, d)))
    \<and> myfbioctl B 0 u FB_SET_THRESHOLD d = (0, [], d\<lparr>mybell := hw_writel B (mybell d) 0x14 u\<rparr>)
    \<and> (0 < n \<longrightarrow> myfbioctl B n u FB_SET_THRESHOLD d = (- EFAULT, [], d))
    \<and> myfbioctl B n u FB_CLEAR_ALARM d = (0, [], d)
    \<and> (\<exists>r. myfbioctl B n u FB_RESET_BUFFER d = (0, [], d\<lparr>myrb := r\<rparr>)
         \<and> ringbuf_inv r \<and> ringbuf_list r = [] \<and> ringbuf_getsize r = 0 \<and> ringbuf_getlost r = 0)
    \<and> (nr \<notin> {FB_GET_STATS, FB_GET_STATUS, FB_SET_THRESHOLD, FB_CLEAR_ALARM, FB_RESET_BUFFER} \<longrightarrow>
         myfbioctl B n u nr d = (- EINVAL, [], d))"
proof -
  have "length (statmsg_bytes m) = 12" "length (statusmsg_bytes m') = 12" for m m'
    by (simp_all add: statmsg_bytes_def statusmsg_bytes_def)
  then have out: "take 12 (statmsg_bytes m) = statmsg_bytes m"
    "take 12 (statusmsg_bytes m') = statusmsg_bytes m'" for m m' by simp_all
  have reset: "\<exists>r. myfbioctl B n u FB_RESET_BUFFER d = (0, [], d\<lparr>myrb := r\<rparr>)
      \<and> ringbuf_inv r \<and> ringbuf_list r = [] \<and> ringbuf_getsize r = 0 \<and> ringbuf_getlost r = 0"
    by (intro exI [of _ "ringbuf_init (myrb d)"])
      (simp add: myfbioctl_def fb_cmds ringbuf_inv_init ringbuf_list_init ringbuf_getsize_length ringbuf_getlost_def, simp add: ringbuf_init_def)
  show ?thesis
    using inv reset by (auto simp: myfbioctl_def fb_cmds Let_def out bytes_simps ringbuf_getsize_length
      ringbuf_getlost_def mb_get_status_def mb_get_threshold_def
      mb_get_sample_value_def mb_set_threshold_def mb_readl_def mb_writel_def mb_regs)
qed

theorem myfbioctl_commands_witness:
  "myfbioctl fakebell_hw 3 0 (IO 42 9) (myfakebell_init
      \<lparr>fminor = 0, mybell = fakebell_realize, mybell_irq = 3, myrb = ringbuf_zero, fwakes = 0\<rparr>)
    = (- EINVAL, [], myfakebell_init
      \<lparr>fminor = 0, mybell = fakebell_realize, mybell_irq = 3, myrb = ringbuf_zero, fwakes = 0\<rparr>)"
proof -
  let ?d = "myfakebell_init
      \<lparr>fminor = 0, mybell = fakebell_realize, mybell_irq = 3, myrb = ringbuf_zero, fwakes = 0\<rparr>"
  have "ringbuf_inv (myrb ?d)" by (simp add: myfakebell_init_def ringbuf_inv_init)
  from myfbioctl_commands [OF this, of fakebell_hw 0 3 "IO 42 9"] show ?thesis
    by (simp add: fb_cmds)
qed

end
