(* ===== verification/Sensor_Ring.thy ===== *)
theory Sensor_Ring
  imports Ring_Spec C_Strings
begin

text \<open>
  The ring of \<open>practice/mysensor/mysensor.c\<close>: 100 readings, each an \<open>int\<close> and the text of the time
  it was stored. Every function is one critical section under the ring's mutex. A time stamp
  array of 32 bytes is the string it holds. The ring interprets the bounded queue of \<open>Ring_Spec\<close>.
\<close>

section \<open>Data and operations\<close>

record ringbuffer =
  buffer :: "int list"
  timestamps :: "string list"
  sr_head :: int
  sr_tail :: int
  sr_size :: int

text \<open>The embedded ring of a device in zeroed memory.\<close>

definition ringbuffer_zero :: ringbuffer where
  "ringbuffer_zero = \<lparr>buffer = replicate 100 0, timestamps = replicate 100 [], sr_head = 0, sr_tail = 0, sr_size = 0\<rparr>"

definition rb_init :: "ringbuffer \<Rightarrow> ringbuffer" where
  "rb_init rb = rb\<lparr>sr_head := 0, sr_tail := 0, sr_size := 0\<rparr>"

text \<open>\<open>%0<w>ld\<close> of a number that is not negative.\<close>

definition print_0u :: "nat \<Rightarrow> nat \<Rightarrow> string" where
  "print_0u w n = replicate (w - length (print_u n)) CHR ''0'' @ print_u n"

text \<open>\<open>snprintf(a, n, ..)\<close> leaves at most \<open>n - 1\<close> characters of the formatted text in \<open>a\<close>.\<close>

definition snprintf_str :: "nat \<Rightarrow> string \<Rightarrow> string" where
  "snprintf_str n s = take (n - 1) s"

definition timestamp_text :: "int \<times> nat \<Rightarrow> string" where
  "timestamp_text ts = print_d (fst ts) @ ''.'' @ print_0u 9 (snd ts) @ [CHR 0x0A]"

text \<open>The stores of \<open>rb_push\<close>, after the text of the time is known.\<close>

definition rb_store :: "int \<times> string \<Rightarrow> ringbuffer \<Rightarrow> ringbuffer" where
  "rb_store x rb =
    (let rb1 = rb\<lparr>timestamps := (timestamps rb)[nat (sr_head rb) := snd x],
                  buffer := (buffer rb)[nat (sr_head rb) := fst x],
                  sr_head := c_mod (s32 (sr_head rb + 1)) 100\<rparr>
     in if sr_size rb < 100 then rb1\<lparr>sr_size := s32 (sr_size rb + 1)\<rparr>
        else rb1\<lparr>sr_tail := c_mod (s32 (sr_tail rb + 1)) 100\<rparr>)"

text \<open>\<open>ts\<close> is what \<open>ktime_get_real_ts64\<close> returns: seconds and nanoseconds.\<close>

definition rb_push :: "int \<times> nat \<Rightarrow> int \<Rightarrow> ringbuffer \<Rightarrow> ringbuffer" where
  "rb_push ts value rb = rb_store (value, snprintf_str 32 (timestamp_text ts)) rb"

text \<open>\<open>rb_pop\<close> writes through \<open>value\<close> and, unless it is NULL, \<open>timestamp\<close>.\<close>

definition rb_pop :: "ringbuffer \<Rightarrow> int \<Rightarrow> string option \<Rightarrow> int \<times> int \<times> string option \<times> ringbuffer" where
  "rb_pop rb value timestamp =
    (if sr_size rb = 0 then (- 1, value, timestamp, rb)
     else (0, buffer rb ! nat (sr_tail rb),
           (case timestamp of None \<Rightarrow> None | Some _ \<Rightarrow> Some (timestamps rb ! nat (sr_tail rb))),
           rb\<lparr>sr_tail := c_mod (s32 (sr_tail rb + 1)) 100, sr_size := s32 (sr_size rb - 1)\<rparr>))"

definition rb_isempty :: "ringbuffer \<Rightarrow> bool" where
  "rb_isempty rb \<longleftrightarrow> sr_size rb = 0"

section \<open>Invariant and abstraction\<close>

definition rb_inv :: "ringbuffer \<Rightarrow> bool" where
  "rb_inv rb \<longleftrightarrow> length (buffer rb) = 100 \<and> length (timestamps rb) = 100
     \<and> 0 \<le> sr_tail rb \<and> sr_tail rb < 100 \<and> 0 \<le> sr_size rb \<and> sr_size rb \<le> 100
     \<and> sr_head rb = (sr_tail rb + sr_size rb) mod 100"

definition rb_list :: "ringbuffer \<Rightarrow> (int \<times> string) list" where
  "rb_list rb = ring_list 100 (zip (buffer rb) (timestamps rb)) (nat (sr_tail rb)) (nat (sr_size rb))"

definition rb_take :: "ringbuffer \<Rightarrow> ((int \<times> string) \<times> ringbuffer) option" where
  "rb_take rb = (case rb_pop rb 0 (Some []) of (ret, v, ts, rb') \<Rightarrow>
     if ret = 0 then Some ((v, the ts), rb') else None)"

lemma rb_inv_elim:
  assumes "rb_inv rb"
  obtains t n where "t < 100" "n \<le> 100" "sr_tail rb = int t" "sr_size rb = int n"
    "sr_head rb = int ((t + n) mod 100)" "length (buffer rb) = 100" "length (timestamps rb) = 100"
proof
  show "nat (sr_tail rb) < 100" "nat (sr_size rb) \<le> 100" "sr_tail rb = int (nat (sr_tail rb))"
    "sr_size rb = int (nat (sr_size rb))" "length (buffer rb) = 100" "length (timestamps rb) = 100"
    using assms by (auto simp: rb_inv_def)
  show "sr_head rb = int ((nat (sr_tail rb) + nat (sr_size rb)) mod 100)"
    using assms by (simp add: rb_inv_def zmod_int)
qed

lemma length_rb_list: "rb_inv rb \<Longrightarrow> int (length (rb_list rb)) = sr_size rb"
  by (simp add: rb_list_def rb_inv_def)

lemma rb_isempty_list: "rb_inv rb \<Longrightarrow> rb_isempty rb = (rb_list rb = [])"
  using length_rb_list [of rb] by (auto simp: rb_isempty_def)

lemma rb_inv_init: "length (buffer rb) = 100 \<Longrightarrow> length (timestamps rb) = 100 \<Longrightarrow> rb_inv (rb_init rb)"
  by (simp add: rb_inv_def rb_init_def)

lemma rb_list_init: "rb_list (rb_init rb) = []"
  by (simp add: rb_list_def rb_init_def)

lemma rb_store_eq:
  assumes "t < 100" "n \<le> 100" "sr_tail rb = int t" "sr_size rb = int n"
    "sr_head rb = int ((t + n) mod 100)"
  shows "rb_store x rb =
    rb\<lparr>timestamps := (timestamps rb)[(t + n) mod 100 := snd x], buffer := (buffer rb)[(t + n) mod 100 := fst x],
       sr_head := int (Suc (t + n) mod 100),
       sr_tail := int (if n = 100 then Suc t mod 100 else t), sr_size := int (if n = 100 then n else Suc n)\<rparr>"
proof -
  have "sr_head rb < 100" using assms by simp
  then show ?thesis
    using assms by (auto simp: rb_store_def zmod_int mod_simps Let_def ac_simps)
qed

lemma rb_store_refines:
  assumes "rb_inv rb"
  shows "rb_inv (rb_store x rb)"
    and "rb_list (rb_store x rb) = (if length (rb_list rb) = 100 then tl (rb_list rb) else rb_list rb) @ [x]"
proof -
  from assms obtain t n where w: "t < 100" "n \<le> 100" "sr_tail rb = int t" "sr_size rb = int n"
    "sr_head rb = int ((t + n) mod 100)" and len: "length (buffer rb) = 100" "length (timestamps rb) = 100"
    by (rule rb_inv_elim)
  note eq = rb_store_eq [OF w, of x]
  have wrap: "(int t + 101) mod 100 = (1 + int t) mod 100"
    using mod_add_self2 [of "1 + int t" 100] by (simp add: ac_simps)
  show "rb_inv (rb_store x rb)"
    using w len wrap by (simp add: eq rb_inv_def zmod_int mod_simps ac_simps)
  have z: "zip ((buffer rb)[i := fst x]) ((timestamps rb)[i := snd x])
      = (zip (buffer rb) (timestamps rb))[i := x]" for i
    by (metis prod.collapse update_zip)
  show "rb_list (rb_store x rb) = (if length (rb_list rb) = 100 then tl (rb_list rb) else rb_list rb) @ [x]"
    using w len by (auto simp: eq rb_list_def z ring_simps nat_int)
qed

lemma rb_pop_refines:
  assumes "rb_inv rb" "rb_list rb = (v, ts) # xs"
  shows "\<exists>rb'. rb_pop rb v0 (Some ts0) = (0, v, Some ts, rb') \<and> rb_inv rb' \<and> rb_list rb' = xs"
proof -
  from assms(1) obtain t n where w: "t < 100" "n \<le> 100" "sr_tail rb = int t" "sr_size rb = int n"
    "sr_head rb = int ((t + n) mod 100)" "length (buffer rb) = 100" "length (timestamps rb) = 100"
    by (rule rb_inv_elim)
  with assms(2) have n: "0 < n" by (cases n) (simp_all add: rb_list_def)
  let ?rb = "rb\<lparr>sr_tail := int (Suc t mod 100), sr_size := int (n - 1)\<rparr>"
  have "rb_pop rb v0 (Some ts0) = (0, buffer rb ! t, Some (timestamps rb ! t), ?rb)"
    using w n by (simp add: rb_pop_def zmod_int of_nat_diff ac_simps)
  moreover have "rb_inv ?rb"
    using w n by (simp add: rb_inv_def zmod_int of_nat_diff mod_simps)
  moreover have "(v, ts) # xs
      = (buffer rb ! t, timestamps rb ! t) # ring_list 100 (zip (buffer rb) (timestamps rb)) (Suc t mod 100) (n - 1)"
    using assms(2) w n ring_list_Cons [of n 100 "zip (buffer rb) (timestamps rb)" t]
    by (simp add: rb_list_def)
  ultimately show ?thesis by (simp add: rb_list_def)
qed

lemma rb_pop_empty: "rb_inv rb \<Longrightarrow> rb_list rb = [] \<Longrightarrow> rb_pop rb v ts = (- 1, v, ts, rb)"
  using length_rb_list [of rb] by (simp add: rb_pop_def)

interpretation srb: overwriting_ring 100 "rb_init ringbuffer_zero" rb_store rb_take rb_list rb_inv
proof unfold_locales
  show "rb_inv (rb_init ringbuffer_zero)" by (simp add: rb_inv_init ringbuffer_zero_def)
  show "rb_list (rb_init ringbuffer_zero) = []" by (rule rb_list_init)
  fix r x assume inv: "rb_inv r"
  then show "length (rb_list r) \<le> 100" using length_rb_list [of r] by (auto simp: rb_inv_def)
  from inv show "rb_inv (rb_store x r)" by (rule rb_store_refines)
  from inv show "rb_list (rb_store x r) = (if length (rb_list r) = 100 then tl (rb_list r) else rb_list r) @ [x]"
    by (rule rb_store_refines)
next
  fix r assume "rb_inv r" "rb_list r = []"
  then show "rb_take r = None" by (simp add: rb_take_def rb_pop_empty)
next
  fix r x xs assume "rb_inv r" "rb_list r = x # xs"
  then show "\<exists>r'. rb_take r = Some (x, r') \<and> rb_inv r' \<and> rb_list r' = xs"
    using rb_pop_refines [of r "fst x" "snd x" xs 0 "[]"] by (auto simp: rb_take_def)
qed simp

section \<open>Lengths of the texts\<close>

lemma length_print_0u: "n < 10 ^ w \<Longrightarrow> 0 < w \<Longrightarrow> length (print_0u w n) = w"
  using length_print_u [of n w] by (simp add: print_0u_def)

text \<open>The time text of any \<open>s64\<close> second and a nanosecond below \<open>10^9\<close> fits its 32 bytes.\<close>

definition valid_ts :: "int \<times> nat \<Rightarrow> bool" where
  "valid_ts ts \<longleftrightarrow> - (2 ^ 63) \<le> fst ts \<and> fst ts < 2 ^ 63 \<and> snd ts < 1000000000"

lemma length_timestamp_text: "valid_ts ts \<Longrightarrow> length (timestamp_text ts) \<le> 31"
proof -
  assume ts: "valid_ts ts"
  then have "nat (fst ts) < 10 ^ 19" "nat (- fst ts) < 10 ^ 19" by (auto simp: valid_ts_def)
  then have "length (print_u (nat (fst ts))) \<le> 19" "length (print_u (nat (- fst ts))) \<le> 19"
    by (auto intro: length_print_u)
  moreover have "length (print_0u 9 (snd ts)) = 9"
    using ts by (intro length_print_0u) (simp_all add: valid_ts_def)
  ultimately show ?thesis by (simp add: timestamp_text_def print_d_def)
qed

lemma snprintf_timestamp: "valid_ts ts \<Longrightarrow> snprintf_str 32 (timestamp_text ts) = timestamp_text ts"
  using length_timestamp_text [of ts] by (simp add: snprintf_str_def)

end
