(* ===== verification/Sensor.thy ===== *)
theory Sensor
  imports Sensor_Ring Bell_Regs Kernel_Resources
begin

text \<open>
  The interrupt-driven sensor \<open>practice/mysensor/mysensor.c\<close> on top of its ring, and the test
  program \<open>practice/mysensor/app/main.c\<close>. Register file, user copies, waiting and the outcomes of
  registration calls are parameters, as in \<open>Fakebell\<close>.
\<close>

section \<open>The driver\<close>

record 'h mysensordev =
  sbell :: 'h
  sbell_irq :: int
  sens_rb :: ringbuffer
  swakes :: nat

definition sensor_text :: "int \<Rightarrow> string \<Rightarrow> string" where
  "sensor_text value timestamp = ''Value: '' @ print_d value @ '', Timestamp: '' @ timestamp"

text \<open>
  The end of \<open>mysensor_read\<close>: \<open>snprintf\<close> into the 64 bytes of \<open>output\<close> and the copy of \<open>len\<close> bytes
  to \<open>buf\<close>, of which \<open>left\<close> fail. \<open>None\<close> is a copy that would read past the end of \<open>output\<close>.
\<close>

definition sensor_copy :: "nat \<Rightarrow> string \<Rightarrow> int \<Rightarrow> string \<Rightarrow> (int \<times> string) option" where
  "sensor_copy left ubuf value timestamp =
    (let text = sensor_text value timestamp; len = length text;
         output = snprintf_str 64 text @ [CHR 0x00]
     in if len > 64 then None
        else Some (if left \<noteq> 0 then - EFAULT else int len,
                   memcpy_at ubuf 0 (take (len - left) output)))"

text \<open>\<open>wait rb\<close> is what \<open>wait_event_interruptible\<close> returns and the ring when the pop begins.\<close>

definition mysensor_read ::
  "(ringbuffer \<Rightarrow> int \<times> ringbuffer) \<Rightarrow> nat \<Rightarrow> bool \<Rightarrow> nat \<Rightarrow> string \<Rightarrow> 'h mysensordev
    \<Rightarrow> (int \<times> string \<times> 'h mysensordev) option" where
  "mysensor_read wait left nonblock cnt buf dev =
    (let finish = (\<lambda>rb value timestamp. case sensor_copy left buf value timestamp of
           None \<Rightarrow> None | Some (ret, buf') \<Rightarrow> Some (ret, buf', dev\<lparr>sens_rb := rb\<rparr>))
     in if nonblock then
          (case rb_pop (sens_rb dev) 0 (Some []) of (ret, value, ts, rb) \<Rightarrow>
             if ret < 0 then Some (- EAGAIN, buf, dev\<lparr>sens_rb := rb\<rparr>) else finish rb value (the ts))
        else
          (case wait (sens_rb dev) of (ret, rb1) \<Rightarrow>
             if ret \<noteq> 0 then Some (ret, buf, dev\<lparr>sens_rb := rb1\<rparr>)
             else (case rb_pop rb1 0 (Some []) of (ret, value, ts, rb) \<Rightarrow>
                     if ret < 0 then Some (- EFAULT, buf, dev\<lparr>sens_rb := rb\<rparr>)
                     else finish rb value (the ts))))"

definition mysensor_poll :: "'h mysensordev \<Rightarrow> u32" where
  "mysensor_poll dev = (if \<not> rb_isempty (sens_rb dev) then POLLIN OR POLLRDNORM else 0)"

definition mysensor_irq_handler :: "'h bell_hw \<Rightarrow> 'h mysensordev \<Rightarrow> irqreturn" where
  "mysensor_irq_handler B dev =
    (if mb_get_irq_status B (sbell dev) AND MB_IRQ_STATUS_PENDING = 0 then IRQ_NONE else IRQ_WAKE_THREAD)"

text \<open>\<open>data\<close> is the function's static counter, shared by all devices.\<close>

definition mysensor_irq_thread ::
  "'h bell_hw \<Rightarrow> int \<times> nat \<Rightarrow> int \<Rightarrow> 'h mysensordev \<Rightarrow> irqreturn \<times> int \<times> 'h mysensordev" where
  "mysensor_irq_thread B now data dev =
    (IRQ_HANDLED, s32 (data + 1),
     dev\<lparr>sens_rb := rb_push now (c_mod data 100) (sens_rb dev), sbell := mb_ack_irq B (sbell dev),
         swakes := Suc (swakes dev)\<rparr>)"

record se_env =
  se_alloc :: bool
  se_cdev_add :: int
  se_device_create :: int
  se_resource :: bool
  se_ioremap :: int
  se_get_irq :: int
  se_request_irq :: int

definition mysensor_probe :: "'h bell_hw \<Rightarrow> se_env \<Rightarrow> 'h mysensordev \<Rightarrow> int \<times> kcall list \<times> 'h mysensordev" where
  "mysensor_probe B e dev =
    (let created = [Acq (Cdev 0), Use Class, Acq (Device 0)];
         undo = [Use Class, Rel (Device 0), Rel (Cdev 0)];
         dev1 = dev\<lparr>sens_rb := rb_init (sens_rb dev), swakes := 0\<rparr>;
         dev2 = dev1\<lparr>sbell_irq := se_get_irq e\<rparr>
     in if \<not> se_alloc e then (- ENOMEM, [], dev)
        else if se_cdev_add e \<noteq> 0 then (- 1, [], dev)
        else if IS_ERR (se_device_create e) then
          (PTR_ERR (se_device_create e), [Acq (Cdev 0), Use Class, Rel (Cdev 0)], dev)
        else if \<not> se_resource e then (- ENODEV, created @ undo, dev1)
        else if IS_ERR (se_ioremap e) then (PTR_ERR (se_ioremap e), created @ undo, dev1)
        else if se_get_irq e < 0 then (- ENODEV, created @ undo, dev2)
        else if se_request_irq e \<noteq> 0 then (se_request_irq e, created @ undo, dev2)
        else (0, created, dev2\<lparr>sbell := mb_enable_irq B (sbell dev2)\<rparr>))"

definition mysensor_remove :: "kcall list" where
  "mysensor_remove = [Use Class, Rel (Device 0), Rel (Cdev 0)]"

definition mysensor_init :: "mod_env \<Rightarrow> int \<times> kcall list" where
  "mysensor_init e =
    (let region = (if m_region e = 0 then [Acq Region] else [])
     in if IS_ERR (m_class e) then (PTR_ERR (m_class e), region @ [Rel Region])
        else (m_register e, region @ [Acq Class] @ (if m_register e = 0 then [Acq Driver] else [])))"

text \<open>\<open>n\<close> devices are bound when the module goes away.\<close>

definition mysensor_exit :: "nat \<Rightarrow> kcall list" where
  "mysensor_exit n = [Rel Class, Rel Region] @ driver_unregister (replicate n mysensor_remove)"

section \<open>The test program\<close>

datatype sensor_line =
    S_head string | S_perror string | S_open_ok int | S_close_ok | S_eagain | S_read string int string
  | S_waiting | S_timeout | S_poll int u32 | S_pollerr | S_pollhup | S_pollnval | S_blank | S_testing | S_all_tested

text \<open>Results of \<open>open\<close>, \<open>close\<close>, \<open>poll\<close> and \<open>read\<close>; \<open>r_buf\<close> is \<open>buf\<close> after the read.\<close>

record sensor_calls =
  r_open :: int
  r_close :: int
  r_poll :: int
  r_revents :: u32
  r_read :: int
  r_errno :: int
  r_buf :: string

text \<open>\<open>buf[n] = 0\<close> and printing \<open>buf\<close>; \<open>None\<close> when the store is outside the array.\<close>

definition sensor_print :: "string \<Rightarrow> int \<Rightarrow> string \<Rightarrow> sensor_line list option" where
  "sensor_print label n buf =
    (if nat n < length buf then Some [S_read label n (cstr (buf[nat n := CHR 0x00]))] else None)"

definition test_open_close :: "sensor_calls \<Rightarrow> sensor_line list" where
  "test_open_close c = S_head ''test open/release'' #
    (if r_open c < 0 then [S_perror ''open'']
     else S_open_ok (r_open c) # (if r_close c < 0 then [S_perror ''close''] else [S_close_ok]))"

definition test_nonblocking_read :: "sensor_calls \<Rightarrow> sensor_line list option" where
  "test_nonblocking_read c =
    (let hd = [S_head ''test nonblocking read'']
     in if r_open c < 0 then Some (hd @ [S_perror ''open''])
        else if r_read c < 0 then
          Some (hd @ [if r_errno c = EAGAIN then S_eagain else S_perror ''read''] @ [S_blank])
        else (case sensor_print ''nonblocking read'' (r_read c) (r_buf c) of
                None \<Rightarrow> None | Some l \<Rightarrow> Some (hd @ l @ [S_blank])))"

definition test_poll_and_read :: "sensor_calls \<Rightarrow> sensor_line list option" where
  "test_poll_and_read c =
    (let hd = [S_head ''test poll''];
         wt = hd @ [S_waiting];
         polled = wt @ [S_poll (r_poll c) (r_revents c)];
         flags = (if r_revents c AND 0x8 \<noteq> 0 then [S_pollerr] else [])
           @ (if r_revents c AND 0x10 \<noteq> 0 then [S_pollhup] else [])
           @ (if r_revents c AND 0x20 \<noteq> 0 then [S_pollnval] else []) @ [S_blank]
     in if r_open c < 0 then Some (hd @ [S_perror ''open''])
        else if r_poll c < 0 then Some (wt @ [S_perror ''poll''])
        else if r_poll c = 0 then Some (wt @ [S_timeout, S_blank])
        else if r_revents c AND POLLIN \<noteq> 0 then
          if r_read c < 0 then Some (polled @ [S_perror ''read''])
          else (case sensor_print ''read after poll'' (r_read c) (r_buf c) of
                  None \<Rightarrow> None | Some l \<Rightarrow> Some (polled @ l @ flags))
        else Some (polled @ flags))"

definition test_blocking_read :: "sensor_calls \<Rightarrow> sensor_line list option" where
  "test_blocking_read c =
    (let hd = [S_head ''test blocking read'']; wt = hd @ [S_waiting]
     in if r_open c < 0 then Some (hd @ [S_perror ''open''])
        else if r_read c < 0 then Some (wt @ [S_perror ''read''])
        else (case sensor_print ''blocking read'' (r_read c) (r_buf c) of
                None \<Rightarrow> None | Some l \<Rightarrow> Some (wt @ l @ [S_blank])))"

definition sensor_main :: "sensor_calls \<Rightarrow> sensor_calls \<Rightarrow> sensor_calls \<Rightarrow> sensor_calls \<Rightarrow> (sensor_line list \<times> int) option" where
  "sensor_main c1 c2 c3 c4 =
    (case (test_nonblocking_read c2, test_poll_and_read c3, test_blocking_read c4) of
       (Some l2, Some l3, Some l4) \<Rightarrow> Some ([S_testing] @ test_open_close c1 @ l2 @ l3 @ l4 @ [S_all_tested], 0)
     | _ \<Rightarrow> None)"

section \<open>Readings\<close>

text \<open>What the ring holds: C ints and NUL-free texts that fit their 32 bytes.\<close>

definition readings_ok :: "ringbuffer \<Rightarrow> bool" where
  "readings_ok rb \<longleftrightarrow> rb_inv rb \<and>
     (\<forall>x \<in> set (rb_list rb). is_s32 (fst x) \<and> length (snd x) \<le> 31 \<and> CHR 0x00 \<notin> set (snd x))"

lemma timestamp_no_nul: "CHR 0x00 \<notin> set (timestamp_text ts)"
  using print_d_no_nul print_u_no_nul by (simp add: timestamp_text_def print_0u_def)

lemma c_mod_range: "is_s32 d \<Longrightarrow> is_s32 (c_mod d 100)"
proof -
  have "\<bar>c_mod d 100\<bar> < 100"
    using pos_mod_bound [of 100 "\<bar>d\<bar>"] pos_mod_sign [of 100 "\<bar>d\<bar>"] by (simp add: c_mod_def abs_mult sgn_if)
  then have "- 100 < c_mod d 100" "c_mod d 100 < 100" by (simp_all add: abs_less_iff)
  then show ?thesis by (simp add: is_s32_def)
qed

lemma readings_ok_init:
  "length (buffer rb) = 100 \<Longrightarrow> length (timestamps rb) = 100 \<Longrightarrow> readings_ok (rb_init rb)"
  by (simp add: readings_ok_def rb_inv_init rb_list_init)

lemma set_tl_subset: "set (tl xs) \<subseteq> set xs"
  by (cases xs) auto

lemma readings_ok_push:
  assumes "readings_ok rb" "is_s32 v"
  shows "readings_ok (rb_push ts v rb)"
proof -
  let ?x = "(v, snprintf_str 32 (timestamp_text ts))"
  have inv: "rb_inv rb" using assms(1) by (simp add: readings_ok_def)
  have "set (rb_list (rb_store ?x rb)) \<subseteq> insert ?x (set (rb_list rb))"
    using rb_store_refines(2) [OF inv, of ?x] set_tl_subset [of "rb_list rb"] by (auto split: if_splits)
  moreover have "CHR 0x00 \<notin> set (snprintf_str 32 (timestamp_text ts))"
    using timestamp_no_nul [of ts] by (auto simp: snprintf_str_def dest: in_set_takeD)
  ultimately show ?thesis
    using assms rb_store_refines(1) [OF inv, of ?x]
    by (auto simp: readings_ok_def rb_push_def snprintf_str_def)
qed

lemma length_sensor_text: "is_s32 v \<Longrightarrow> length ts \<le> 31 \<Longrightarrow> length (sensor_text v ts) \<le> 62"
  using length_print_d [of v] by (simp add: sensor_text_def)

lemma sensor_copy_ok:
  assumes "is_s32 v" "length ts \<le> 31"
  shows "sensor_copy 0 buf v ts = Some (int (length (sensor_text v ts)), memcpy_at buf 0 (sensor_text v ts))"
  using length_sensor_text [OF assms] by (simp add: sensor_copy_def snprintf_str_def Let_def)

lemma sensor_text_no_nul: "CHR 0x00 \<notin> set ts \<Longrightarrow> CHR 0x00 \<notin> set (sensor_text v ts)"
  using print_d_no_nul [of v] by (simp add: sensor_text_def)

lemma rb_list_irq:
  "rb_inv rb \<Longrightarrow> rb_list rb = lastn 100 xs \<Longrightarrow>
   rb_list (rb_push ts v rb) = lastn 100 (xs @ [(v, snprintf_str 32 (timestamp_text ts))])"
  unfolding rb_push_def by (rule srb.contents_push_lastn)

section \<open>Guarantees\<close>

lemma rb_pop_cases:
  assumes "readings_ok rb"
  shows "(rb_list rb = [] \<and> rb_pop rb 0 (Some []) = (- 1, 0, Some [], rb)) \<or>
    (\<exists>v ts xs rb'. rb_list rb = (v, ts) # xs \<and> rb_pop rb 0 (Some []) = (0, v, Some ts, rb')
       \<and> rb_list rb' = xs \<and> readings_ok rb' \<and> is_s32 v \<and> length ts \<le> 31)"
proof (cases "rb_list rb")
  case Nil
  with assms show ?thesis by (simp add: readings_ok_def rb_pop_empty)
next
  case (Cons x xs)
  obtain v ts where x: "x = (v, ts)" by (cases x)
  have "rb_inv rb" using assms by (simp add: readings_ok_def)
  with Cons x obtain rb' where "rb_pop rb 0 (Some []) = (0, v, Some ts, rb')" "rb_inv rb'" "rb_list rb' = xs"
    using rb_pop_refines by blast
  with Cons x assms show ?thesis by (auto simp: readings_ok_def)
qed

text \<open>
  C14: a read of a device that holds readings (at the pop, after any wait) returns the oldest one as
  the text \<open>Value: <v>, Timestamp: <ts>\<close>, whole and never truncated: at most 62 bytes of the 64-byte
  buffer. The text is written to the user whatever \<open>count\<close> the caller gave: nothing bounds it
  by \<open>count\<close>.
\<close>

theorem mysensor_read_text:
  assumes ok: "readings_ok rb" "rb_list rb = (v, ts) # xs"
    and src: "if nonblock then rb = sens_rb d else wait (sens_rb d) = (0, rb)"
  shows "\<exists>rb'. mysensor_read wait 0 nonblock cnt buf d
       = Some (int (length (sensor_text v ts)), memcpy_at buf 0 (sensor_text v ts), d\<lparr>sens_rb := rb'\<rparr>)
     \<and> rb_list rb' = xs \<and> readings_ok rb' \<and> length (sensor_text v ts) \<le> 62"
proof -
  from rb_pop_cases [OF ok(1)] ok(2) obtain rb' where
    "rb_pop rb 0 (Some []) = (0, v, Some ts, rb')" "rb_list rb' = xs" "readings_ok rb'"
    "is_s32 v" "length ts \<le> 31" by auto
  with src show ?thesis
    by (auto simp: mysensor_read_def Let_def sensor_copy_ok length_sensor_text split: if_splits)
qed

lemma sensor_example_ring:
  "readings_ok (rb_push (5, 7) 3 (rb_init ringbuffer_zero))"
  "rb_list (rb_push (5, 7) 3 (rb_init ringbuffer_zero)) = [(3, ''5.000000007'' @ [CHR 0x0A])]"
proof -
  have init: "readings_ok (rb_init ringbuffer_zero)" by (simp add: readings_ok_init ringbuffer_zero_def)
  then show "readings_ok (rb_push (5, 7) 3 (rb_init ringbuffer_zero))"
    by (rule readings_ok_push) (simp add: is_s32_def)
  have "snprintf_str 32 (timestamp_text (5, 7)) = ''5.000000007'' @ [CHR 0x0A]" by code_simp
  with rb_list_irq [of "rb_init ringbuffer_zero" "[]" "(5, 7)" 3] init
  show "rb_list (rb_push (5, 7) 3 (rb_init ringbuffer_zero)) = [(3, ''5.000000007'' @ [CHR 0x0A])]"
    by (simp add: readings_ok_def rb_list_init)
qed

theorem mysensor_read_text_witness:
  "\<exists>rb'. mysensor_read (\<lambda>r. (0, r)) 0 True 1 (replicate 40 CHR 0x00)
      \<lparr>sbell = (), sbell_irq = 0, sens_rb = rb_push (5, 7) 3 (rb_init ringbuffer_zero), swakes = 0\<rparr>
    = Some (33, ''Value: 3, Timestamp: 5.000000007'' @ [CHR 0x0A] @ replicate 7 CHR 0x00,
        \<lparr>sbell = (), sbell_irq = 0, sens_rb = rb', swakes = 0\<rparr>)"
proof -
  have "sensor_text 3 (''5.000000007'' @ [CHR 0x0A]) = ''Value: 3, Timestamp: 5.000000007'' @ [CHR 0x0A]"
    by code_simp
  then show ?thesis
    using mysensor_read_text [OF sensor_example_ring, of True
      "\<lparr>sbell = (), sbell_irq = 0, sens_rb = rb_push (5, 7) 3 (rb_init ringbuffer_zero), swakes = 0\<rparr>"
      "\<lambda>r. (0, r)" 1 "replicate 40 CHR 0x00"]
    by (auto simp: memcpy_at_def numeral_eq_Suc)
qed

text \<open>The interrupt thread runs once for every time in the list.\<close>

definition irq_threads :: "'h bell_hw \<Rightarrow> (int \<times> nat) list \<Rightarrow> int \<times> 'h mysensordev \<Rightarrow> int \<times> 'h mysensordev" where
  "irq_threads B nows s = fold (\<lambda>now (data, d). snd (mysensor_irq_thread B now data d)) nows s"

text \<open>The value of the interrupt with number \<open>i\<close>: the counter is an \<open>int\<close> that wraps around, and \<open>%\<close> takes its sign.\<close>

definition reading_value :: "int \<Rightarrow> nat \<Rightarrow> int" where
  "reading_value k i = c_mod (s32 (k + int i)) 100"

lemma reading_value_Suc: "reading_value k (Suc i) = reading_value (s32 (k + 1)) i"
  by (simp add: reading_value_def s32_add_left s32_add_right ac_simps)

lemma reading_value_small: "0 \<le> k \<Longrightarrow> k + int i < 2 ^ 31 \<Longrightarrow> reading_value k i = (k + int i) mod 100"
  by (simp add: reading_value_def)

lemma reading_value_is_s32: "is_s32 (c_mod x 100)"
proof -
  have "\<bar>c_mod x 100\<bar> \<le> 100" by (auto simp: c_mod_def sgn_if abs_mult intro: order_less_imp_le)
  then show ?thesis by (simp add: is_s32_def abs_le_iff)
qed

lemma irq_threads_run:
  assumes "readings_ok (sens_rb d)" "rb_list (sens_rb d) = lastn 100 ys" "is_s32 k" "\<forall>ts \<in> set nows. valid_ts ts"
  shows "case irq_threads B nows (k, d) of (k', d') \<Rightarrow> k' = s32 (k + int (length nows)) \<and> readings_ok (sens_rb d')
     \<and> rb_list (sens_rb d') = lastn 100 (ys @ map2 (\<lambda>i ts. (reading_value k i, timestamp_text ts)) [0..<length nows] nows)"
  using assms
proof (induction nows arbitrary: k d ys)
  case Nil
  then show ?case by (simp add: irq_threads_def s32_idem)
next
  case (Cons ts nows)
  let ?d = "snd (snd (mysensor_irq_thread B ts k d))"
  let ?x = "(reading_value k 0, timestamp_text ts)"
  have v: "reading_value k 0 = c_mod k 100" using Cons.prems(3) by (simp add: reading_value_def s32_idem)
  have rb: "sens_rb ?d = rb_push ts (reading_value k 0) (sens_rb d)"
    by (simp add: mysensor_irq_thread_def v)
  have "rb_list (sens_rb ?d) = lastn 100 (ys @ [?x])"
    using Cons.prems unfolding rb by (subst rb_list_irq [of _ ys]) (auto simp: readings_ok_def snprintf_timestamp)
  moreover have "readings_ok (sens_rb ?d)"
    unfolding rb v using Cons.prems(1) reading_value_is_s32 by (intro readings_ok_push) auto
  ultimately have IH: "case irq_threads B nows (s32 (k + 1), ?d) of (k', d') \<Rightarrow>
       k' = s32 (s32 (k + 1) + int (length nows)) \<and> readings_ok (sens_rb d')
     \<and> rb_list (sens_rb d') = lastn 100 ((ys @ [?x]) @ map2 (\<lambda>i ts. (reading_value (s32 (k + 1)) i, timestamp_text ts)) [0..<length nows] nows)"
    using Cons.prems(4) by (intro Cons.IH) auto
  have "map2 (\<lambda>i ts. (reading_value k i, timestamp_text ts)) [0..<length (ts # nows)] (ts # nows)
      = ?x # map2 (\<lambda>i ts. (reading_value (s32 (k + 1)) i, timestamp_text ts)) [0..<length nows] nows"
    by (rule nth_equalityI) (auto simp: nth_Cons reading_value_Suc simp del: upt_Suc split: nat.splits)
  with IH show ?case
    by (simp add: irq_threads_def mysensor_irq_thread_def s32_add_left s32_add_right ac_simps)
qed

lemma irq_threads_readings:
  assumes "readings_ok (sens_rb d)" "rb_list (sens_rb d) = lastn 100 ys" "is_s32 k" "0 \<le> k"
    and "k + int (length nows) < 2 ^ 31" "\<forall>ts \<in> set nows. valid_ts ts"
  shows "case irq_threads B nows (k, d) of (k', d') \<Rightarrow> k' = k + int (length nows) \<and> readings_ok (sens_rb d')
     \<and> rb_list (sens_rb d') = lastn 100 (ys @ map2 (\<lambda>i ts. ((k + int i) mod 100, timestamp_text ts)) [0..<length nows] nows)"
proof -
  have "map2 (\<lambda>i ts. (reading_value k i, timestamp_text ts)) [0..<length nows] nows
      = map2 (\<lambda>i ts. ((k + int i) mod 100, timestamp_text ts)) [0..<length nows] nows"
    using assms(4,5) by (intro nth_equalityI) (auto simp: reading_value_small)
  with irq_threads_run [OF assms(1-3,6), of B] assms(4,5) show ?thesis by (auto split: prod.splits)
qed

text \<open>
  C15: after any number of interrupts on a freshly initialised ring, the readings waiting to be read are the newest 100, in order,
  each with the text of the time its interrupt ran. The value of interrupt \<open>i\<close> is the counter \<open>k + i\<close>, wrapped around
  to an \<open>int\<close>, modulo 100 with its sign: as long as the counter stays below \<open>2^31\<close> the values are consecutive modulo 100, and
  the one that comes after the largest \<open>int\<close> (47) is \<open>-48\<close>, as the witness shows.
\<close>

theorem mysensor_irq_sequence:
  assumes "length (buffer rb0) = 100" "length (timestamps rb0) = 100" "sens_rb d = rb_init rb0"
    and "is_s32 k" "\<forall>ts \<in> set nows. valid_ts ts"
  shows "rb_list (sens_rb (snd (irq_threads B nows (k, d))))
       = lastn 100 (map2 (\<lambda>i ts. (c_mod (s32 (k + int i)) 100, timestamp_text ts)) [0..<length nows] nows)
     \<and> (0 \<le> k \<and> k + int (length nows) < 2 ^ 31 \<longrightarrow> rb_list (sens_rb (snd (irq_threads B nows (k, d))))
       = lastn 100 (map2 (\<lambda>i ts. ((k + int i) mod 100, timestamp_text ts)) [0..<length nows] nows))"
proof -
  have d: "readings_ok (sens_rb d)" "rb_list (sens_rb d) = lastn 100 []" using assms(1-3) by (simp_all add: readings_ok_init rb_list_init)
  show ?thesis
    using irq_threads_run [OF d assms(4,5), of B] irq_threads_readings [OF d assms(4) _ _ assms(5), of B]
    by (auto simp: reading_value_def split: prod.splits)
qed

theorem mysensor_irq_sequence_witness:
  "let d = \<lparr>sbell = fakebell_realize, sbell_irq = 0, sens_rb = rb_init ringbuffer_zero, swakes = 0\<rparr>
   in rb_list (sens_rb (snd (irq_threads fakebell_hw [(1, 2), (3, 4)] (99, d)))) = [(99, timestamp_text (1, 2)), (0, timestamp_text (3, 4))]
    \<and> rb_list (sens_rb (snd (irq_threads fakebell_hw [(1, 2), (3, 4)] (2147483647, d))))
      = [(47, timestamp_text (1, 2)), (- 48, timestamp_text (3, 4))]"
  using mysensor_irq_sequence [of ringbuffer_zero "\<lparr>sbell = fakebell_realize, sbell_irq = 0, sens_rb = rb_init ringbuffer_zero, swakes = 0\<rparr>" 99 "[(1, 2), (3, 4)]" fakebell_hw]
    mysensor_irq_sequence [of ringbuffer_zero "\<lparr>sbell = fakebell_realize, sbell_irq = 0, sens_rb = rb_init ringbuffer_zero, swakes = 0\<rparr>" 2147483647 "[(1, 2), (3, 4)]" fakebell_hw]
  by (simp add: ringbuffer_zero_def valid_ts_def is_s32_def s32_def c_mod_def)

section \<open>Life cycle\<close>

definition sens_probe :: "'h bell_hw \<Rightarrow> 'h mysensordev \<Rightarrow> se_env \<Rightarrow> int \<times> kcall list" where
  "sens_probe B dev e = (case mysensor_probe B e dev of (ret, calls, d) \<Rightarrow> (ret, calls))"

interpretation sens_dev: device_lifecycle "{Class}" "sens_probe B dev0" "\<lambda>e. mysensor_remove"
  "\<lambda>e. {#Cdev 0, Device 0#}"
proof unfold_locales
  fix h :: "resource multiset" and e
  assume h: "{Class} \<subseteq> set_mset h"
  then show "fst (sens_probe B dev0 e) = 0 \<Longrightarrow> run_calls (snd (sens_probe B dev0 e)) h = Some ({#Cdev 0, Device 0#} + h)"
    "fst (sens_probe B dev0 e) \<noteq> 0 \<Longrightarrow> run_calls (snd (sens_probe B dev0 e)) h = Some h"
    by (auto simp: sens_probe_def mysensor_probe_def Let_def IS_ERR_PTR_ERR add_mset_commute split: if_splits)
  from h show "run_calls mysensor_remove ({#Cdev 0, Device 0#} + h) = Some h"
    by (simp add: mysensor_remove_def)
qed

text \<open>
  Unloading the module while a device is bound uses the class after it was destroyed: exit
  destroys the class and gives the numbers back before it unregisters the driver, whose remove
  function still needs the class. Only with no device bound is the session balanced.
\<close>

theorem mysensor_exit_order:
  assumes "m_region i = 0" "fst (mysensor_init i) = 0"
  shows "run_calls (snd (mysensor_init i) @ concat (map (\<lambda>e. snd (sens_probe B d0 e)) es)
      @ mysensor_exit (length (filter (\<lambda>e. fst (sens_probe B d0 e) = 0) es))) {#}
    = (if \<exists>e \<in> set es. fst (sens_probe B d0 e) = 0 then None else Some {#})"
proof -
  let ?bound = "filter (\<lambda>e. fst (sens_probe B d0 e) = 0) es"
  have init: "run_calls (snd (mysensor_init i)) {#} = Some {#Region, Class, Driver#}"
    using assms by (auto simp: mysensor_init_def Let_def IS_ERR_PTR_ERR add_mset_commute split: if_splits)
  have probes: "run_calls (concat (map (\<lambda>e. snd (sens_probe B d0 e)) es)) {#Region, Class, Driver#}
      = Some (sum_list (map (\<lambda>e. {#Cdev 0, Device 0#}) ?bound) + {#Region, Class, Driver#})"
    by (rule sens_dev.probe_all) simp
  have none: "?bound = [] \<longleftrightarrow> \<not> (\<exists>e \<in> set es. fst (sens_probe B d0 e) = 0)"
    by (auto simp: filter_empty_conv)
  have "Class \<notin># sum_list (map (\<lambda>e. {#Cdev 0, Device 0#}) (xs :: se_env list))" for xs
    by (induction xs) auto
  then have "run_calls (mysensor_exit (length ?bound))
      (sum_list (map (\<lambda>e. {#Cdev 0, Device 0#}) ?bound) + {#Region, Class, Driver#})
      = (if ?bound = [] then Some {#} else None)"
    by (cases ?bound) (simp_all add: mysensor_exit_def driver_unregister_def mysensor_remove_def)
  with init probes none show ?thesis by (simp add: run_calls_append)
qed

theorem mysensor_exit_order_witness:
  "run_calls (snd (mysensor_init \<lparr>m_region = 0, m_class = 1, m_register = 0\<rparr>)
      @ snd (sens_probe fakebell_hw \<lparr>sbell = fakebell_realize, sbell_irq = 0, sens_rb = ringbuffer_zero, swakes = 0\<rparr>
          \<lparr>se_alloc = True, se_cdev_add = 0, se_device_create = 1, se_resource = True, se_ioremap = 1, se_get_irq = 4, se_request_irq = 0\<rparr>)
      @ mysensor_exit 1) {#} = None"
  using mysensor_exit_order [of "\<lparr>m_region = 0, m_class = 1, m_register = 0\<rparr>" fakebell_hw
    "\<lparr>sbell = fakebell_realize, sbell_irq = 0, sens_rb = ringbuffer_zero, swakes = 0\<rparr>"
    "[\<lparr>se_alloc = True, se_cdev_add = 0, se_device_create = 1, se_resource = True, se_ioremap = 1, se_get_irq = 4, se_request_irq = 0\<rparr>]"]
  by (simp add: mysensor_init_def sens_probe_def mysensor_probe_def IS_ERR_def)

end
