(* ===== verification/Block_Ring.thy ===== *)
theory Block_Ring
  imports C_Strings
begin

text \<open>
  The byte ring shared between the kernel and user space by mmap in \<open>practice/myblkdev\<close>: the
  producer \<open>myblk_produce_data\<close> of \<open>myblkdev.c\<close> and the consumer \<open>consume_ring\<close> of
  \<open>app/main.c\<close>. The control block is four 32-bit words at their width; the data area is a byte
  array. One slot is kept free, so that equal indices mean an empty ring. A \<open>memcpy\<close> that leaves
  the arrays is the value \<open>None\<close>. The lemmas show each side correct on its own and then any
  interleaving of the two.
\<close>

section \<open>Data and operations\<close>

record myblk_ring_ctrl =
  bc_head :: u32
  bc_tail :: u32
  bc_size :: u32
  bc_overflow :: u32

record blkmem =
  ctrl :: myblk_ring_ctrl
  bdata :: string

definition memcpy_chk :: "string \<Rightarrow> nat \<Rightarrow> string \<Rightarrow> nat \<Rightarrow> string option" where
  "memcpy_chk dst off src n =
    (if off + n \<le> length dst \<and> n \<le> length src then Some (memcpy_at dst off (take n src)) else None)"

definition free_space :: "u32 \<Rightarrow> u32 \<Rightarrow> u32 \<Rightarrow> u32" where
  "free_space head tail sz = (if head \<ge> tail then sz - (head - tail) - 1 else tail - head - 1)"

definition set_head :: "u32 \<Rightarrow> blkmem \<Rightarrow> blkmem" where
  "set_head h m = m\<lparr>ctrl := (ctrl m)\<lparr>bc_head := h\<rparr>\<rparr>"

definition set_tail :: "u32 \<Rightarrow> blkmem \<Rightarrow> blkmem" where
  "set_tail t m = m\<lparr>ctrl := (ctrl m)\<lparr>bc_tail := t\<rparr>\<rparr>"

definition count_overflow :: "blkmem \<Rightarrow> blkmem" where
  "count_overflow m = m\<lparr>ctrl := (ctrl m)\<lparr>bc_overflow := bc_overflow (ctrl m) + 1\<rparr>\<rparr>"

text \<open>The two memcpy cases; \<open>first\<close> is a 32-bit difference.\<close>

definition ring_write :: "u32 \<Rightarrow> u32 \<Rightarrow> string \<Rightarrow> nat \<Rightarrow> string \<Rightarrow> string option" where
  "ring_write head sz src len dat =
    (if unat head + len \<le> unat sz then memcpy_chk dat (unat head) src len
     else let first = unat (sz - head)
          in case memcpy_chk dat (unat head) src first of None \<Rightarrow> None
             | Some d1 \<Rightarrow> if first \<le> len then memcpy_chk d1 0 (drop first src) (len - first) else None)"

text \<open>The result is whether sleepers are woken, and the shared memory.\<close>

definition myblk_produce_data :: "string \<Rightarrow> nat \<Rightarrow> blkmem \<Rightarrow> (bool \<times> blkmem) option" where
  "myblk_produce_data src len m =
    (let sz = bc_size (ctrl m); head = bc_head (ctrl m); tail = bc_tail (ctrl m);
         free = unat (free_space head tail sz);
         m1 = (if len > free then count_overflow m else m);
         len1 = (if len > free then free else len)
     in if len1 > 0 then
          (case ring_write head sz src len1 (bdata m1) of None \<Rightarrow> None
           | Some d \<Rightarrow> if sz = 0 then None
               else Some (True, set_head (of_nat ((unat head + len1) mod unat sz)) (m1\<lparr>bdata := d\<rparr>)))
        else Some (False, m1))"

text \<open>One iteration of \<open>consume_ring\<close> on the indices it read: the bytes written to stdout.\<close>

definition consume_chunk :: "u32 \<Rightarrow> u32 \<Rightarrow> blkmem \<Rightarrow> string \<times> blkmem" where
  "consume_chunk tail head m =
    (if tail < head then (take (unat (head - tail)) (drop (unat tail) (bdata m)), set_tail head m)
     else (take (unat (bc_size (ctrl m) - tail)) (drop (unat tail) (bdata m)), set_tail 0 m))"

text \<open>The loop with nobody else touching the memory.\<close>

function consume_ring :: "blkmem \<Rightarrow> string \<times> blkmem" where
  "consume_ring m =
    (if bc_tail (ctrl m) \<noteq> bc_head (ctrl m) then
       (case consume_chunk (bc_tail (ctrl m)) (bc_head (ctrl m)) m of (out, m1) \<Rightarrow>
          case consume_ring m1 of (out', m2) \<Rightarrow> (out @ out', m2))
     else ([], m))"
  by auto

definition consume_rank :: "blkmem \<Rightarrow> nat" where
  "consume_rank m = (if bc_tail (ctrl m) = bc_head (ctrl m) then 0
     else if bc_tail (ctrl m) < bc_head (ctrl m) then 1 else 2)"

lemma consume_rank_decreases:
  "bc_tail (ctrl m) \<noteq> bc_head (ctrl m) \<Longrightarrow>
   consume_rank (snd (consume_chunk (bc_tail (ctrl m)) (bc_head (ctrl m)) m)) < consume_rank m"
  using word_gt_0 [of "bc_head (ctrl m)"]
  by (auto simp: consume_rank_def consume_chunk_def set_tail_def)

termination consume_ring
  by (relation "measure consume_rank") (simp, metis consume_rank_decreases in_measure snd_conv)

declare consume_ring.simps [simp del]

section \<open>Invariant and abstraction\<close>

definition blk_inv :: "blkmem \<Rightarrow> bool" where
  "blk_inv m \<longleftrightarrow> length (bdata m) = unat (bc_size (ctrl m))
     \<and> bc_head (ctrl m) < bc_size (ctrl m) \<and> bc_tail (ctrl m) < bc_size (ctrl m)"

text \<open>Bytes from index \<open>t\<close> up to index \<open>h\<close> in a ring of \<open>N\<close>.\<close>

definition ring_dist :: "nat \<Rightarrow> nat \<Rightarrow> nat \<Rightarrow> nat" where
  "ring_dist N t h = (if t \<le> h then h - t else h + N - t)"

definition blk_fill :: "blkmem \<Rightarrow> nat" where
  "blk_fill m = ring_dist (unat (bc_size (ctrl m))) (unat (bc_tail (ctrl m))) (unat (bc_head (ctrl m)))"

definition blk_list :: "blkmem \<Rightarrow> string" where
  "blk_list m = ring_list (unat (bc_size (ctrl m))) (bdata m) (unat (bc_tail (ctrl m))) (blk_fill m)"

lemma ring_dist_less: "t < N \<Longrightarrow> h < N \<Longrightarrow> ring_dist N t h < N"
  by (auto simp: ring_dist_def)

lemma ring_dist_head: "t < N \<Longrightarrow> h < N \<Longrightarrow> (t + ring_dist N t h) mod N = h"
  by (auto simp: ring_dist_def)

lemma ring_dist_unique:
  "t < N \<Longrightarrow> n < N \<Longrightarrow> ring_dist N t ((t + n) mod N) = n"
  by (auto simp: ring_dist_def mod_if)

lemma ring_dist_0: "t < N \<Longrightarrow> h < N \<Longrightarrow> ring_dist N t h = 0 \<longleftrightarrow> t = h"
  by (auto simp: ring_dist_def)

lemma blk_inv_nat:
  assumes "blk_inv m"
  obtains N t h where "N = unat (bc_size (ctrl m))" "t = unat (bc_tail (ctrl m))" "h = unat (bc_head (ctrl m))"
    "t < N" "h < N" "length (bdata m) = N" "blk_fill m = ring_dist N t h" "ring_dist N t h < N"
    "blk_list m = ring_list N (bdata m) t (ring_dist N t h)"
  using assms that ring_dist_less
  by (auto simp: blk_inv_def blk_fill_def blk_list_def word_less_nat_alt)

lemma blk_empty: "blk_inv m \<Longrightarrow> blk_list m = [] \<longleftrightarrow> bc_tail (ctrl m) = bc_head (ctrl m)"
  by (erule blk_inv_nat) (metis length_0_conv length_ring_list ring_dist_0 word_unat_eq_iff)

lemma free_space_nat:
  assumes "head < sz" "tail < sz"
  shows "unat (free_space head tail sz) = unat sz - 1 - ring_dist (unat sz) (unat tail) (unat head)"
proof (cases "head \<ge> tail")
  case True
  then have d: "unat (head - tail) = unat head - unat tail" by (simp add: unat_sub word_le_nat_alt)
  have "unat head - unat tail < unat sz" using assms by (simp add: word_less_nat_alt)
  then have "head - tail < sz" by (simp add: word_less_nat_alt d)
  then have "unat (sz - (head - tail)) = unat sz - (unat head - unat tail)" "sz - (head - tail) \<noteq> 0"
    by (auto simp: unat_sub less_imp_le d)
  with True show ?thesis
    by (simp add: free_space_def unat_minus_one ring_dist_def word_le_nat_alt)
next
  case False
  then have "unat (tail - head) = unat tail - unat head" "tail - head \<noteq> 0"
    by (auto simp: unat_sub not_le)
  moreover have "unat head < unat tail" "unat tail < unat sz" using False assms by (simp_all add: word_less_nat_alt word_le_nat_alt)
  ultimately show ?thesis using False
    by (simp add: free_space_def unat_minus_one ring_dist_def word_le_nat_alt)
qed

section \<open>The producer\<close>

lemma ring_list_write:
  assumes "n + length bs \<le> N"
    and new: "\<And>i. i < length bs \<Longrightarrow> arr' ! ((t + n + i) mod N) = bs ! i"
    and old: "\<And>j. j < N \<Longrightarrow> (\<And>i. i < length bs \<Longrightarrow> j \<noteq> (t + n + i) mod N) \<Longrightarrow> arr' ! j = arr ! j"
  shows "ring_list N arr' t (n + length bs) = ring_list N arr t n @ bs"
proof (rule nth_equalityI)
  fix i assume "i < length (ring_list N arr' t (n + length bs))"
  then have i: "i < n + length bs" by simp
  show "ring_list N arr' t (n + length bs) ! i = (ring_list N arr t n @ bs) ! i"
  proof (cases "i < n")
    case True
    have "(t + i) mod N \<noteq> (t + n + k) mod N" if "k < length bs" for k
      using ring_index_inj [of i N "n + k" t] that True assms(1) by (auto simp: add.assoc)
    moreover have "(t + i) mod N < N" using i assms(1) by (intro mod_less_divisor) linarith
    ultimately show ?thesis using True i old by (simp add: nth_append)
  next
    case False
    then obtain k where "i = n + k" "k < length bs" using i by (metis add_less_cancel_left le_Suc_ex not_less)
    then show ?thesis using new by (simp add: nth_append add.assoc)
  qed
qed simp

lemma ring_write_ok:
  assumes "head < sz" "length dat = unat sz" "len < unat sz" "len \<le> length src"
    and n: "n + len \<le> unat sz" and h: "(t + n) mod unat sz = unat head"
  shows "\<exists>d. ring_write head sz src len dat = Some d \<and> length d = unat sz
    \<and> ring_list (unat sz) d t (n + len) = ring_list (unat sz) dat t n @ take len src"
proof -
  define N H where "N = unat sz" and "H = unat head"
  have H: "H < N" using assms(1) by (simp add: N_def H_def word_less_nat_alt)
  have pos: "(t + n + i) mod N = (if H + i < N then H + i else H + i - N)" if "i < len" for i
  proof -
    have "(t + n + i) mod N = (H + i) mod N" using h by (simp add: N_def H_def) (metis mod_add_left_eq)
    then show ?thesis using that H assms(3) by (simp add: N_def mod_if)
  qed
  have bs: "length (take len src) = len" using assms(4) by simp
  have wr: "ring_list N d t (n + len) = ring_list N dat t n @ take len src"
    if "\<And>i. i < len \<Longrightarrow> d ! ((t + n + i) mod N) = src ! i"
      "\<And>j. j < N \<Longrightarrow> (\<And>i. i < len \<Longrightarrow> j \<noteq> (t + n + i) mod N) \<Longrightarrow> d ! j = dat ! j" for d
    using ring_list_write [of n "take len src" N d t dat] that n bs by (simp add: N_def)
  show ?thesis
  proof (cases "H + len \<le> N")
    case True
    let ?d = "memcpy_at dat H (take len src)"
    have "d ! ((t + n + i) mod N) = src ! i" if "i < len" "d = ?d" for i d
      using that True pos [of i] assms(2) bs by (simp add: nth_memcpy_at N_def)
    moreover have "?d ! j = dat ! j" if "j < N" "\<And>i. i < len \<Longrightarrow> j \<noteq> (t + n + i) mod N" for j
    proof -
      have "\<not> (H \<le> j \<and> j < H + len)"
        using that(2) [of "j - H"] pos [of "j - H"] True that(1) by (auto simp: less_diff_conv2)
      then show ?thesis using True assms(2) bs by (auto simp: nth_memcpy_at N_def)
    qed
    ultimately have "ring_list N ?d t (n + len) = ring_list N dat t n @ take len src"
      by (intro wr) auto
    with True assms(2,4) show ?thesis
      by (simp add: ring_write_def memcpy_chk_def N_def [symmetric] H_def [symmetric])
  next
    case False
    define f where "f = N - H"
    have f: "unat (sz - head) = f" using assms(1) by (simp add: f_def N_def H_def unat_sub less_imp_le)
    have fl: "f \<le> len" "H + f = N" "len - f \<le> H" "0 < f"
      using False H assms(3) by (auto simp: f_def N_def)
    let ?d1 = "memcpy_at dat H (take f src)"
    let ?d = "memcpy_at ?d1 0 (take (len - f) (drop f src))"
    have l1: "length ?d1 = N" using fl assms(2,4) by (simp add: N_def)
    have nth: "?d ! j = (if j < len - f then src ! (f + j) else if H \<le> j \<and> j < N then src ! (j - H) else dat ! j)" for j
      using fl assms(2,4) l1 by (auto simp: nth_memcpy_at N_def)
    have "?d ! ((t + n + i) mod N) = src ! i" if "i < len" for i
      using that pos [of i] fl by (auto simp: nth)
    moreover have "?d ! j = dat ! j" if "j < N" "\<And>i. i < len \<Longrightarrow> j \<noteq> (t + n + i) mod N" for j
    proof -
      have "\<not> j < len - f" using that(2) [of "f + j"] pos [of "f + j"] fl by (auto simp: less_diff_conv ac_simps)
      moreover have "\<not> H \<le> j"
      proof
        assume "H \<le> j"
        then have "j - H < len" using fl that(1) by linarith
        then show False using that(2) [of "j - H"] pos [of "j - H"] \<open>H \<le> j\<close> that(1) by auto
      qed
      ultimately show ?thesis by (simp add: nth)
    qed
    ultimately have "ring_list N ?d t (n + len) = ring_list N dat t n @ take len src" by (intro wr) auto
    moreover have "ring_write head sz src len dat = Some ?d"
      using False fl assms(2,4) l1 by (simp add: ring_write_def memcpy_chk_def f Let_def N_def [symmetric] H_def [symmetric])
    moreover have "length ?d = N" using l1 fl assms(4) H by simp
    ultimately show ?thesis by (simp add: N_def)
  qed
qed

text \<open>Accepting \<open>k\<close> bytes: the head moves by \<open>k\<close> and the window grows by them.\<close>

lemma blk_produce_window:
  assumes inv: "blk_inv m" and k: "0 < k" "k \<le> length src" "blk_fill m + k < unat (bc_size (ctrl m))"
    and m1: "bdata m1 = bdata m" "bc_head (ctrl m1) = bc_head (ctrl m)" "bc_tail (ctrl m1) = bc_tail (ctrl m)"
      "bc_size (ctrl m1) = bc_size (ctrl m)"
  shows "\<exists>d. ring_write (bc_head (ctrl m)) (bc_size (ctrl m)) src k (bdata m) = Some d
    \<and> (let m2 = set_head (of_nat ((unat (bc_head (ctrl m)) + k) mod unat (bc_size (ctrl m)))) (m1\<lparr>bdata := d\<rparr>)
       in blk_inv m2 \<and> blk_list m2 = blk_list m @ take k src \<and> blk_fill m2 = blk_fill m + k)"
proof -
  from inv obtain N t h where N: "N = unat (bc_size (ctrl m))" "t = unat (bc_tail (ctrl m))" "h = unat (bc_head (ctrl m))"
    and th: "t < N" "h < N" "length (bdata m) = N" and fill: "blk_fill m = ring_dist N t h"
    and L: "blk_list m = ring_list N (bdata m) t (ring_dist N t h)"
    by (rule blk_inv_nat)
  let ?n = "ring_dist N t h"
  have lt: "bc_head (ctrl m) < bc_size (ctrl m)" "bc_tail (ctrl m) < bc_size (ctrl m)"
    using inv by (simp_all add: blk_inv_def)
  obtain d where d: "ring_write (bc_head (ctrl m)) (bc_size (ctrl m)) src k (bdata m) = Some d"
      "length d = N" "ring_list N d t (?n + k) = ring_list N (bdata m) t ?n @ take k src"
    using ring_write_ok [OF lt(1), of "bdata m" k src ?n t] th k ring_dist_head [of t N h] fill
    unfolding N by auto
  let ?h = "(h + k) mod N"
  have h: "?h < N" using th by simp
  have "N < 2 ^ 32" using unsigned_less [of "bc_size (ctrl m)"] by (simp add: N)
  with h have uh: "unat (of_nat ?h :: u32) = ?h" by (simp add: unat_of_nat)
  have "?h = (t + (?n + k)) mod N"
    using ring_dist_head [of t N h] th by (metis add.assoc mod_add_left_eq)
  then have "ring_dist N t ?h = ?n + k"
    using ring_dist_unique [of t N "?n + k"] th k fill N by simp
  with d h uh th lt L fill m1 show ?thesis
    by (auto simp: N [symmetric] Let_def set_head_def blk_inv_def blk_list_def blk_fill_def word_less_nat_alt)
qed

lemma produce_cases:
  assumes inv: "blk_inv m" and src: "len \<le> length src"
  defines "k \<equiv> min len (unat (bc_size (ctrl m)) - 1 - blk_fill m)"
  shows "\<exists>m'. myblk_produce_data src len m = Some (k > 0, m') \<and> blk_inv m'
     \<and> blk_list m' = blk_list m @ take k src
     \<and> bc_tail (ctrl m') = bc_tail (ctrl m) \<and> bc_size (ctrl m') = bc_size (ctrl m)
     \<and> bc_overflow (ctrl m') = bc_overflow (ctrl m) + (if k < len then 1 else 0)"
proof -
  let ?free = "unat (free_space (bc_head (ctrl m)) (bc_tail (ctrl m)) (bc_size (ctrl m)))"
  have lt: "bc_head (ctrl m) < bc_size (ctrl m)" "bc_tail (ctrl m) < bc_size (ctrl m)"
    using inv by (simp_all add: blk_inv_def)
  then have free: "?free = unat (bc_size (ctrl m)) - 1 - blk_fill m" by (simp add: free_space_nat blk_fill_def)
  have fill: "blk_fill m < unat (bc_size (ctrl m))"
    using inv by (auto elim!: blk_inv_nat)
  have sz: "bc_size (ctrl m) \<noteq> 0" using lt(1) by auto
  define m1 where "m1 = (if len > ?free then count_overflow m else m)"
  have m1: "bdata m1 = bdata m" "bc_head (ctrl m1) = bc_head (ctrl m)" "bc_tail (ctrl m1) = bc_tail (ctrl m)"
      "bc_size (ctrl m1) = bc_size (ctrl m)"
      "bc_overflow (ctrl m1) = bc_overflow (ctrl m) + (if k < len then 1 else 0)"
    by (auto simp: m1_def count_overflow_def k_def free)
  have len1: "(if len > ?free then ?free else len) = k" by (simp add: k_def free)
  show ?thesis
  proof (cases "0 < k")
    case False
    with m1 have "blk_inv m1" "blk_list m1 = blk_list m"
      using inv by (simp_all add: blk_inv_def blk_list_def blk_fill_def)
    with False m1 len1 show ?thesis
      unfolding myblk_produce_data_def Let_def m1_def [symmetric] len1 by auto
  next
    case True
    have "k \<le> length src" "blk_fill m + k < unat (bc_size (ctrl m))" using src fill True by (auto simp: k_def)
    from blk_produce_window [OF inv True this m1(1-4)] obtain d where
      "ring_write (bc_head (ctrl m)) (bc_size (ctrl m)) src k (bdata m) = Some d"
      "let m2 = set_head (of_nat ((unat (bc_head (ctrl m)) + k) mod unat (bc_size (ctrl m)))) (m1\<lparr>bdata := d\<rparr>)
       in blk_inv m2 \<and> blk_list m2 = blk_list m @ take k src \<and> blk_fill m2 = blk_fill m + k" by blast
    with True m1 sz show ?thesis
      unfolding myblk_produce_data_def Let_def m1_def [symmetric] len1 by (auto simp: set_head_def)
  qed
qed

section \<open>The consumer\<close>

text \<open>
  One iteration on a snapshot of the indices: the tail is current, the head is one the producer
  has reached and may have moved on from.
\<close>

definition snap_ok :: "u32 \<Rightarrow> u32 \<Rightarrow> blkmem \<Rightarrow> bool" where
  "snap_ok t h m \<longleftrightarrow> t = bc_tail (ctrl m) \<and> h < bc_size (ctrl m) \<and> h \<noteq> t
     \<and> ring_dist (unat (bc_size (ctrl m))) (unat t) (unat h) \<le> blk_fill m"

lemma consume_chunk_ok:
  assumes inv: "blk_inv m" and snap: "snap_ok ti hi m"
  shows "case consume_chunk ti hi m of (out, m') \<Rightarrow> out \<noteq> [] \<and> blk_inv m' \<and> blk_list m = out @ blk_list m'
     \<and> bc_size (ctrl m') = bc_size (ctrl m) \<and> bc_head (ctrl m') = bc_head (ctrl m)"
proof -
  from inv obtain N t h where N: "N = unat (bc_size (ctrl m))" "t = unat (bc_tail (ctrl m))" "h = unat (bc_head (ctrl m))"
    and th: "t < N" "h < N" "length (bdata m) = N" and fill: "blk_fill m = ring_dist N t h"
    and L: "blk_list m = ring_list N (bdata m) t (ring_dist N t h)"
    by (rule blk_inv_nat)
  have ti: "unat ti = t" and hi: "unat hi < N" "unat hi \<noteq> t"
    and le: "ring_dist N t (unat hi) \<le> ring_dist N t h"
    using snap fill by (auto simp: snap_ok_def N word_less_nat_alt word_unat_eq_iff)
  define k where "k = (if t < unat hi then unat hi - t else N - t)"
  define t' where "t' = (if t < unat hi then unat hi else 0)"
  have k: "0 < k" "k \<le> ring_dist N t h" "t + k \<le> N" "(t + k) mod N = t'" "t' < N"
    using th hi le by (auto simp: k_def t'_def ring_dist_def split: if_splits)
  have chunk: "consume_chunk ti hi m = (take k (drop t (bdata m)), set_tail (of_nat t') m)"
    using ti th by (auto simp: consume_chunk_def k_def t'_def word_less_nat_alt unat_sub word_le_nat_alt N)
  have out: "take k (drop t (bdata m)) = take k (blk_list m)"
    using k th L by (simp add: ring_list_straight)
  have "N < 2 ^ 32" using unsigned_less [of "bc_size (ctrl m)"] by (simp add: N)
  with k(5) have ut: "unat (of_nat t' :: u32) = t'" by (simp add: unat_of_nat)
  have "ring_dist N t' h = ring_dist N t h - k"
    using th hi k le by (auto simp: k_def t'_def ring_dist_def split: if_splits)
  then have "blk_list (set_tail (of_nat t') m) = drop k (blk_list m)"
    using k ut by (simp add: L drop_ring_list blk_list_def blk_fill_def set_tail_def N [symmetric])
  moreover have "blk_inv (set_tail (of_nat t') m)"
    using inv ut k by (simp add: blk_inv_def set_tail_def word_less_nat_alt N)
  moreover have "take k (blk_list m) \<noteq> []" using k L by (simp flip: length_0_conv)
  ultimately show ?thesis by (simp add: chunk out set_tail_def)
qed

lemma snap_ok_current:
  "blk_inv m \<Longrightarrow> bc_tail (ctrl m) \<noteq> bc_head (ctrl m) \<Longrightarrow> snap_ok (bc_tail (ctrl m)) (bc_head (ctrl m)) m"
  by (auto simp: snap_ok_def blk_inv_def blk_fill_def)

lemma consume_ring_drains:
  "blk_inv m \<Longrightarrow> fst (consume_ring m) = blk_list m \<and> blk_inv (snd (consume_ring m))
     \<and> blk_list (snd (consume_ring m)) = []"
proof (induction m rule: consume_ring.induct)
  case (1 m)
  show ?case
  proof (cases "bc_tail (ctrl m) = bc_head (ctrl m)")
    case True
    moreover from this "1.prems" have "blk_list m = []" by (simp add: blk_empty)
    ultimately show ?thesis using "1.prems" by (simp add: consume_ring.simps [of m])
  next
    case False
    obtain out m1 where c: "consume_chunk (bc_tail (ctrl m)) (bc_head (ctrl m)) m = (out, m1)" by fastforce
    with consume_chunk_ok [OF "1.prems" snap_ok_current [OF "1.prems" False]]
    have "blk_inv m1" "blk_list m = out @ blk_list m1" by auto
    with "1.IH" [OF False c [symmetric]] False c show ?thesis
      by (simp add: consume_ring.simps [of m] case_prod_unfold)
  qed
qed

end
