(* ===== verification/Blkdev.thy ===== *)
theory Blkdev
  imports Block_Ring Kernel_Resources
begin

text \<open>
  The driver \<open>practice/myblkdev/myblkdev.c\<close> around the shared byte ring (timer, mmap, poll, probe,
  remove, init, exit; in the test build, which defines \<open>TESTDRIVER\<close>) and the program
  \<open>app/main.c\<close>. The last sections give the guarantees: the byte stream over every interleaving of
  the kernel's timer and the program's loop, the mapping, what a program that writes the control
  block can do, and the life cycle.
\<close>

section \<open>The driver\<close>

definition PAGE_SIZE :: nat where "PAGE_SIZE = 4096"
definition MYBLK_DATA_SIZE :: nat where "MYBLK_DATA_SIZE = 16 * PAGE_SIZE"
definition MYBLK_CTRL_SIZE :: nat where "MYBLK_CTRL_SIZE = PAGE_SIZE"
definition MYBLK_MAP_SIZE :: nat where "MYBLK_MAP_SIZE = MYBLK_CTRL_SIZE + MYBLK_DATA_SIZE"

lemmas blk_sizes = PAGE_SIZE_def MYBLK_DATA_SIZE_def MYBLK_CTRL_SIZE_def MYBLK_MAP_SIZE_def

definition blk_sample :: string where
  "blk_sample = ''hello-from-kernel'' @ [CHR 0x0A]"

definition myblk_timer_fn :: "blkmem \<Rightarrow> (bool \<times> blkmem) option" where
  "myblk_timer_fn m = myblk_produce_data blk_sample (length blk_sample) m"

text \<open>
  The loop of \<open>myblkmmap\<close>: \<open>remap off\<close> is what \<open>remap_pfn_range\<close> returns at \<open>off\<close>; the result is
  \<open>ret\<close> and the pages mapped, as user address and page of the area.
\<close>

function mmap_loop :: "(nat \<Rightarrow> int) \<Rightarrow> nat \<Rightarrow> nat \<Rightarrow> nat \<Rightarrow> int \<times> (nat \<times> nat) list" where
  "mmap_loop remap uaddr vsize off =
    (if off < vsize then
       if remap off \<noteq> 0 then (remap off, [])
       else (case mmap_loop remap uaddr vsize (off + PAGE_SIZE) of (ret, pages) \<Rightarrow>
               (ret, (uaddr + off, off div PAGE_SIZE) # pages))
     else (0, []))"
  by auto
termination
  by (relation "measure (\<lambda>(remap, uaddr, vsize, off). vsize - off)") (auto simp: PAGE_SIZE_def)

declare mmap_loop.simps [simp del]

definition myblkmmap :: "(nat \<Rightarrow> int) \<Rightarrow> nat \<Rightarrow> nat \<Rightarrow> nat \<Rightarrow> int \<times> (nat \<times> nat) list" where
  "myblkmmap remap vm_start vm_end vm_pgoff =
    (let vsize = vm_end - vm_start
     in if vsize > MYBLK_MAP_SIZE \<or> vsize mod PAGE_SIZE \<noteq> 0 then (- EINVAL, [])
        else if vm_pgoff \<noteq> 0 then (- EINVAL, [])
        else mmap_loop remap vm_start vsize 0)"

definition myblkpoll :: "blkmem \<Rightarrow> u32" where
  "myblkpoll m = (if bc_head (ctrl m) \<noteq> bc_tail (ctrl m) then POLLIN OR POLLRDNORM else 0)"

record blk_env =
  be_alloc :: bool
  be_ida :: int
  be_cdev_add :: int
  be_device_create :: int
  be_vzalloc :: bool

text \<open>The area as \<open>vzalloc\<close> and \<open>myblkprobe\<close> leave it.\<close>

definition blk_area :: blkmem where
  "blk_area = \<lparr>ctrl = \<lparr>bc_head = 0, bc_tail = 0, bc_size = of_nat MYBLK_DATA_SIZE, bc_overflow = 0\<rparr>,
     bdata = replicate MYBLK_DATA_SIZE CHR 0x00\<rparr>"

definition myblkprobe :: "blk_env \<Rightarrow> int \<times> kcall list \<times> blkmem option" where
  "myblkprobe e =
    (let m = be_ida e
     in if \<not> be_alloc e then (- ENOMEM, [], None)
        else if m < 0 then (m, [], None)
        else if be_cdev_add e \<noteq> 0 then (be_cdev_add e, [Acq (Minor m), Rel (Minor m)], None)
        else if IS_ERR (be_device_create e) then
          (PTR_ERR (be_device_create e),
           [Acq (Minor m), Acq (Cdev m), Use Class, Rel (Cdev m), Rel (Minor m)], None)
        else if \<not> be_vzalloc e then
          (- ENOMEM, [Acq (Minor m), Acq (Cdev m), Use Class, Acq (Device m),
             Use Class, Rel (Device m), Rel (Cdev m), Rel (Minor m)], None)
        else (0, [Acq (Minor m), Acq (Cdev m), Use Class, Acq (Device m), Acq (Mem ''map_area''),
                  Acq (Timer m)], Some blk_area))"

definition myblkremove :: "int \<Rightarrow> kcall list" where
  "myblkremove m = [Rel (Timer m), Use Class, Rel (Device m), Rel (Cdev m), Rel (Minor m), Rel (Mem ''map_area'')]"

text \<open>\<open>myblkinit\<close>: also whether the test device could be allocated and what adding it returned;
  the last result says whether \<open>testdev\<close> is left non-NULL.\<close>

definition myblkinit :: "mod_env \<Rightarrow> bool \<Rightarrow> int \<Rightarrow> int \<times> kcall list \<times> bool" where
  "myblkinit e alloc add =
    (if m_region e \<noteq> 0 then (m_region e, [], False)
     else if IS_ERR (m_class e) then (PTR_ERR (m_class e), [Acq Region, Rel Region], False)
     else if m_register e \<noteq> 0 then
       (m_register e, [Acq Region, Acq Class, Rel Class, Rel Region], False)
     else let base = [Acq Region, Acq Class, Acq Driver]
          in if \<not> alloc then (0, base, False)
             else if add \<noteq> 0 then (0, base @ [Acq (Pdev ''testdev''), Rel (Pdev ''testdev'')], False)
             else (0, base @ [Acq (Pdev ''testdev'')], True))"

text \<open>
  \<open>myblkexit\<close>: \<open>testdev\<close> says whether the test device exists and, if the driver is bound to it, its
  minor; \<open>others\<close> are the minors of other bound devices.
\<close>

definition myblkexit :: "int option option \<Rightarrow> int list \<Rightarrow> kcall list" where
  "myblkexit testdev others =
    (case testdev of None \<Rightarrow> []
     | Some b \<Rightarrow> (case b of None \<Rightarrow> [] | Some m \<Rightarrow> myblkremove m) @ [Rel (Pdev ''testdev'')])
    @ [Ida_destroy] @ driver_unregister (map myblkremove others) @ [Rel Class, Rel Region]"

section \<open>The program\<close>

datatype blk_line = B_perror string | B_mapped | B_ctrl myblk_ring_ctrl | B_timeout | B_event | B_text string | B_nl | B_error u32

text \<open>A round of \<open>main\<close>'s loop: what \<open>poll\<close> returned and reported, and the shared memory when it
  returned. The result is the lines, the memory and whether the loop is left.\<close>

definition blk_round :: "int \<Rightarrow> u32 \<Rightarrow> blkmem \<Rightarrow> blk_line list \<times> blkmem \<times> bool" where
  "blk_round ret revents m =
    (if ret < 0 then ([B_perror ''poll''], m, True)
     else if ret = 0 then ([B_timeout, B_ctrl (ctrl m)], m, False)
     else case (if revents AND POLLIN \<noteq> 0
                then (case consume_ring m of (out, m') \<Rightarrow>
                        ([B_event, B_ctrl (ctrl m), B_text out, B_nl, B_ctrl (ctrl m')], m'))
                else ([], m)) of
            (out, m') \<Rightarrow> if revents AND 0x38 \<noteq> 0 then (out @ [B_error revents], m', True) else (out, m', False))"

text \<open>The kernel's activity before each \<open>poll\<close> returns is a function on the shared memory.\<close>

fun blk_rounds :: "((blkmem \<Rightarrow> blkmem) \<times> int \<times> u32) list \<Rightarrow> blkmem \<Rightarrow> blk_line list \<times> blkmem \<times> bool" where
  "blk_rounds [] m = ([], m, False)"
| "blk_rounds ((k, ret, revents) # rs) m =
    (case blk_round ret revents (k m) of (out, m', stop) \<Rightarrow>
       if stop then (out, m', True)
       else case blk_rounds rs m' of (out', m'', stop') \<Rightarrow> (out @ out', m'', stop'))"

definition blk_main :: "int \<Rightarrow> bool \<Rightarrow> ((blkmem \<Rightarrow> blkmem) \<times> int \<times> u32) list \<Rightarrow> blkmem \<Rightarrow> blk_line list \<times> int option" where
  "blk_main fd mapped rounds m =
    (if fd < 0 then ([B_perror ''open''], Some 1)
     else if \<not> mapped then ([B_perror ''mmap''], Some 1)
     else case blk_rounds rounds m of (out, m', stop) \<Rightarrow>
       ([B_mapped, B_ctrl (ctrl m)] @ out, if stop then Some 0 else None))"

section \<open>Kernel and program interleaved\<close>

text \<open>
  The program's loop is not atomic: it tests the indices, reads them again, writes the bytes, and
  only then moves the tail. The kernel may produce between any two of these.
\<close>

datatype consumer = Idle | Checked | Snapped u32 u32

record spsc =
  sh :: blkmem
  cons :: consumer
  produced :: string
  consumed :: string

definition accepted :: "nat \<Rightarrow> blkmem \<Rightarrow> nat" where
  "accepted len m = min len (unat (free_space (bc_head (ctrl m)) (bc_tail (ctrl m)) (bc_size (ctrl m))))"

inductive spsc_step :: "spsc \<Rightarrow> spsc \<Rightarrow> bool" where
  produce: "len \<le> length src \<Longrightarrow> myblk_produce_data src len (sh s) = Some (w, m) \<Longrightarrow>
    spsc_step s (s\<lparr>sh := m, produced := produced s @ take (accepted len (sh s)) src\<rparr>)"
| check: "cons s = Idle \<Longrightarrow> bc_tail (ctrl (sh s)) \<noteq> bc_head (ctrl (sh s)) \<Longrightarrow> spsc_step s (s\<lparr>cons := Checked\<rparr>)"
| snap: "cons s = Checked \<Longrightarrow>
    spsc_step s (s\<lparr>cons := Snapped (bc_tail (ctrl (sh s))) (bc_head (ctrl (sh s)))\<rparr>)"
| emit: "cons s = Snapped t h \<Longrightarrow> consume_chunk t h (sh s) = (out, m) \<Longrightarrow>
    spsc_step s (s\<lparr>sh := m, cons := Idle, consumed := consumed s @ out\<rparr>)"

inductive spsc_reach :: "spsc \<Rightarrow> bool" where
  start: "spsc_reach \<lparr>sh = blk_area, cons = Idle, produced = [], consumed = []\<rparr>"
| step: "spsc_reach s \<Longrightarrow> spsc_step s t \<Longrightarrow> spsc_reach t"

definition spsc_inv :: "spsc \<Rightarrow> bool" where
  "spsc_inv s \<longleftrightarrow> blk_inv (sh s) \<and> produced s = consumed s @ blk_list (sh s)
     \<and> (case cons s of Idle \<Rightarrow> True
        | Checked \<Rightarrow> bc_tail (ctrl (sh s)) \<noteq> bc_head (ctrl (sh s))
        | Snapped t h \<Rightarrow> snap_ok t h (sh s))"

lemma blk_area_inv: "blk_inv blk_area" "blk_list blk_area = []"
  by (simp_all add: blk_inv_def blk_area_def blk_list_def blk_fill_def ring_dist_def blk_sizes)

lemma accepted_eq: "blk_inv m \<Longrightarrow> accepted len m = min len (unat (bc_size (ctrl m)) - 1 - blk_fill m)"
  by (simp add: accepted_def blk_inv_def free_space_nat blk_fill_def)

lemma spsc_inv_produce:
  assumes "spsc_inv s" "len \<le> length src" "myblk_produce_data src len (sh s) = Some (w, m)"
  shows "spsc_inv (s\<lparr>sh := m, produced := produced s @ take (accepted len (sh s)) src\<rparr>)"
proof -
  have inv: "blk_inv (sh s)" using assms(1) by (simp add: spsc_inv_def)
  from produce_cases [OF inv assms(2)] assms(3)
  have m: "blk_inv m" "blk_list m = blk_list (sh s) @ take (accepted len (sh s)) src"
    "bc_tail (ctrl m) = bc_tail (ctrl (sh s))" "bc_size (ctrl m) = bc_size (ctrl (sh s))"
    by (auto simp: accepted_eq [OF inv])
  from m(2) have "blk_fill (sh s) \<le> blk_fill m"
    by (metis blk_list_def le_add1 length_append length_ring_list)
  then have "snap_ok t h (sh s) \<Longrightarrow> snap_ok t h m" for t h using m by (auto simp: snap_ok_def)
  moreover have "bc_tail (ctrl (sh s)) \<noteq> bc_head (ctrl (sh s)) \<Longrightarrow> bc_tail (ctrl m) \<noteq> bc_head (ctrl m)"
    using blk_empty [OF inv] blk_empty [OF m(1)] m(2) by auto
  ultimately show ?thesis using assms(1) m by (auto simp: spsc_inv_def split: consumer.splits)
qed

lemma spsc_inv_step: "spsc_step s t \<Longrightarrow> spsc_inv s \<Longrightarrow> spsc_inv t"
proof (induction rule: spsc_step.induct)
  case (produce len src s w m)
  then show ?case by (intro spsc_inv_produce)
next
  case (check s)
  then show ?case by (simp add: spsc_inv_def)
next
  case (snap s)
  then show ?case by (auto simp: spsc_inv_def intro: snap_ok_current)
next
  case (emit s t h out m)
  then show ?case using consume_chunk_ok [of "sh s" t h] by (auto simp: spsc_inv_def)
qed

lemma spsc_inv_start: "spsc_inv \<lparr>sh = blk_area, cons = Idle, produced = [], consumed = []\<rparr>"
  by (simp add: spsc_inv_def blk_area_inv)

lemma spsc_reach_inv: "spsc_reach s \<Longrightarrow> spsc_inv s"
  by (induction rule: spsc_reach.induct) (auto intro: spsc_inv_step spsc_inv_start)

section \<open>Guarantees\<close>

text \<open>
  Over every interleaving of the kernel's producer with the steps of the program's loop, the
  bytes the program wrote followed by those still in the ring are exactly the bytes the producer
  accepted, in order, and the producer never writes outside the data area.
\<close>

theorem spsc_stream:
  assumes "spsc_reach s"
  shows "blk_inv (sh s) \<and> produced s = consumed s @ blk_list (sh s)
     \<and> (\<forall>src len. len \<le> length src \<longrightarrow> myblk_produce_data src len (sh s) \<noteq> None)"
proof -
  from assms have "spsc_inv s" by (rule spsc_reach_inv)
  then have "blk_inv (sh s)" "produced s = consumed s @ blk_list (sh s)" by (simp_all add: spsc_inv_def)
  with produce_cases show ?thesis by blast
qed

theorem spsc_stream_witness:
  "myblk_produce_data ''abc'' 3 blk_area \<noteq> None"
  using spsc_stream [OF spsc_reach.start] by (metis length_Cons list.size(3) numeral_3_eq_3 order_refl spsc.select_convs(1))

text \<open>
  C19: the producer appends the longest prefix of its input that leaves one slot free, counts an
  overflow exactly when something was cut off, and wakes sleepers exactly when it stored
  something; tail and size are untouched.
\<close>

theorem myblk_produce_appends:
  assumes "blk_inv m" "len \<le> length src"
  shows "\<exists>m'. myblk_produce_data src len m = Some (0 < accepted len m, m') \<and> blk_inv m'
     \<and> accepted len m = min len (unat (bc_size (ctrl m)) - 1 - length (blk_list m))
     \<and> blk_list m' = blk_list m @ take (accepted len m) src
     \<and> bc_tail (ctrl m') = bc_tail (ctrl m) \<and> bc_size (ctrl m') = bc_size (ctrl m)
     \<and> bc_overflow (ctrl m') = bc_overflow (ctrl m) + (if accepted len m < len then 1 else 0)"
proof -
  have "length (blk_list m) = blk_fill m" by (simp add: blk_list_def)
  with produce_cases [OF assms] accepted_eq [OF assms(1), of len] show ?thesis by simp
qed

theorem myblk_produce_appends_witness:
  "\<exists>m'. myblk_timer_fn blk_area = Some (True, m') \<and> blk_list m' = blk_sample"
proof -
  have "accepted (length blk_sample) blk_area = length blk_sample"
    by (simp add: accepted_eq [OF blk_area_inv(1)])
      (simp add: blk_area_def blk_fill_def ring_dist_def blk_sizes blk_sample_def)
  moreover have "0 < length blk_sample" by (simp add: blk_sample_def)
  ultimately show ?thesis
    using myblk_produce_appends [OF blk_area_inv(1) order_refl, of blk_sample]
    by (auto simp: myblk_timer_fn_def blk_area_inv)
qed

text \<open>
  C20: the program's loop over a well-formed ring ends, writes all bytes of the ring in order and
  leaves it empty, so that the next \<open>poll\<close> does not report it readable.
\<close>

theorem consume_ring_empties:
  assumes "blk_inv m"
  shows "fst (consume_ring m) = blk_list m \<and> blk_inv (snd (consume_ring m))
     \<and> blk_list (snd (consume_ring m)) = [] \<and> myblkpoll (snd (consume_ring m)) = 0"
  using consume_ring_drains [OF assms] blk_empty [of "snd (consume_ring m)"] by (simp add: myblkpoll_def)

theorem consume_ring_empties_witness:
  "fst (consume_ring \<lparr>ctrl = \<lparr>bc_head = 1, bc_tail = 3, bc_size = 4, bc_overflow = 0\<rparr>, bdata = ''abcd''\<rparr>) = ''da''"
  using consume_ring_empties [of "\<lparr>ctrl = \<lparr>bc_head = 1, bc_tail = 3, bc_size = 4, bc_overflow = 0\<rparr>, bdata = ''abcd''\<rparr>"]
  by (simp add: blk_inv_def blk_list_def blk_fill_def ring_dist_def ring_list_def upt_rec)

text \<open>
  The control block is writable through the mapping, and the producer trusts it: after a
  program stores a head index beyond the ring, the next run of the timer copies outside the data
  area.
\<close>

theorem timer_trusts_mapped_head:
  assumes "bc_size (ctrl m) = 65536" "bc_tail (ctrl m) < 65536"
  shows "myblk_timer_fn (set_head 0x80000000 m) = None"
proof -
  have "bc_tail (ctrl m) \<le> 0x80000000" using assms(2) by (simp add: word_less_nat_alt word_le_nat_alt)
  then have fs: "free_space 0x80000000 (bc_tail (ctrl m)) 65536 = 0x8000FFFF + bc_tail (ctrl m)"
    by (simp add: free_space_def)
  have "unat (0x8000FFFF + bc_tail (ctrl m)) = 0x8000FFFF + unat (bc_tail (ctrl m))"
    using assms(2) by (simp add: unat_add_lem [THEN iffD1] word_less_nat_alt)
  then have "\<not> unat (free_space 0x80000000 (bc_tail (ctrl m)) 65536) < length blk_sample"
    by (simp add: fs blk_sample_def)
  then show ?thesis
    using assms(1) by (simp add: myblk_timer_fn_def myblk_produce_data_def Let_def set_head_def
      ring_write_def memcpy_chk_def blk_sample_def)
qed

theorem timer_trusts_mapped_head_witness: "myblk_timer_fn (set_head 0x80000000 blk_area) = None"
  using timer_trusts_mapped_head [of blk_area] by (simp add: blk_area_def blk_sizes)

lemma mmap_loop_all:
  assumes "\<And>i. off \<le> i \<Longrightarrow> i < vsize \<Longrightarrow> remap i = 0" "off = 4096 * a" "vsize = 4096 * b"
  shows "mmap_loop remap u vsize off = (0, map (\<lambda>i. (u + 4096 * i, i)) [a..<b])"
  using assms
proof (induction remap u vsize off arbitrary: a rule: mmap_loop.induct)
  case (1 remap u vsize off)
  show ?case
  proof (cases "off < vsize")
    case False
    with "1.prems" show ?thesis by (subst mmap_loop.simps) simp
  next
    case True
    with "1.prems" have ab: "a < b" by simp
    have "mmap_loop remap u vsize (off + PAGE_SIZE) = (0, map (\<lambda>i. (u + 4096 * i, i)) [Suc a..<b])"
      using "1.prems" True by (intro "1.IH") (auto simp: PAGE_SIZE_def)
    moreover have "remap off = 0" using "1.prems" True by simp
    ultimately have "mmap_loop remap u vsize off = (0, (u + off, off div 4096) # map (\<lambda>i. (u + 4096 * i, i)) [Suc a..<b])"
      using True by (subst mmap_loop.simps) (simp add: PAGE_SIZE_def)
    with "1.prems"(2) ab show ?thesis by (simp add: upt_conv_Cons)
  qed
qed

lemma mmap_loop_pages:
  "mmap_loop remap u vsize off = (ret, pages) \<Longrightarrow>
   (\<forall>(a, p) \<in> set pages. 4096 * p < vsize) \<and> (ret \<noteq> 0 \<longrightarrow> (\<exists>i < vsize. remap i = ret))"
proof (induction remap u vsize off arbitrary: ret pages rule: mmap_loop.induct)
  case (1 remap u vsize off)
  show ?case
  proof (cases "off < vsize \<and> remap off = 0")
    case False
    with "1.prems" show ?thesis
      by (auto simp: mmap_loop.simps [of remap u vsize off] split: if_splits)
  next
    case True
    obtain ret' pages' where rec: "mmap_loop remap u vsize (off + PAGE_SIZE) = (ret', pages')" by fastforce
    with "1.IH" True have IH: "\<forall>(a, p) \<in> set pages'. 4096 * p < vsize"
      "ret' \<noteq> 0 \<longrightarrow> (\<exists>i < vsize. remap i = ret')" by auto
    have "4096 * (off div 4096) < vsize" using True times_div_less_eq_dividend [of 4096 off] by linarith
    with IH rec True "1.prems" show ?thesis
      by (auto simp: mmap_loop.simps [of remap u vsize off] PAGE_SIZE_def)
  qed
qed

text \<open>
  C21: \<open>myblkmmap\<close> never maps a page outside the 17 pages of the area, refuses with \<open>-EINVAL\<close> a
  length that is too large or not a whole number of pages and any page offset, and otherwise, when
  no single remapping fails, maps page \<open>i\<close> of the area at the \<open>i\<close>-th page of the region.
\<close>

theorem myblkmmap_maps:
  assumes "vm_start \<le> vm_end" "myblkmmap remap vm_start vm_end pgoff = (ret, pages)"
  shows "(\<forall>(a, p) \<in> set pages. p < 17)
    \<and> (vm_end - vm_start > 17 * 4096 \<or> (vm_end - vm_start) mod 4096 \<noteq> 0 \<or> pgoff \<noteq> 0 \<longrightarrow> ret = - EINVAL \<and> pages = [])
    \<and> (vm_end - vm_start \<le> 17 * 4096 \<and> (vm_end - vm_start) mod 4096 = 0 \<and> pgoff = 0
         \<and> (\<forall>i < vm_end - vm_start. remap i = 0) \<longrightarrow>
       ret = 0 \<and> pages = map (\<lambda>i. (vm_start + 4096 * i, i)) [0..<(vm_end - vm_start) div 4096])"
proof -
  let ?v = "vm_end - vm_start"
  have all: "mmap_loop remap vm_start ?v 0 = (0, map (\<lambda>i. (vm_start + 4096 * i, i)) [0..<?v div 4096])"
    if "?v mod 4096 = 0" "\<forall>i < ?v. remap i = 0"
    using that by (intro mmap_loop_all) auto
  have "p < 17" if "(a, p) \<in> set pages" "mmap_loop remap vm_start ?v 0 = (ret, pages)" "?v \<le> 17 * 4096" for a p
    using mmap_loop_pages [OF that(2)] that(1,3) by auto
  with all assms(2) show ?thesis
    by (auto simp: myblkmmap_def Let_def blk_sizes split: if_splits)
qed

theorem myblkmmap_maps_witness:
  "myblkmmap (\<lambda>_. 0) 8192 16384 0 = (0, [(8192, 0), (12288, 1)])"
proof -
  obtain ret pages where run: "myblkmmap (\<lambda>_. 0) 8192 16384 0 = (ret, pages)" by fastforce
  with myblkmmap_maps [OF _ run] show ?thesis by (simp add: upt_rec)
qed

section \<open>Life cycle\<close>

definition blk_probe :: "blk_env \<Rightarrow> int \<times> kcall list" where
  "blk_probe e = (case myblkprobe e of (ret, calls, m) \<Rightarrow> (ret, calls))"

definition blk_owned :: "blk_env \<Rightarrow> resource multiset" where
  "blk_owned e = {#Minor (be_ida e), Cdev (be_ida e), Device (be_ida e), Mem ''map_area'', Timer (be_ida e)#}"

interpretation blk_dev: device_lifecycle "{Class}" blk_probe "\<lambda>e. myblkremove (be_ida e)" blk_owned
proof unfold_locales
  fix h :: "resource multiset" and e
  assume h: "{Class} \<subseteq> set_mset h"
  then show "fst (blk_probe e) = 0 \<Longrightarrow> run_calls (snd (blk_probe e)) h = Some (blk_owned e + h)"
    by (auto simp: blk_probe_def myblkprobe_def blk_owned_def Let_def IS_ERR_PTR_ERR add_mset_commute split: if_splits)
  from h show "fst (blk_probe e) \<noteq> 0 \<Longrightarrow> run_calls (snd (blk_probe e)) h = Some h"
    by (auto simp: blk_probe_def myblkprobe_def Let_def split: if_splits)
  from h show "run_calls (myblkremove (be_ida e)) (blk_owned e + h) = Some h"
    by (simp add: myblkremove_def blk_owned_def)
qed

text \<open>
  Unloading the module is balanced when at most the module's own test device is bound, but
  frees a minor of the already destroyed allocator when any other device still is: \<open>myblkexit\<close>
  destroys the IDA before it unregisters the driver.
\<close>

theorem myblkexit_order:
  assumes init: "myblkinit i True 0 = (0, calls, True)"
    and probe: "fst (blk_probe e) = 0" and others: "\<forall>x \<in> set es. fst (blk_probe x) = 0"
  shows "run_calls (calls @ snd (blk_probe e) @ concat (map (\<lambda>x. snd (blk_probe x)) es)
      @ myblkexit (Some (Some (be_ida e))) (map be_ida es)) {#} = (if es = [] then Some {#} else None)"
proof -
  let ?base = "{#Region, Class, Driver, Pdev ''testdev''#}"
  let ?all = "sum_list (map blk_owned es)"
  have c: "run_calls calls {#} = Some ?base"
    using init by (auto simp: myblkinit_def Let_def IS_ERR_PTR_ERR add_mset_commute split: if_splits)
  have p: "run_calls (snd (blk_probe e)) ?base = Some (blk_owned e + ?base)"
    using probe by (intro blk_dev.probe_ok) auto
  have "filter (\<lambda>x. fst (blk_probe x) = 0) es = es" using others by simp
  then have ps: "run_calls (concat (map (\<lambda>x. snd (blk_probe x)) es)) (blk_owned e + ?base)
      = Some (?all + (blk_owned e + ?base))"
    using blk_dev.probe_all [of "blk_owned e + ?base" es] by simp
  have r: "run_calls (myblkremove (be_ida e)) (blk_owned e + (?all + ?base)) = Some (?all + ?base)"
    using probe by (intro blk_dev.remove_ok) auto
  have "run_calls (myblkexit (Some (Some (be_ida e))) (map be_ida es)) (?all + (blk_owned e + ?base))
      = run_calls ([Rel (Pdev ''testdev''), Ida_destroy] @ driver_unregister (map myblkremove (map be_ida es)) @ [Rel Class, Rel Region])
          (?all + ?base)"
    unfolding add.left_commute [of ?all "blk_owned e"] myblkexit_def
    by (simp only: option.case append_assoc run_calls_append [of "myblkremove _"] r append.simps)
  also have "\<dots> = (if es = [] then Some {#} else None)"
    by (cases es) (simp_all add: driver_unregister_def is_minor_def myblkremove_def run_calls_append
        filter_union_mset blk_owned_def)
  finally show ?thesis by (simp only: run_calls_append c p ps option.case)
qed

theorem myblkexit_order_witness:
  "run_calls (snd (blk_probe \<lparr>be_alloc = True, be_ida = 0, be_cdev_add = 0, be_device_create = 1, be_vzalloc = True\<rparr>)) {#Class#} \<noteq> None
   \<and> run_calls ([Acq Region, Acq Class, Acq Driver, Acq (Pdev ''testdev'')]
       @ snd (blk_probe \<lparr>be_alloc = True, be_ida = 0, be_cdev_add = 0, be_device_create = 1, be_vzalloc = True\<rparr>)
       @ snd (blk_probe \<lparr>be_alloc = True, be_ida = 1, be_cdev_add = 0, be_device_create = 1, be_vzalloc = True\<rparr>)
       @ myblkexit (Some (Some 0)) [1]) {#} = None"
proof -
  have init: "myblkinit \<lparr>m_region = 0, m_class = 1, m_register = 0\<rparr> True 0
      = (0, [Acq Region, Acq Class, Acq Driver, Acq (Pdev ''testdev'')], True)"
    by (simp add: myblkinit_def IS_ERR_def)
  have ok: "fst (blk_probe \<lparr>be_alloc = True, be_ida = i, be_cdev_add = 0, be_device_create = 1, be_vzalloc = True\<rparr>) = 0"
    if "0 \<le> i" for i
    using that by (simp add: blk_probe_def myblkprobe_def IS_ERR_def)
  have "run_calls (snd (blk_probe \<lparr>be_alloc = True, be_ida = 0, be_cdev_add = 0, be_device_create = 1, be_vzalloc = True\<rparr>)) {#Class#} \<noteq> None"
    using blk_dev.probe_ok [of "{#Class#}"] ok [of 0] by simp
  then show ?thesis
    using myblkexit_order [OF init ok [of 0], of "[\<lparr>be_alloc = True, be_ida = 1, be_cdev_add = 0, be_device_create = 1, be_vzalloc = True\<rparr>]"]
      ok [of 1] by simp
qed

end
