(* ===== verification/Refdev.thy ===== *)
theory Refdev
  imports C_Strings Kernel_Resources
begin

text \<open>
  The reference-counted configuration device \<open>practice/mydevice/mydevice.c\<close>. Opening for writing
  is exclusive (one configurer at a time), every open file holds a reference, and the device must
  not go away before the last one is dropped. An open and a release are two critical sections
  each, so the system below interleaves the sections of any number of files. The reader of
  \<open>sscanf\<close> is a parameter; what the driver needs of it is a hypothesis of the round trip.
\<close>

section \<open>Data and critical sections\<close>

record mydevice =
  md_reference :: int
  md_config :: int
  md_config_opened :: bool
  md_wakes :: nat

record mycontext =
  mc_is_config :: bool
  mc_privinfo :: int

definition addref :: "mydevice \<Rightarrow> mydevice" where
  "addref d = d\<lparr>md_reference := s32 (md_reference d + 1)\<rparr>"

definition relref :: "mydevice \<Rightarrow> int \<times> mydevice" where
  "relref d = (if md_reference d = 0 then (0, d)
     else let ref = s32 (md_reference d - 1) in (ref, d\<lparr>md_reference := ref\<rparr>))"

definition getref :: "mydevice \<Rightarrow> int" where
  "getref d = md_reference d"

text \<open>The section of \<open>mydevopen\<close> under \<open>configlock\<close>, entered for \<open>FMODE_WRITE\<close> only:
  \<open>config_is_open\<close>, the context and the device.\<close>

definition open_section :: "bool \<Rightarrow> mydevice \<Rightarrow> bool \<times> mycontext \<times> mydevice" where
  "open_section fmode_write d =
    (let ctx = \<lparr>mc_is_config = False, mc_privinfo = 0\<rparr>
     in if fmode_write then
          (if md_config_opened d then (True, ctx, d)
           else (False, ctx\<lparr>mc_is_config := True\<rparr>, d\<lparr>md_config_opened := True\<rparr>))
        else (False, ctx, d))"

definition mydevopen :: "bool \<Rightarrow> bool \<Rightarrow> mydevice \<Rightarrow> int \<times> mycontext option \<times> mydevice" where
  "mydevopen alloc fmode_write d =
    (if \<not> alloc then (- ENOMEM, None, d)
     else case open_section fmode_write d of (config_is_open, ctx, d1) \<Rightarrow>
       if config_is_open then (- EBUSY, None, d1) else (0, Some ctx, addref d1))"

definition release_section :: "mycontext \<Rightarrow> mydevice \<Rightarrow> mydevice" where
  "release_section ctx d = (if mc_is_config ctx then d\<lparr>md_config_opened := False\<rparr> else d)"

definition drop_section :: "mydevice \<Rightarrow> mydevice" where
  "drop_section d = (case relref d of (ref, d1) \<Rightarrow>
     if ref = 0 then d1\<lparr>md_wakes := Suc (md_wakes d1)\<rparr> else d1)"

definition mydevrelease :: "mycontext \<Rightarrow> mydevice \<Rightarrow> int \<times> mydevice" where
  "mydevrelease ctx d = (0, drop_section (release_section ctx d))"

section \<open>Read and write\<close>

definition config_text :: "int \<Rightarrow> int \<Rightarrow> string" where
  "config_text config privinfo = ''config='' @ print_d config @ '', privinfo='' @ print_d privinfo @ [CHR 0x0A]"

text \<open>Result: return value, user buffer, file offset; \<open>None\<close> is a copy past the end of \<open>buf\<close>.\<close>

definition mydevread :: "nat \<Rightarrow> mycontext \<Rightarrow> mydevice \<Rightarrow> nat \<Rightarrow> nat \<Rightarrow> string \<Rightarrow> (int \<times> string \<times> nat) option" where
  "mydevread left ctx d off cnt usrbuf =
    (if off \<noteq> 0 then Some (0, usrbuf, off)
     else if cnt < 64 then Some (- EINVAL, usrbuf, off)
     else let text = config_text (md_config d) (mc_privinfo ctx); len = length text
          in if len \<ge> 64 then None
             else if left \<noteq> 0 then Some (- EINVAL, memcpy_at usrbuf 0 (take (len - left) text), off)
             else Some (int len, memcpy_at usrbuf 0 text, off + len))"

text \<open>
  \<open>scan\<close> is \<open>sscanf(kbuf, ''configinfo=%d'', ..)\<close>, of which \<open>left\<close> bytes of the \<open>cnt\<close> bytes at
  \<open>usrbuf\<close> were not copied (and stay zero). Printing and scanning \<open>kbuf\<close> as a string needs its
  terminator: \<open>None\<close> is a read past the end of the array.
\<close>

definition mydevwrite ::
  "(string \<Rightarrow> int option) \<Rightarrow> nat \<Rightarrow> mycontext \<Rightarrow> nat \<Rightarrow> nat \<Rightarrow> string \<Rightarrow> mydevice \<Rightarrow> (int \<times> nat \<times> mydevice) option" where
  "mydevwrite scan left ctx off cnt usrbuf d =
    (if off \<noteq> 0 then Some (0, off, d)
     else if \<not> mc_is_config ctx then Some (- EPERM, off, d)
     else if cnt > 64 then Some (- EINVAL, off, d)
     else let kbuf = memcpy_at (replicate 64 CHR 0x00) 0 (take (cnt - left) usrbuf)
          in if \<not> terminated kbuf then None
             else (case scan (cstr kbuf) of None \<Rightarrow> Some (- EINVAL, off, d)
                   | Some configinfo \<Rightarrow> Some (int cnt, off + cnt, d\<lparr>md_config := configinfo\<rparr>)))"

section \<open>Probe, remove, init, exit\<close>

record rd_env =
  rd_alloc :: bool
  rd_ida :: int
  rd_cdev_add :: int
  rd_device_create :: int

definition mydevprobe :: "rd_env \<Rightarrow> int \<times> kcall list" where
  "mydevprobe e =
    (let m = rd_ida e;
         cdev_add_error = [Rel (Minor m)];
         devcreate_error = Rel (Cdev m) # cdev_add_error
     in if \<not> rd_alloc e then (- ENOMEM, [])
        else if m < 0 then (m, [])
        else if rd_cdev_add e \<noteq> 0 then (rd_cdev_add e, [Acq (Minor m)] @ cdev_add_error)
        else if IS_ERR (rd_device_create e) then
          (PTR_ERR (rd_device_create e), [Acq (Minor m), Acq (Cdev m), Use Class] @ devcreate_error)
        else (0, [Acq (Minor m), Acq (Cdev m), Use Class, Acq (Device m)]))"

text \<open>The calls of \<open>mydevremove\<close> after its wait, whose result it ignores.\<close>

definition mydevremove :: "int \<Rightarrow> kcall list" where
  "mydevremove m = [Use Class, Rel (Device m), Rel (Cdev m), Rel (Minor m)]"

text \<open>A test device: \<open>p\<close> is what \<open>platform_device_alloc\<close> returned (0 is NULL), \<open>add\<close> what
  \<open>platform_device_add\<close> returned. \<open>platform_device_put\<close> ignores NULL and error pointers.\<close>

definition test_device :: "string \<Rightarrow> int \<Rightarrow> int \<Rightarrow> kcall list \<times> bool" where
  "test_device name p add =
    (let valid = (p \<noteq> 0 \<and> \<not> IS_ERR p);
         got = (if valid then [Acq (Pdev name)] else []);
         put = (if valid then [Rel (Pdev name)] else [])
     in if IS_ERR p then (got @ put, False)
        else if add \<noteq> 0 then (got @ put, False)
        else (got, True))"

definition mydevinit :: "mod_env \<Rightarrow> int \<Rightarrow> int \<Rightarrow> int \<Rightarrow> int \<Rightarrow> int \<times> kcall list \<times> bool \<times> bool" where
  "mydevinit e p1 add1 p2 add2 =
    (let class_error = [Rel Region]; drvreg_error = Rel Class # class_error
     in if m_region e \<noteq> 0 then (m_region e, [], False, False)
        else if IS_ERR (m_class e) then (PTR_ERR (m_class e), Acq Region # class_error, False, False)
        else if m_register e \<noteq> 0 then (m_register e, [Acq Region, Acq Class] @ drvreg_error, False, False)
        else case test_device ''testdev'' p1 add1 of (c1, t1) \<Rightarrow>
             case test_device ''testdev2'' p2 add2 of (c2, t2) \<Rightarrow>
               (0, [Acq Region, Acq Class, Acq Driver] @ c1 @ c2, t1, t2))"

text \<open>Unregistering a test device removes it first if the driver is bound to it.\<close>

definition unregister_test :: "string \<Rightarrow> int option option \<Rightarrow> kcall list" where
  "unregister_test name t = (case t of None \<Rightarrow> []
     | Some b \<Rightarrow> (case b of None \<Rightarrow> [] | Some m \<Rightarrow> mydevremove m) @ [Rel (Pdev name)])"

definition mydevexit :: "int option option \<Rightarrow> int option option \<Rightarrow> int list \<Rightarrow> kcall list" where
  "mydevexit t1 t2 others = unregister_test ''testdev'' t1 @ unregister_test ''testdev2'' t2
     @ driver_unregister (map mydevremove others) @ [Rel Class, Rel Region, Ida_destroy]"

section \<open>Any number of files\<close>

datatype phase = Opening | Open | Closing

record refsys =
  rdev :: mydevice
  rfiles :: "(nat \<times> phase \<times> mycontext) list"

definition holds_ref :: "nat \<times> phase \<times> mycontext \<Rightarrow> bool" where
  "holds_ref f \<longleftrightarrow> fst (snd f) \<noteq> Opening"

definition is_configurer :: "nat \<times> phase \<times> mycontext \<Rightarrow> bool" where
  "is_configurer f \<longleftrightarrow> mc_is_config (snd (snd f)) \<and> fst (snd f) \<noteq> Closing"

text \<open>
  A file is opened in two sections, used, and released in two sections. Fewer than \<open>2^31 - 1\<close>
  files are open at a time.
\<close>

inductive ref_step :: "refsys \<Rightarrow> refsys \<Rightarrow> bool" where
  open_config: "open_section w (rdev s) = (False, ctx, d) \<Longrightarrow> f \<notin> fst ` set (rfiles s) \<Longrightarrow>
    length (rfiles s) < 2 ^ 31 - 1 \<Longrightarrow>
    ref_step s (s\<lparr>rdev := d, rfiles := (f, Opening, ctx) # rfiles s\<rparr>)"
| open_refused: "open_section w (rdev s) = (True, ctx, d) \<Longrightarrow> ref_step s (s\<lparr>rdev := d\<rparr>)"
| open_ref: "rfiles s = xs @ (f, Opening, ctx) # ys \<Longrightarrow>
    ref_step s (s\<lparr>rdev := addref (rdev s), rfiles := xs @ (f, Open, ctx) # ys\<rparr>)"
| config_write: "rfiles s = xs @ (f, Open, ctx) # ys \<Longrightarrow>
    mydevwrite scan left ctx off cnt u (rdev s) = Some (ret, off', d) \<Longrightarrow> ref_step s (s\<lparr>rdev := d\<rparr>)"
| release_config: "rfiles s = xs @ (f, Open, ctx) # ys \<Longrightarrow>
    ref_step s (s\<lparr>rdev := release_section ctx (rdev s), rfiles := xs @ (f, Closing, ctx) # ys\<rparr>)"
| release_ref: "rfiles s = xs @ (f, Closing, ctx) # ys \<Longrightarrow>
    ref_step s (s\<lparr>rdev := drop_section (rdev s), rfiles := xs @ ys\<rparr>)"

inductive ref_reach :: "refsys \<Rightarrow> bool" where
  start: "ref_reach \<lparr>rdev = \<lparr>md_reference = 0, md_config = 0, md_config_opened = False, md_wakes = 0\<rparr>, rfiles = []\<rparr>"
| step: "ref_reach s \<Longrightarrow> ref_step s t \<Longrightarrow> ref_reach t"

definition ref_inv :: "refsys \<Rightarrow> bool" where
  "ref_inv s \<longleftrightarrow> md_reference (rdev s) = int (length (filter holds_ref (rfiles s)))
     \<and> length (rfiles s) < 2 ^ 31
     \<and> length (filter is_configurer (rfiles s)) = (if md_config_opened (rdev s) then 1 else 0)"

lemmas ref_simps = holds_ref_def is_configurer_def addref_def drop_section_def relref_def
  release_section_def Let_def

lemma filter_holds_le: "length (filter holds_ref fs) \<le> length fs"
  by simp

lemma ref_inv_step: "ref_step s t \<Longrightarrow> ref_inv s \<Longrightarrow> ref_inv t"
proof (induction rule: ref_step.induct)
  case (open_config w s ctx d f)
  then show ?case
    by (auto simp: ref_inv_def open_section_def ref_simps split: if_splits)
next
  case (open_refused w s ctx d)
  then show ?case by (auto simp: ref_inv_def open_section_def Let_def split: if_splits)
next
  case (open_ref s xs f ctx ys)
  have "length (filter holds_ref xs) + length (filter holds_ref ys) < 2147483647"
    using open_ref filter_holds_le [of xs] filter_holds_le [of ys] by (simp add: ref_inv_def del: length_filter_le)
  then have "s32 (int (length (filter holds_ref xs)) + int (length (filter holds_ref ys)) + 1)
      = int (length (filter holds_ref xs)) + int (length (filter holds_ref ys)) + 1"
    by (intro s32_id) linarith+
  with open_ref show ?case by (auto simp: ref_inv_def ref_simps split: if_splits)
next
  case (config_write s xs f ctx ys scan left off cnt u ret off' d)
  then have "md_reference d = md_reference (rdev s)" "md_config_opened d = md_config_opened (rdev s)"
    by (auto simp: mydevwrite_def Let_def split: if_splits option.splits)
  with config_write show ?case by (simp add: ref_inv_def)
next
  case (release_config s xs f ctx ys)
  then show ?case by (auto simp: ref_inv_def ref_simps split: if_splits)
next
  case (release_ref s xs f ctx ys)
  have "length (filter holds_ref xs) + length (filter holds_ref ys) < 2 ^ 31"
    using release_ref filter_holds_le [of xs] filter_holds_le [of ys] by (simp add: ref_inv_def del: length_filter_le)
  with release_ref show ?case by (auto simp: ref_inv_def ref_simps split: if_splits)
qed

lemma ref_reach_inv: "ref_reach s \<Longrightarrow> ref_inv s"
proof (induction rule: ref_reach.induct)
  case start
  then show ?case by (simp add: ref_inv_def)
next
  case (step s t)
  show ?case using step.hyps(2) step.IH by (rule ref_inv_step)
qed

section \<open>Guarantees\<close>

text \<open>
  C22: in every state that any interleaving of opens, writes and releases reaches, the reference
  count is the number of files past the end of their open, at most one file may configure, and
  the exclusive flag is set exactly while there is one; so an open for writing is refused with
  \<open>-EBUSY\<close>, without any change, exactly while another file may configure.
\<close>

theorem refdev_exclusive:
  assumes "ref_reach s"
  shows "getref (rdev s) = int (length (filter holds_ref (rfiles s)))
    \<and> length (filter is_configurer (rfiles s)) \<le> 1
    \<and> (case mydevopen True True (rdev s) of (ret, ctx, d) \<Rightarrow>
         if filter is_configurer (rfiles s) = []
         then ret = 0 \<and> ctx = Some \<lparr>mc_is_config = True, mc_privinfo = 0\<rparr> \<and> md_config_opened d
         else ret = - EBUSY \<and> ctx = None \<and> d = rdev s)"
proof -
  from assms have inv: "ref_inv s" by (rule ref_reach_inv)
  then have "filter is_configurer (rfiles s) = [] \<longleftrightarrow> \<not> md_config_opened (rdev s)"
    by (auto simp: ref_inv_def split: if_splits simp flip: length_0_conv)
  with inv show ?thesis
    by (simp add: ref_inv_def getref_def mydevopen_def open_section_def addref_def)
qed

theorem refdev_exclusive_witness:
  "fst (mydevopen True True (snd (snd (mydevopen True True
      \<lparr>md_reference = 0, md_config = 0, md_config_opened = False, md_wakes = 0\<rparr>)))) = - EBUSY"
proof -
  let ?d0 = "\<lparr>md_reference = 0, md_config = 0, md_config_opened = False, md_wakes = 0\<rparr>"
  let ?c = "\<lparr>mc_is_config = True, mc_privinfo = 0\<rparr>"
  let ?s1 = "\<lparr>rdev = ?d0\<lparr>md_config_opened := True\<rparr>, rfiles = [(7, Opening, ?c)]\<rparr>"
  let ?s2 = "\<lparr>rdev = addref (?d0\<lparr>md_config_opened := True\<rparr>), rfiles = [(7, Open, ?c)]\<rparr>"
  have "ref_reach ?s1"
    using ref_reach.step [OF ref_reach.start ref_step.open_config [of True _ ?c "?d0\<lparr>md_config_opened := True\<rparr>" 7]]
    by (simp add: open_section_def)
  from ref_reach.step [OF this ref_step.open_ref [of _ "[]" 7 ?c "[]"]]
  have "ref_reach ?s2" by simp
  from refdev_exclusive [OF this] show ?thesis
    by (simp add: is_configurer_def mydevopen_def open_section_def addref_def)
qed

lemma length_config_text: "is_s32 c \<Longrightarrow> is_s32 p \<Longrightarrow> length (config_text c p) \<le> 41"
  using length_print_d [of c] length_print_d [of p] by (simp add: config_text_def)

text \<open>
  A configurer that writes \<open>configinfo=<v>\<close> (with a newline or nothing after it, shorter than 64
  bytes) sets the configuration, and any file opened on the device then reads back
  \<open>config=<v>, privinfo=<p>\<close>: at most 41 bytes, never truncated, never past a buffer of the minimum
  size of 64.
\<close>

theorem refdev_config_roundtrip:
  assumes scan: "\<And>x rest. is_s32 x \<Longrightarrow> rest \<in> {[], [CHR 0x0A]} \<Longrightarrow>
        scan (''configinfo='' @ print_d x @ rest) = Some x"
    and v: "is_s32 v" "is_s32 (mc_privinfo ctx')" and ctx: "mc_is_config ctx"
    and msg: "msg = ''configinfo='' @ print_d v @ nl" "nl \<in> {[], [CHR 0x0A]}"
  shows "\<exists>d'. mydevwrite scan 0 ctx 0 (length msg) msg d = Some (int (length msg), length msg, d')
      \<and> mydevread 0 ctx' d' 0 64 ubuf
        = Some (int (length (config_text v (mc_privinfo ctx'))), memcpy_at ubuf 0 (config_text v (mc_privinfo ctx')),
            length (config_text v (mc_privinfo ctx')))
      \<and> length (config_text v (mc_privinfo ctx')) \<le> 41"
proof -
  have len: "length msg \<le> 23" using length_print_d [OF v(1)] msg by auto
  then have "replicate (64 - length msg) (CHR 0x00) = CHR 0x00 # replicate (63 - length msg) (CHR 0x00)"
    by (simp flip: replicate_Suc add: Suc_diff_le)
  then have kbuf: "memcpy_at (replicate 64 CHR 0x00) 0 (take (length msg - 0) msg)
      = msg @ CHR 0x00 # replicate (63 - length msg) CHR 0x00"
    by (simp add: memcpy_at_def)
  have "CHR 0x00 \<notin> set msg" using msg print_d_no_nul [of v] by auto
  then have "cstr (msg @ CHR 0x00 # replicate (63 - length msg) CHR 0x00) = msg" by simp
  moreover have "scan msg = Some v" using scan v(1) msg by auto
  ultimately have "mydevwrite scan 0 ctx 0 (length msg) msg d = Some (int (length msg), length msg, d\<lparr>md_config := v\<rparr>)"
    using len ctx unfolding mydevwrite_def kbuf by (simp add: terminated_def)
  then show ?thesis
    using length_config_text [OF v] by (auto simp: mydevread_def Let_def)
qed

theorem refdev_config_roundtrip_witness:
  "\<exists>d'. mydevwrite (sscanf_d ''configinfo='') 0 \<lparr>mc_is_config = True, mc_privinfo = 0\<rparr> 0 14 ''configinfo=-42''
        \<lparr>md_reference = 1, md_config = 0, md_config_opened = True, md_wakes = 0\<rparr> = Some (14, 14, d')
      \<and> mydevread 0 \<lparr>mc_is_config = False, mc_privinfo = 0\<rparr> d' 0 64 []
        = Some (23, ''config=-42, privinfo=0'' @ [CHR 0x0A], 23)"
proof -
  have scan: "sscanf_d ''configinfo='' (''configinfo='' @ print_d x @ rest) = Some x"
    if "is_s32 x" "rest \<in> {[], [CHR 0x0A]}" for x rest
    using that by (intro sscanf_d_print_d) (auto simp: digit_val_def)
  have msg: "''configinfo=-42'' = ''configinfo='' @ print_d (- 42) @ []"
    "config_text (- 42) 0 = ''config=-42, privinfo=0'' @ [CHR 0x0A]" by code_simp+
  have len: "length ''configinfo=-42'' = 14" "length (''config=-42, privinfo=0'' @ [CHR 0x0A]) = 23" by simp_all
  note rt = refdev_config_roundtrip [of "sscanf_d ''configinfo=''" "- 42" "\<lparr>mc_is_config = False, mc_privinfo = 0\<rparr>"
      "\<lparr>mc_is_config = True, mc_privinfo = 0\<rparr>" "''configinfo=-42''" "[]"
      "\<lparr>md_reference = 1, md_config = 0, md_config_opened = True, md_wakes = 0\<rparr>" "[]", OF scan _ _ _ msg(1)]
  have "is_s32 (- 42)" "is_s32 (mc_privinfo \<lparr>mc_is_config = False, mc_privinfo = 0\<rparr>)" by (simp_all add: is_s32_def)
  from rt [OF _ _ this] show ?thesis
    unfolding mycontext.select_convs msg(2) len by (auto simp: memcpy_at_def)
qed

text \<open>
  The write's bound is one too large. A configurer that writes 64 bytes without a NUL passes the
  length check and fills \<open>kbuf\<close> completely, so that printing and scanning it read past its end;
  with any shorter input they do not.
\<close>

theorem refdev_write_overread:
  assumes "mc_is_config ctx" "length u = cnt" "cnt \<le> 64" "CHR 0x00 \<notin> set u"
  shows "mydevwrite scan 0 ctx 0 cnt u d = None \<longleftrightarrow> cnt = 64"
proof (cases "cnt = 64")
  case True
  with assms show ?thesis by (simp add: mydevwrite_def memcpy_at_def terminated_def)
next
  case False
  with assms have "terminated (memcpy_at (replicate 64 CHR 0x00) 0 u)" by (simp add: memcpy_at_def terminated_def)
  with assms False show ?thesis by (auto simp: mydevwrite_def Let_def split: option.splits)
qed

theorem refdev_write_overread_witness:
  "mydevwrite (sscanf_d ''configinfo='') 0 \<lparr>mc_is_config = True, mc_privinfo = 0\<rparr> 0 64 (replicate 64 CHR ''0'')
     \<lparr>md_reference = 1, md_config = 0, md_config_opened = True, md_wakes = 0\<rparr> = None"
  using refdev_write_overread [of "\<lparr>mc_is_config = True, mc_privinfo = 0\<rparr>" "replicate 64 CHR ''0''" 64 "sscanf_d ''configinfo=''"]
  by simp

section \<open>Life cycle\<close>

definition rd_owned :: "rd_env \<Rightarrow> resource multiset" where
  "rd_owned e = {#Minor (rd_ida e), Cdev (rd_ida e), Device (rd_ida e)#}"

interpretation rd_dev: device_lifecycle "{Class}" mydevprobe "\<lambda>e. mydevremove (rd_ida e)" rd_owned
proof unfold_locales
  fix h :: "resource multiset" and e
  assume h: "{Class} \<subseteq> set_mset h"
  then show "fst (mydevprobe e) = 0 \<Longrightarrow> run_calls (snd (mydevprobe e)) h = Some (rd_owned e + h)"
    by (auto simp: mydevprobe_def rd_owned_def Let_def IS_ERR_PTR_ERR add_mset_commute split: if_splits)
  from h show "fst (mydevprobe e) \<noteq> 0 \<Longrightarrow> run_calls (snd (mydevprobe e)) h = Some h"
    by (auto simp: mydevprobe_def Let_def split: if_splits)
  from h show "run_calls (mydevremove (rd_ida e)) (rd_owned e + h) = Some h"
    by (simp add: mydevremove_def rd_owned_def)
qed

text \<open>
  The exit destroys the IDA last, when no minor is in use any more: a whole session is balanced
  in a system where nothing else holds a minor of this driver.
\<close>

lemma refdev_session:
  assumes init: "mydevinit i p1 add1 p2 add2 = (0, calls, t1, t2)" and valid: "p1 > 0" "p2 > 0"
    and ok1: "case e1 of Some e \<Rightarrow> t1 \<and> fst (mydevprobe e) = 0 | None \<Rightarrow> True"
    and ok2: "case e2 of Some e \<Rightarrow> t2 \<and> fst (mydevprobe e) = 0 | None \<Rightarrow> True"
    and others: "\<forall>e \<in> set es. fst (mydevprobe e) = 0"
  shows "run_calls (calls @ (case e1 of None \<Rightarrow> [] | Some e \<Rightarrow> snd (mydevprobe e))
      @ (case e2 of None \<Rightarrow> [] | Some e \<Rightarrow> snd (mydevprobe e)) @ concat (map (\<lambda>e. snd (mydevprobe e)) es)
      @ mydevexit (if t1 then Some (map_option rd_ida e1) else None) (if t2 then Some (map_option rd_ida e2) else None)
          (map rd_ida es)) {#} = Some {#}"
proof -
  define T where "T = (if t1 then {#Pdev ''testdev''#} else {#}) + (if t2 then {#Pdev ''testdev2''#} else {#})"
  define base where "base = {#Region, Class, Driver#} + T"
  let ?own = "\<lambda>x. case x of None \<Rightarrow> {#} | Some e \<Rightarrow> rd_owned e"
  let ?all = "sum_list (map rd_owned es)"
  have cls: "{Class} \<subseteq> set_mset (X + base)" for X by (simp add: base_def)
  have c: "run_calls calls {#} = Some base"
    using init valid by (auto simp: mydevinit_def test_device_def Let_def base_def T_def IS_ERR_def PTR_ERR_def
        add_mset_commute split: if_splits)
  have p: "run_calls (case x of None \<Rightarrow> [] | Some e \<Rightarrow> snd (mydevprobe e)) (X + base) = Some (?own x + (X + base))"
    if "case x of Some e \<Rightarrow> t \<and> fst (mydevprobe e) = 0 | None \<Rightarrow> True" for x t X
    using that cls rd_dev.probe_ok by (cases x) auto
  have p0: "run_calls (case e1 of None \<Rightarrow> [] | Some e \<Rightarrow> snd (mydevprobe e)) base = Some (?own e1 + base)"
    using p [OF ok1, of "{#}"] by simp
  have "filter (\<lambda>x. fst (mydevprobe x) = 0) es = es" using others by simp
  then have ps: "run_calls (concat (map (\<lambda>e. snd (mydevprobe e)) es)) (?own e2 + (?own e1 + base))
      = Some (?all + (?own e2 + (?own e1 + base)))"
    using rd_dev.probe_all [of "?own e2 + (?own e1 + base)" es] by (simp add: base_def)
  have rem: "run_calls (mydevremove (rd_ida e)) (rd_owned e + (X + base)) = Some (X + base)" if "fst (mydevprobe e) = 0" for e X
    using that cls by (intro rd_dev.remove_ok)
  have t: "run_calls (unregister_test n (if b then Some (map_option rd_ida x) else None))
      (?own x + (X + (if b then {#Pdev n#} else {#}) + {#Region, Class, Driver#})) = Some (X + {#Region, Class, Driver#})"
    if "case x of Some e \<Rightarrow> b \<and> fst (mydevprobe e) = 0 | None \<Rightarrow> True" for x b n X
    using that rd_dev.remove_ok [of "X + {#Pdev n#} + {#Region, Class, Driver#}"]
    by (cases x) (auto simp: unregister_test_def run_calls_append)
  have e1: "run_calls (unregister_test ''testdev'' (if t1 then Some (map_option rd_ida e1) else None))
      (?all + (?own e2 + (?own e1 + base))) = Some (?own e2 + (?all + (if t2 then {#Pdev ''testdev2''#} else {#}) + {#Region, Class, Driver#}))"
    using t [OF ok1, of "''testdev''" "?all + ?own e2 + (if t2 then {#Pdev ''testdev2''#} else {#})"]
    by (simp add: base_def T_def ac_simps)
  have u: "run_calls (concat (map (\<lambda>e. mydevremove (rd_ida e)) es)) (?all + {#Region, Class, Driver#})
      = Some {#Region, Class, Driver#}"
    using others by (intro rd_dev.remove_all) auto
  have "run_calls (driver_unregister (map mydevremove (map rd_ida es)) @ [Rel Class, Rel Region, Ida_destroy])
      (?all + {#Region, Class, Driver#}) = Some {#}"
    using u by (simp add: driver_unregister_def run_calls_append comp_def)
  then have "run_calls (mydevexit (if t1 then Some (map_option rd_ida e1) else None) (if t2 then Some (map_option rd_ida e2) else None)
      (map rd_ida es)) (?all + (?own e2 + (?own e1 + base))) = Some {#}"
    unfolding mydevexit_def by (simp only: run_calls_append e1 t [OF ok2] option.case)
  then show ?thesis by (simp only: run_calls_append c p0 p [OF ok2] ps option.case)
qed

end
