(* ===== verification/Text_Reader.thy ===== *)
theory Text_Reader
  imports C_Strings
begin

text \<open>
  What a program that reads a device in pieces relies on: from offset \<open>off\<close> a read of \<open>cnt\<close> bytes
  returns the next \<open>min cnt (length msg - off)\<close> bytes of one text \<open>msg\<close> and moves the offset past them,
  and at the end it returns nothing. The text drivers of the repository interpret this locale;
  the client's guarantee, that the pieces put together are the text, is proved once.
\<close>

locale text_reader =
  fixes msg :: string
    and rd :: "nat \<Rightarrow> nat \<Rightarrow> string \<times> nat"
  assumes rd_piece: "off < length msg \<Longrightarrow>
      rd off cnt = (take cnt (drop off msg), off + min cnt (length msg - off))"
    and rd_end: "fst (rd (length msg) cnt) = []"
begin

text \<open>Read with the given counts until a read returns nothing.\<close>

primrec read_until :: "nat list \<Rightarrow> nat \<Rightarrow> string" where
  "read_until [] off = []"
| "read_until (c # cs) off = (case rd off c of (bs, off') \<Rightarrow>
     if bs = [] then [] else bs @ read_until cs off')"

lemma read_until_take:
  "off \<le> length msg \<Longrightarrow> \<forall>c \<in> set cs. 0 < c \<Longrightarrow> read_until cs off = take (sum_list cs) (drop off msg)"
proof (induction cs arbitrary: off)
  case Nil
  then show ?case by simp
next
  case (Cons c cs)
  show ?case
  proof (cases "off = length msg")
    case True
    with rd_end [of c] show ?thesis by (simp add: case_prod_unfold)
  next
    case False
    with Cons.prems have off: "off < length msg" by simp
    let ?o = "off + min c (length msg - off)"
    have "read_until cs ?o = take (sum_list cs) (drop ?o msg)"
      using Cons off by (intro Cons.IH) auto
    moreover have "take (c + n) (drop off msg) = take c (drop off msg) @ take n (drop ?o msg)" for n
      by (cases "c \<le> length msg - off") (simp_all add: take_add ac_simps)
    moreover have "take c (drop off msg) \<noteq> []" using off Cons.prems by simp
    ultimately show ?thesis by (simp add: rd_piece [OF off])
  qed
qed

lemma read_until_all:
  "\<forall>c \<in> set cs. 0 < c \<Longrightarrow> length msg \<le> sum_list cs \<Longrightarrow> read_until cs 0 = msg"
  by (simp add: read_until_take)

end

section \<open>Messages in an array\<close>

text \<open>
  Three drivers (\<open>chardev/rdonly\<close>, \<open>chardev/ioctl\<close> and \<open>myproject\<close>) share one read function, a
  \<open>put_user\<close> loop over a NUL-terminated message in a static array. \<open>None\<close> is an access outside the
  array; the result is the number of bytes read, the characters put and the offset.
\<close>

fun put_loop :: "nat \<Rightarrow> string \<Rightarrow> string" where
  "put_loop 0 s = []"
| "put_loop (Suc n) [] = []"
| "put_loop (Suc n) (c # s) = (if c = CHR 0x00 then [] else c # put_loop n s)"

definition message_read :: "string \<Rightarrow> nat \<Rightarrow> nat \<Rightarrow> (int \<times> string \<times> nat) option" where
  "message_read a cnt off =
    (if off \<ge> length a then None
     else if a ! off = CHR 0x00 then Some (0, [], 0)
     else if \<not> terminated (drop off a) then None
     else let out = put_loop cnt (drop off a) in Some (int (length out), out, off + length out))"

lemma put_loop_take: "put_loop n s = take n (cstr s)"
  by (induction n s rule: put_loop.induct) (auto simp: cstr_def)

lemma message_read_at:
  assumes nul: "CHR 0x00 \<notin> set m" and off: "off \<le> length m"
  shows "message_read (m @ CHR 0x00 # r) cnt off
    = (let bs = take cnt (drop off m) in Some (int (length bs), bs, if off = length m then 0 else off + length bs))"
proof (cases "off = length m")
  case True
  then show ?thesis by (simp add: message_read_def)
next
  case False
  with off have lt: "off < length m" by simp
  then have "(m @ CHR 0x00 # r) ! off \<in> set m" by (simp add: nth_append)
  then have nz: "(m @ CHR 0x00 # r) ! off \<noteq> CHR 0x00" using nul by auto
  have "CHR 0x00 \<notin> set (drop off m)" using nul by (auto dest: in_set_dropD)
  then have "cstr (drop off m @ CHR 0x00 # r) = drop off m" by simp
  with nz lt show ?thesis by (simp add: message_read_def put_loop_take terminated_def Let_def)
qed

lemma text_reader_message:
  assumes "CHR 0x00 \<notin> set m" "a = m @ CHR 0x00 # r"
  shows "text_reader m (\<lambda>off cnt. case message_read a cnt off of None \<Rightarrow> ([], 0) | Some (ret, out, off') \<Rightarrow> (out, off'))"
  using assms by unfold_locales (simp_all add: message_read_at Let_def)

end
