(* ===== verification/Config_Drv.thy ===== *)
theory Config_Drv
  imports Text_Reader Kernel_Resources
begin

text \<open>
  The configuration device \<open>practice/myconfig/myconfig.c\<close>: one integer, reachable through a device
  file (\<open>config=<n>\<close>) and through two sysfs attributes. \<open>kstrtoint\<close> and \<open>sscanf\<close> are parameters.
\<close>

section \<open>Attributes\<close>

record myconfdev =
  cf_minor :: int
  cf_config :: int

definition config_show :: "myconfdev \<Rightarrow> string" where
  "config_show d = print_d (cf_config d) @ [CHR 0x0A]"

text \<open>\<open>kstrtoint\<close> gives an error or the value.\<close>

definition config_store :: "(string \<Rightarrow> int + int) \<Rightarrow> string \<Rightarrow> nat \<Rightarrow> myconfdev \<Rightarrow> int \<times> myconfdev" where
  "config_store kstrtoint buf cnt d = (case kstrtoint buf of Inl err \<Rightarrow> (err, d)
     | Inr val \<Rightarrow> (int cnt, d\<lparr>cf_config := val\<rparr>))"

definition status_show :: "myconfdev \<Rightarrow> string" where
  "status_show d = print_d (cf_minor d) @ [CHR 0x0A]"

section \<open>Device file\<close>

text \<open>\<open>left\<close> bytes of the user copy fail. \<open>kbuf\<close> has 1024 bytes and is always terminated.\<close>

definition configwrite :: "(string \<Rightarrow> int option) \<Rightarrow> nat \<Rightarrow> string \<Rightarrow> nat \<Rightarrow> myconfdev \<Rightarrow> int \<times> myconfdev" where
  "configwrite scan left buf cnt d =
    (let len = min cnt 1023;
         kbuf = (memcpy_at (replicate 1024 CHR 0x00) 0 (take len buf))[len := CHR 0x00]
     in if left \<noteq> 0 then (- EFAULT, d)
        else case scan (cstr kbuf) of None \<Rightarrow> (- EFAULT, d)
             | Some conf \<Rightarrow> (int cnt, d\<lparr>cf_config := conf\<rparr>))"

definition conf_text :: "int \<Rightarrow> string" where
  "conf_text v = ''config='' @ print_d v @ [CHR 0x0A]"

text \<open>Return value, user buffer, offset. The text is at most 19 bytes of the 1024 of \<open>kbuf\<close>.\<close>

definition configread :: "nat \<Rightarrow> string \<Rightarrow> nat \<Rightarrow> nat \<Rightarrow> myconfdev \<Rightarrow> int \<times> string \<times> nat" where
  "configread left buf cnt off d =
    (let kbuf = conf_text (cf_config d); len = length kbuf
     in if off \<ge> len then (0, buf, off)
        else let cnt' = (if cnt > len - off then len - off else cnt);
                 buf' = memcpy_at buf 0 (take (cnt' - left) (drop off kbuf))
             in if left \<noteq> 0 then (- EFAULT, buf', off) else (int cnt', buf', off + cnt'))"

section \<open>Probe, remove, init, exit\<close>

record cf_env =
  ce_alloc :: bool
  ce_ida :: int
  ce_cdev_add :: int
  ce_device_create :: int
  ce_file_config :: int
  ce_file_status :: int

definition myconfigprobe :: "cf_env \<Rightarrow> int \<times> kcall list" where
  "myconfigprobe e =
    (let m = ce_ida e;
         created = [Acq (Minor m), Acq (Cdev m), Use Class, Acq (Device m)];
         undo = [Use Class, Rel (Device m), Rel (Cdev m), Rel (Minor m)]
     in if \<not> ce_alloc e then (- ENOMEM, [])
        else if m < 0 then (m, [])
        else if ce_cdev_add e \<noteq> 0 then (ce_cdev_add e, [Acq (Minor m), Rel (Minor m)])
        else if IS_ERR (ce_device_create e) then
          (PTR_ERR (ce_device_create e), [Acq (Minor m), Acq (Cdev m), Use Class, Rel (Minor m), Rel (Cdev m)])
        else if ce_file_config e \<noteq> 0 then (ce_file_config e, created @ undo)
        else if ce_file_status e \<noteq> 0 then
          (ce_file_status e, created @ [Acq (Attr ''config'' m), Rel (Attr ''config'' m)] @ undo)
        else (0, created @ [Acq (Attr ''config'' m), Acq (Attr ''status'' m)]))"

definition myconfigremove :: "int \<Rightarrow> kcall list" where
  "myconfigremove m = [Rel (Attr ''config'' m), Rel (Attr ''status'' m), Use Class, Rel (Device m),
     Rel (Cdev m), Rel (Minor m)]"

text \<open>
  A test device is first allocated (\<open>Mem\<close>), then registered by \<open>platform_device_add\<close> (\<open>Pdev\<close>).
  \<open>platform_device_put\<close> drops the allocation, \<open>platform_device_unregister\<close> undoes both.
  The result says which of \<open>testdev\<close> and \<open>testdev2\<close> are left non-NULL.
\<close>

definition myintfinit ::
  "mod_env \<Rightarrow> bool \<Rightarrow> int \<Rightarrow> bool \<Rightarrow> int \<Rightarrow> int \<times> kcall list \<times> bool \<times> bool" where
  "myintfinit e alloc1 add1 alloc2 add2 =
    (if m_region e \<noteq> 0 then (m_region e, [], False, False)
     else if IS_ERR (m_class e) then (PTR_ERR (m_class e), [Acq Region, Rel Region], False, False)
     else if m_register e \<noteq> 0 then (m_register e, [Acq Region, Acq Class, Rel Class, Rel Region], False, False)
     else let t1 = (alloc1 \<and> add1 = 0);
              c1 = (if \<not> alloc1 then [] else if add1 \<noteq> 0 then [Acq (Mem ''testdev''), Rel (Mem ''testdev'')]
                    else [Acq (Mem ''testdev''), Acq (Pdev ''testdev'')]);
              c2 = (if \<not> alloc2 then []
                    else if add2 \<noteq> 0 then Acq (Mem ''testdev2'') # (if t1 then [Rel (Mem ''testdev'')] else [])
                    else [Acq (Mem ''testdev2''), Acq (Pdev ''testdev2'')])
          in (0, [Acq Region, Acq Class, Acq Driver] @ c1 @ c2, t1 \<and> \<not> (alloc2 \<and> add2 \<noteq> 0), alloc2))"

text \<open>The test devices left, with the minor of the bound ones, and the other bound devices.\<close>

definition unregister_pdev :: "string \<Rightarrow> int option option \<Rightarrow> kcall list" where
  "unregister_pdev name t = (case t of None \<Rightarrow> []
     | Some b \<Rightarrow> (case b of None \<Rightarrow> [] | Some m \<Rightarrow> myconfigremove m) @ [Rel (Pdev name), Rel (Mem name)])"

definition myintfexit :: "int option option \<Rightarrow> int option option \<Rightarrow> int list \<Rightarrow> kcall list" where
  "myintfexit t1 t2 others = unregister_pdev ''testdev'' t1 @ unregister_pdev ''testdev2'' t2
     @ driver_unregister (map myconfigremove others) @ [Rel Class, Rel Region, Ida_destroy]"

section \<open>Reading in pieces\<close>

definition config_piece :: "myconfdev \<Rightarrow> nat \<Rightarrow> nat \<Rightarrow> string \<times> nat" where
  "config_piece d off cnt = (case configread 0 (replicate cnt CHR 0x00) cnt off d of
     (ret, buf, off') \<Rightarrow> (take (nat ret) buf, off'))"

interpretation conf: text_reader "conf_text (cf_config d)" "config_piece d"
proof unfold_locales
  fix off cnt assume "off < length (conf_text (cf_config d))"
  then show "config_piece d off cnt = (take cnt (drop off (conf_text (cf_config d))),
      off + min cnt (length (conf_text (cf_config d)) - off))"
    by (auto simp: config_piece_def configread_def Let_def memcpy_at_def min_def)
next
  show "fst (config_piece d (length (conf_text (cf_config d))) cnt) = []" for cnt
    by (simp add: config_piece_def configread_def)
qed

lemma configwrite_sets:
  assumes "scan (conf_text v) = Some v" "is_s32 v"
  shows "configwrite scan 0 (conf_text v) (length (conf_text v)) d = (int (length (conf_text v)), d\<lparr>cf_config := v\<rparr>)"
proof -
  have len: "length (conf_text v) \<le> 19" using length_print_d [OF assms(2)] by (simp add: conf_text_def)
  define n where "n = length (conf_text v)"
  have "(memcpy_at (replicate 1024 CHR 0x00) 0 (conf_text v))[n := CHR 0x00]
      = conf_text v @ replicate (1024 - n) CHR 0x00"
    by (simp add: memcpy_at_def n_def list_update_append)
  also have "\<dots> = conf_text v @ CHR 0x00 # replicate (1023 - n) CHR 0x00"
    using len by (simp flip: replicate_Suc add: Suc_diff_le n_def)
  finally have "cstr ((memcpy_at (replicate 1024 CHR 0x00) 0 (conf_text v))[n := CHR 0x00]) = conf_text v"
    using print_d_no_nul [of v] by (simp only:) (rule cstr_term, simp add: conf_text_def)
  then show ?thesis
    using len assms(1) unfolding configwrite_def Let_def n_def [symmetric] by (simp add: n_def min_def)
qed

section \<open>Guarantees\<close>

text \<open>
  C24: a value written to the device file as \<open>config=<v>\<close> is what the sysfs attribute shows and what
  the device file returns: read from the start in pieces of any sizes, the pieces put together
  are \<open>config=<v>\<close> and a newline. A value stored through sysfs likewise; a rejected number changes
  nothing.
\<close>

theorem config_agrees:
  assumes scan: "\<And>x. is_s32 x \<Longrightarrow> scan (conf_text x) = Some x"
    and kstr: "\<And>x. is_s32 x \<Longrightarrow> kstrtoint (print_d x @ [CHR 0x0A]) = Inr x"
    and v: "is_s32 v" and cs: "\<forall>c \<in> set cs. 0 < c" "length (conf_text v) \<le> sum_list cs"
    and bad: "kstrtoint s = Inl err"
  shows "\<exists>d'. configwrite scan 0 (conf_text v) (length (conf_text v)) d = (int (length (conf_text v)), d')
      \<and> config_show d' = print_d v @ [CHR 0x0A] \<and> conf.read_until d' cs 0 = conf_text v
      \<and> config_store kstrtoint (config_show d') n d = (int n, d') \<and> config_store kstrtoint s n d = (err, d)"
proof -
  have "configwrite scan 0 (conf_text v) (length (conf_text v)) d = (int (length (conf_text v)), d\<lparr>cf_config := v\<rparr>)"
    using configwrite_sets scan v by blast
  moreover have "conf.read_until (d\<lparr>cf_config := v\<rparr>) cs 0 = conf_text v"
    using conf.read_until_all [OF cs(1), of "d\<lparr>cf_config := v\<rparr>"] cs(2) by simp
  ultimately show ?thesis
    using kstr [OF v] bad by (auto simp: config_show_def config_store_def)
qed

text \<open>A reader of numbers with the documented results, for the witness.\<close>

definition kstrtoint_dec :: "string \<Rightarrow> int + int" where
  "kstrtoint_dec s = (case sscanf_d [] s of None \<Rightarrow> Inl (- EINVAL) | Some v \<Rightarrow> Inr v)"

theorem config_agrees_witness:
  "\<exists>d'. configwrite (sscanf_d ''config='') 0 (conf_text 5) (length (conf_text 5)) \<lparr>cf_minor = 0, cf_config = 0\<rparr>
        = (int (length (conf_text 5)), d')
      \<and> config_show d' = ''5'' @ [CHR 0x0A] \<and> conf.read_until d' [3, 2, 100] 0 = ''config=5'' @ [CHR 0x0A]"
proof -
  have scan: "sscanf_d ''config='' (conf_text x) = Some x" if "is_s32 x" for x
    unfolding conf_text_def using that by (intro sscanf_d_print_d) (auto simp: digit_val_def)
  have kstr: "kstrtoint_dec (print_d x @ [CHR 0x0A]) = Inr x" if "is_s32 x" for x
    using sscanf_d_print_d [OF that, of "[CHR 0x0A]" "[]"] by (auto simp: kstrtoint_dec_def digit_val_def)
  have bad: "kstrtoint_dec ''x'' = Inl (- EINVAL)" by code_simp
  have t: "conf_text 5 = ''config=5'' @ [CHR 0x0A]" "print_d 5 = ''5''" by code_simp+
  have "is_s32 5" "\<forall>c \<in> set [3, 2, 100]. 0 < (c :: nat)" "length (conf_text 5) \<le> sum_list [3, 2, 100]"
    by (simp_all add: is_s32_def t)
  from config_agrees [of "sscanf_d ''config=''" kstrtoint_dec, OF scan kstr this bad, where n = 0
      and d = "\<lparr>cf_minor = 0, cf_config = 0\<rparr>"]
  show ?thesis unfolding t by blast
qed

section \<open>Life cycle\<close>

definition cf_owned :: "cf_env \<Rightarrow> resource multiset" where
  "cf_owned e = {#Minor (ce_ida e), Cdev (ce_ida e), Device (ce_ida e), Attr ''config'' (ce_ida e), Attr ''status'' (ce_ida e)#}"

interpretation cf_dev: device_lifecycle "{Class}" myconfigprobe "\<lambda>e. myconfigremove (ce_ida e)" cf_owned
proof unfold_locales
  fix h :: "resource multiset" and e
  assume h: "{Class} \<subseteq> set_mset h"
  then show "fst (myconfigprobe e) = 0 \<Longrightarrow> run_calls (snd (myconfigprobe e)) h = Some (cf_owned e + h)"
    by (auto simp: myconfigprobe_def cf_owned_def Let_def IS_ERR_PTR_ERR add_mset_commute split: if_splits)
  from h show "fst (myconfigprobe e) \<noteq> 0 \<Longrightarrow> run_calls (snd (myconfigprobe e)) h = Some h"
    by (auto simp: myconfigprobe_def Let_def split: if_splits)
  from h show "run_calls (myconfigremove (ce_ida e)) (cf_owned e + h) = Some h"
    by (simp add: myconfigremove_def cf_owned_def)
qed

text \<open>
  When registering the second test device fails, the error path puts the first one: its
  allocation is dropped while it is registered, the second stays allocated, and exit unregisters a
  device that was never registered.
\<close>

theorem myintf_wrong_put:
  assumes "myintfinit i True 0 True add2 = (0, calls, t1, t2)" "add2 \<noteq> 0" "fst (myconfigprobe e) = 0"
  shows "\<not> t1 \<and> t2
    \<and> run_calls (calls @ snd (myconfigprobe e)) {#}
      = Some (cf_owned e + {#Region, Class, Driver, Pdev ''testdev'', Mem ''testdev2''#})
    \<and> run_calls (calls @ snd (myconfigprobe e) @ myintfexit None (Some None) [ce_ida e]) {#} = None"
proof -
  have t: "\<not> t1" t2 and c: "run_calls calls {#} = Some {#Region, Class, Driver, Pdev ''testdev'', Mem ''testdev2''#}"
    using assms(1,2) by (auto simp: myintfinit_def Let_def IS_ERR_PTR_ERR add_mset_commute split: if_splits)
  have p: "run_calls (snd (myconfigprobe e)) {#Region, Class, Driver, Pdev ''testdev'', Mem ''testdev2''#}
      = Some (cf_owned e + {#Region, Class, Driver, Pdev ''testdev'', Mem ''testdev2''#})"
    using assms(3) by (intro cf_dev.probe_ok) auto
  have "run_calls (myintfexit None (Some None) [ce_ida e])
      (cf_owned e + {#Region, Class, Driver, Pdev ''testdev'', Mem ''testdev2''#}) = None"
    by (simp add: myintfexit_def unregister_pdev_def cf_owned_def)
  with t c p show ?thesis by (simp only: run_calls_append option.case) simp
qed

theorem myintf_wrong_put_witness:
  "run_calls ([Acq Region, Acq Class, Acq Driver, Acq (Mem ''testdev''), Acq (Pdev ''testdev''),
      Acq (Mem ''testdev2''), Rel (Mem ''testdev'')]
    @ snd (myconfigprobe \<lparr>ce_alloc = True, ce_ida = 0, ce_cdev_add = 0, ce_device_create = 1, ce_file_config = 0, ce_file_status = 0\<rparr>)
    @ myintfexit None (Some None) [0]) {#} = None"
proof -
  have "myintfinit \<lparr>m_region = 0, m_class = 1, m_register = 0\<rparr> True 0 True (- 16)
    = (0, [Acq Region, Acq Class, Acq Driver, Acq (Mem ''testdev''), Acq (Pdev ''testdev''),
      Acq (Mem ''testdev2''), Rel (Mem ''testdev'')], False, True)"
    by (simp add: myintfinit_def IS_ERR_def)
  from myintf_wrong_put [OF this, of "\<lparr>ce_alloc = True, ce_ida = 0, ce_cdev_add = 0, ce_device_create = 1, ce_file_config = 0, ce_file_status = 0\<rparr>"]
  show ?thesis by (simp add: myconfigprobe_def IS_ERR_def)
qed

end
