(* ===== verification/Fake_Sensor.thy ===== *)
theory Fake_Sensor
  imports Text_Reader Kernel_Resources
begin

text \<open>
  The sensor driver of \<open>myproject\<close>: the sensor state (\<open>driver/src/fakesensor.c\<close>), the minor pool,
  the file operations and the life cycle (\<open>driver/src/mysensordrv.c\<close>), with the command numbers of
  \<open>driver/inc/mysensor_ioctl.h\<close>. The pool is specified by the locale \<open>minor_pool\<close>.
\<close>

section \<open>Sensor state\<close>

record mysensor_status =
  ms_temp :: u32
  ms_humidity :: u32
  ms_threshold :: u32
  ms_alarm :: u32

definition init_tempstat :: "mysensor_status \<Rightarrow> mysensor_status" where
  "init_tempstat st = st\<lparr>ms_temp := 2, ms_humidity := 4, ms_alarm := 0, ms_threshold := 100\<rparr>"

definition get_temp :: "mysensor_status \<Rightarrow> int" where "get_temp st = sint (ms_temp st)"

definition set_temp :: "mysensor_status \<Rightarrow> int \<Rightarrow> int \<times> mysensor_status" where
  "set_temp st val =
    (let old = sint (ms_temp st); st1 = st\<lparr>ms_temp := word_of_int val\<rparr>
     in (old, if ms_temp st1 > ms_threshold st1 then st1\<lparr>ms_alarm := 1\<rparr> else st1))"

definition get_hum :: "mysensor_status \<Rightarrow> int" where "get_hum st = sint (ms_humidity st)"

definition set_hum :: "mysensor_status \<Rightarrow> int \<Rightarrow> int \<times> mysensor_status" where
  "set_hum st val = (sint (ms_humidity st), st\<lparr>ms_humidity := word_of_int val\<rparr>)"

definition get_alm :: "mysensor_status \<Rightarrow> int" where "get_alm st = sint (ms_alarm st)"

definition set_alm :: "mysensor_status \<Rightarrow> int \<Rightarrow> int \<times> mysensor_status" where
  "set_alm st val = (sint (ms_alarm st), st\<lparr>ms_alarm := word_of_int val\<rparr>)"

definition get_lim :: "mysensor_status \<Rightarrow> int" where "get_lim st = sint (ms_threshold st)"

definition set_lim :: "mysensor_status \<Rightarrow> int \<Rightarrow> int \<times> mysensor_status" where
  "set_lim st val = (sint (ms_threshold st), st\<lparr>ms_threshold := word_of_int val\<rparr>)"

lemmas sensor_ops = get_temp_def set_temp_def get_hum_def set_hum_def get_alm_def set_alm_def
  get_lim_def set_lim_def

section \<open>Minor numbers\<close>

definition DEVCOUNT :: nat where "DEVCOUNT = 4"

record minors =
  avaliable_minor :: "int list"
  devcount :: int

text \<open>The loop of \<open>get_minor\<close> from index \<open>i\<close>.\<close>

function get_minor_loop :: "nat \<Rightarrow> minors \<Rightarrow> int \<times> minors" where
  "get_minor_loop i s =
    (if i < DEVCOUNT then
       if avaliable_minor s ! i = 0
       then (int i, s\<lparr>avaliable_minor := (avaliable_minor s)[i := 1], devcount := s32 (devcount s + 1)\<rparr>)
       else get_minor_loop (i + 1) s
     else (- 1, s))"
  by auto
termination by (relation "measure (\<lambda>(i, s). DEVCOUNT - i)") auto

declare get_minor_loop.simps [simp del]

definition get_minor :: "minors \<Rightarrow> int \<times> minors" where
  "get_minor s = get_minor_loop 0 s"

definition return_minor :: "int \<Rightarrow> minors \<Rightarrow> minors" where
  "return_minor i s = (if i \<ge> int DEVCOUNT then s
     else s\<lparr>avaliable_minor := (avaliable_minor s)[nat i := 0], devcount := s32 (devcount s - 1)\<rparr>)"

text \<open>A pool of \<open>cap\<close> numbers: what probe and remove rely on.\<close>

locale minor_pool =
  fixes cap :: nat
    and get :: "'s \<Rightarrow> int \<times> 's"
    and put :: "int \<Rightarrow> 's \<Rightarrow> 's"
    and used :: "'s \<Rightarrow> nat set"
    and ok :: "'s \<Rightarrow> bool"
  assumes used_bound: "ok s \<Longrightarrow> used s \<subseteq> {..<cap}"
    and get_fresh: "ok s \<Longrightarrow> used s \<noteq> {..<cap} \<Longrightarrow>
      \<exists>i s'. get s = (int i, s') \<and> i < cap \<and> i \<notin> used s \<and> (\<forall>j < i. j \<in> used s) \<and> used s' = insert i (used s) \<and> ok s'"
    and get_full: "ok s \<Longrightarrow> used s = {..<cap} \<Longrightarrow> get s = (- 1, s)"
    and put_frees: "ok s \<Longrightarrow> i \<in> used s \<Longrightarrow> ok (put (int i) s) \<and> used (put (int i) s) = used s - {i}"
begin

text \<open>What is handed out and given back can be handed out again, lowest first.\<close>

lemma put_get:
  assumes "ok s" "i \<in> used s" "\<forall>j < i. j \<in> used s"
  shows "\<exists>s'. get (put (int i) s) = (int i, s') \<and> used s' = used s \<and> ok s'"
proof -
  have p: "ok (put (int i) s)" "used (put (int i) s) = used s - {i}" using put_frees assms by auto
  have "i < cap" using used_bound [OF assms(1)] assms(2) by auto
  then have "used (put (int i) s) \<noteq> {..<cap}" using p(2) by auto
  from get_fresh [OF p(1) this] obtain k s' where k: "get (put (int i) s) = (int k, s')" "k \<notin> used s - {i}"
    "\<forall>j < k. j \<in> used s - {i}" "used s' = insert k (used s - {i})" "ok s'" using p(2) by auto
  have "k = i" using k(2,3) assms(3) by (metis DiffI Diff_iff insertI1 nat_neq_iff singletonD)
  with k assms(2) show ?thesis by auto
qed

text \<open>\<open>n\<close> allocations in a row.\<close>

primrec gets :: "nat \<Rightarrow> 's \<Rightarrow> int list \<times> 's" where
  "gets 0 s = ([], s)"
| "gets (Suc n) s = (case get s of (i, s1) \<Rightarrow> case gets n s1 of (is, s2) \<Rightarrow> (i # is, s2))"

lemma gets_distinct:
  "ok s \<Longrightarrow> card (used s) + n \<le> cap \<Longrightarrow>
   \<exists>is s'. gets n s = (map int is, s') \<and> length is = n \<and> distinct is \<and> set is \<subseteq> {..<cap} - used s
     \<and> used s' = used s \<union> set is \<and> ok s'"
proof (induction n arbitrary: s)
  case 0
  then show ?case by simp
next
  case (Suc n)
  have fin: "finite (used s)" using used_bound [OF Suc.prems(1)] by (rule finite_subset) simp
  have "card (used s) \<noteq> card {..<cap}" using Suc.prems(2) by simp
  then have "used s \<noteq> {..<cap}" by metis
  from get_fresh [OF Suc.prems(1) this] obtain i s1 where i: "get s = (int i, s1)" "i < cap" "i \<notin> used s"
    "used s1 = insert i (used s)" "ok s1" by (elim exE conjE)
  with Suc.prems fin have "card (used s1) + n \<le> cap" by simp
  with Suc.IH [OF i(5)] obtain "is" s' where "gets n s1 = (map int is, s')" "length is = n" "distinct is"
    "set is \<subseteq> {..<cap} - used s1" "used s' = used s1 \<union> set is" "ok s'" by blast
  with i show ?case by (intro exI [of _ "i # is"] exI [of _ s']) auto
qed

end

definition minors_used :: "minors \<Rightarrow> nat set" where
  "minors_used s = {i. i < length (avaliable_minor s) \<and> avaliable_minor s ! i \<noteq> 0}"

definition minors_ok :: "minors \<Rightarrow> bool" where
  "minors_ok s \<longleftrightarrow> length (avaliable_minor s) = 4 \<and> devcount s = int (card (minors_used s))"

lemma get_minor_loop_spec:
  assumes "length (avaliable_minor s) = 4" "i \<le> 4" "\<forall>j < i. j \<in> minors_used s"
  shows "(minors_used s = {..<4} \<and> get_minor_loop i s = (- 1, s)) \<or>
    (\<exists>k < 4. k \<notin> minors_used s \<and> (\<forall>j < k. j \<in> minors_used s) \<and> get_minor_loop i s
       = (int k, s\<lparr>avaliable_minor := (avaliable_minor s)[k := 1], devcount := s32 (devcount s + 1)\<rparr>))"
  using assms
proof (induction i s rule: get_minor_loop.induct)
  case (1 i s)
  show ?case
  proof (cases "i < 4 \<and> avaliable_minor s ! i \<noteq> 0")
    case True
    then have "i \<in> minors_used s" using "1.prems" by (simp add: minors_used_def)
    then have "\<forall>j < i + 1. j \<in> minors_used s" using "1.prems"(3) less_Suc_eq by auto
    with "1.IH" "1.prems" True show ?thesis
      by (simp add: get_minor_loop.simps [of i s] DEVCOUNT_def)
  next
    case False
    show ?thesis
    proof (cases "i < 4")
      case True
      with False have "i \<notin> minors_used s" by (simp add: minors_used_def)
      with True False "1.prems" show ?thesis
        by (simp add: get_minor_loop.simps [of i s] DEVCOUNT_def)
    next
      case i4: False
      with "1.prems" have "minors_used s = {..<4}" by (auto simp: minors_used_def)
      with i4 show ?thesis by (simp add: get_minor_loop.simps [of i s] DEVCOUNT_def)
    qed
  qed
qed

lemma minors_used_set:
  "i < length (avaliable_minor s) \<Longrightarrow> minors_used (s\<lparr>avaliable_minor := (avaliable_minor s)[i := 1], devcount := c\<rparr>) = insert i (minors_used s)"
  "i < length (avaliable_minor s) \<Longrightarrow> minors_used (s\<lparr>avaliable_minor := (avaliable_minor s)[i := 0], devcount := c\<rparr>) = minors_used s - {i}"
  by (auto simp: minors_used_def nth_list_update split: if_splits)

lemma card_minors_used: "length (avaliable_minor s) = 4 \<Longrightarrow> finite (minors_used s) \<and> card (minors_used s) \<le> 4"
  using card_mono [of "{..<4}" "minors_used s"] finite_subset [of "minors_used s" "{..<4}"]
  by (auto simp: minors_used_def)

interpretation mp: minor_pool 4 get_minor return_minor minors_used minors_ok
proof unfold_locales
  fix s assume ok: "minors_ok s"
  then have len: "length (avaliable_minor s) = 4" and cnt: "devcount s = int (card (minors_used s))"
    by (simp_all add: minors_ok_def)
  note fin = card_minors_used [OF len]
  show "minors_used s \<subseteq> {..<4}" using len by (auto simp: minors_used_def)
  note spec = get_minor_loop_spec [OF len, of 0]
  { assume "minors_used s \<noteq> {..<4}"
    with spec obtain k where k: "k < 4" "k \<notin> minors_used s" "\<forall>j < k. j \<in> minors_used s"
      "get_minor s = (int k, s\<lparr>avaliable_minor := (avaliable_minor s)[k := 1], devcount := s32 (devcount s + 1)\<rparr>)"
      by (auto simp: get_minor_def)
    let ?s = "s\<lparr>avaliable_minor := (avaliable_minor s)[k := 1], devcount := s32 (devcount s + 1)\<rparr>"
    have u: "minors_used ?s = insert k (minors_used s)" using k len by (simp add: minors_used_set)
    then have "minors_ok ?s" using k len cnt fin by (simp add: minors_ok_def)
    with k u show "\<exists>i s'. get_minor s = (int i, s') \<and> i < 4 \<and> i \<notin> minors_used s \<and> (\<forall>j < i. j \<in> minors_used s)
        \<and> minors_used s' = insert i (minors_used s) \<and> minors_ok s'" by blast }
  { assume "minors_used s = {..<4}"
    with spec show "get_minor s = (- 1, s)" by (auto simp: get_minor_def) }
  { fix i assume i: "i \<in> minors_used s"
    then have "i < 4" using len by (auto simp: minors_used_def)
    then have r: "return_minor (int i) s = s\<lparr>avaliable_minor := (avaliable_minor s)[i := 0], devcount := s32 (devcount s - 1)\<rparr>"
      by (simp add: return_minor_def DEVCOUNT_def)
    have u: "minors_used (return_minor (int i) s) = minors_used s - {i}" using i \<open>i < 4\<close> len by (simp add: r minors_used_set)
    have "0 < card (minors_used s)" using i fin by (auto simp: card_gt_0_iff)
    then have "s32 (devcount s - 1) = int (card (minors_used s - {i}))" using i fin cnt by (simp add: of_nat_diff)
    with u r len have "minors_ok (return_minor (int i) s)" by (simp add: minors_ok_def)
    with u show "minors_ok (return_minor (int i) s) \<and> minors_used (return_minor (int i) s) = minors_used s - {i}" by simp }
qed

section \<open>File operations\<close>

definition MYSENSOR_IOC_MAGIC :: nat where "MYSENSOR_IOC_MAGIC = 77"
definition MYSENSOR_IOC_GET_STATUS :: ioc where "MYSENSOR_IOC_GET_STATUS = IOR MYSENSOR_IOC_MAGIC 0 16"
definition MYSENSOR_IOC_GET_TEMP :: ioc where "MYSENSOR_IOC_GET_TEMP = IOR MYSENSOR_IOC_MAGIC 1 4"
definition MYSENSOR_IOC_GET_HUMIDITY :: ioc where "MYSENSOR_IOC_GET_HUMIDITY = IOR MYSENSOR_IOC_MAGIC 2 4"
definition MYSENSOR_IOC_GET_THRESHOLD :: ioc where "MYSENSOR_IOC_GET_THRESHOLD = IOR MYSENSOR_IOC_MAGIC 3 4"
definition MYSENSOR_IOC_GET_ALARM :: ioc where "MYSENSOR_IOC_GET_ALARM = IOR MYSENSOR_IOC_MAGIC 4 4"
definition MYSENSOR_IOC_SET_TEMP :: ioc where "MYSENSOR_IOC_SET_TEMP = IOW MYSENSOR_IOC_MAGIC 5 4"
definition MYSENSOR_IOC_SET_HUMIDITY :: ioc where "MYSENSOR_IOC_SET_HUMIDITY = IOW MYSENSOR_IOC_MAGIC 6 4"
definition MYSENSOR_IOC_SET_THRESHOLD :: ioc where "MYSENSOR_IOC_SET_THRESHOLD = IOW MYSENSOR_IOC_MAGIC 7 4"
definition MYSENSOR_IOC_CLEAR_ALARM :: ioc where "MYSENSOR_IOC_CLEAR_ALARM = IO MYSENSOR_IOC_MAGIC 8"
definition MYSENSOR_IOC_TRIGGER_ALARM :: ioc where "MYSENSOR_IOC_TRIGGER_ALARM = IO MYSENSOR_IOC_MAGIC 9"

lemmas sensor_cmds = MYSENSOR_IOC_MAGIC_def MYSENSOR_IOC_GET_STATUS_def MYSENSOR_IOC_GET_TEMP_def
  MYSENSOR_IOC_GET_HUMIDITY_def MYSENSOR_IOC_GET_THRESHOLD_def MYSENSOR_IOC_GET_ALARM_def
  MYSENSOR_IOC_SET_TEMP_def MYSENSOR_IOC_SET_HUMIDITY_def MYSENSOR_IOC_SET_THRESHOLD_def
  MYSENSOR_IOC_CLEAR_ALARM_def MYSENSOR_IOC_TRIGGER_ALARM_def

text \<open>The device, and how often its wait queue was woken.\<close>

record mysensor_t =
  sn_stat :: mysensor_status
  sn_minor :: int
  sn_wakes :: nat

text \<open>
  Copies between kernel and user memory \<open>u\<close>, of which the last \<open>left\<close> bytes fail. Both helpers warn
  when the number of bytes that could not be copied differs from \<open>n\<close>, which is every successful
  copy; neither reports a failure to its caller.
\<close>

definition cpy2user :: "nat \<Rightarrow> u8 list \<Rightarrow> u8 list \<Rightarrow> nat \<Rightarrow> u8 list \<times> bool" where
  "cpy2user left u from n = (memcpy_at u 0 (take (n - left) from), left \<noteq> n)"

text \<open>The kernel side of a partial copy is filled with zeros.\<close>

definition cpy2kernel :: "nat \<Rightarrow> u8 list \<Rightarrow> nat \<Rightarrow> u8 list \<times> bool" where
  "cpy2kernel left u n = (take (n - left) u @ replicate (n - length (take (n - left) u)) 0, left \<noteq> n)"

definition int_bytes :: "int \<Rightarrow> u8 list" where
  "int_bytes x = le_bytes 4 (unat (word_of_int x :: u32))"

definition int_of_bytes :: "u8 list \<Rightarrow> int" where
  "int_of_bytes bs = sint (of_nat (le_value (take 4 bs)) :: u32)"

definition status_bytes :: "mysensor_status \<Rightarrow> u8 list" where
  "status_bytes st = le_bytes 4 (unat (ms_temp st)) @ le_bytes 4 (unat (ms_humidity st))
     @ le_bytes 4 (unat (ms_threshold st)) @ le_bytes 4 (unat (ms_alarm st))"

definition wake_if :: "bool \<Rightarrow> mysensor_t \<Rightarrow> mysensor_t" where
  "wake_if b d = (if b then d\<lparr>sn_wakes := Suc (sn_wakes d)\<rparr> else d)"

definition device_unlocked_ioctl :: "nat \<Rightarrow> ioc \<Rightarrow> u8 list \<Rightarrow> mysensor_t \<Rightarrow> int \<times> u8 list \<times> mysensor_t" where
  "device_unlocked_ioctl left cmd u d =
    (let st = sn_stat d; new = int_of_bytes (fst (cpy2kernel left u 4))
     in if cmd = MYSENSOR_IOC_GET_TEMP then (0, fst (cpy2user left u (int_bytes (get_temp st)) 4), d)
        else if cmd = MYSENSOR_IOC_GET_HUMIDITY then (0, fst (cpy2user left u (int_bytes (get_hum st)) 4), d)
        else if cmd = MYSENSOR_IOC_GET_THRESHOLD then (0, fst (cpy2user left u (int_bytes (get_lim st)) 4), d)
        else if cmd = MYSENSOR_IOC_GET_ALARM then (0, fst (cpy2user left u (int_bytes (get_alm st)) 4), d)
        else if cmd = MYSENSOR_IOC_GET_STATUS then (0, fst (cpy2user left u (status_bytes st) 16), d)
        else if cmd = MYSENSOR_IOC_SET_TEMP then
          (let st' = snd (set_temp st new) in (0, u, wake_if (get_alm st' \<noteq> 0) (d\<lparr>sn_stat := st'\<rparr>)))
        else if cmd = MYSENSOR_IOC_SET_HUMIDITY then (0, u, d\<lparr>sn_stat := snd (set_hum st new)\<rparr>)
        else if cmd = MYSENSOR_IOC_SET_THRESHOLD then
          (let st' = snd (set_lim st new) in (0, u, wake_if (get_alm st' \<noteq> 0) (d\<lparr>sn_stat := st'\<rparr>)))
        else if cmd = MYSENSOR_IOC_CLEAR_ALARM then (0, u, d\<lparr>sn_stat := snd (set_alm st 0)\<rparr>)
        else if cmd = MYSENSOR_IOC_TRIGGER_ALARM then
          (0, u, wake_if True (d\<lparr>sn_stat := snd (set_alm st 1)\<rparr>))
        else (- EINVAL, u, d))"

definition device_poll :: "mysensor_t \<Rightarrow> u32" where
  "device_poll d = (if get_alm (sn_stat d) \<noteq> 0 then POLLIN OR POLLRDNORM else 0)"

definition sensor_message :: "mysensor_status \<Rightarrow> string" where
  "sensor_message st = ''temp='' @ print_d (get_temp st) @ '' humidity='' @ print_d (get_hum st)
     @ '' alarm='' @ print_d (get_alm st) @ [CHR 0x0A]"

text \<open>
  \<open>message\<close> is the function's static array of 128 characters. \<open>None\<close> is an access outside it.
  Result: bytes read, characters put, the array and the offset.
\<close>

definition device_read :: "string \<Rightarrow> nat \<Rightarrow> nat \<Rightarrow> mysensor_t \<Rightarrow> (int \<times> string \<times> string \<times> nat) option" where
  "device_read message cnt off d =
    (let txt = sensor_message (sn_stat d) @ [CHR 0x00]
     in if length txt > 128 then None
        else let msg = memcpy_at message 0 txt
             in case message_read msg cnt off of None \<Rightarrow> None
                | Some (ret, out, off') \<Rightarrow> Some (ret, out, msg, off'))"

section \<open>Probe, remove, init, exit\<close>

record fs_env =
  fs_alloc :: bool
  fs_cdev_add :: int
  fs_device_create :: int

definition myssdrv_probe :: "fs_env \<Rightarrow> minors \<Rightarrow> int \<times> kcall list \<times> minors \<times> mysensor_t option" where
  "myssdrv_probe e s =
    (case get_minor s of (minor, s1) \<Rightarrow>
       if minor = - 1 then (- EINVAL, [], s1, None)
       else if \<not> fs_alloc e then (- ENOMEM, [Acq (Minor minor), Rel (Minor minor)], return_minor minor s1, None)
       else if fs_cdev_add e \<noteq> 0 then
         (- ENOMEM, [Acq (Minor minor), Acq (Mem ''sensor''), Rel (Minor minor), Rel (Mem ''sensor'')],
          return_minor minor s1, None)
       else if IS_ERR (fs_device_create e) then
         (- ENOMEM, [Acq (Minor minor), Acq (Mem ''sensor''), Acq (Cdev minor), Use Class, Rel (Cdev minor),
            Rel (Minor minor), Rel (Mem ''sensor'')], return_minor minor s1, None)
       else (0, [Acq (Minor minor), Acq (Mem ''sensor''), Acq (Cdev minor), Use Class, Acq (Device minor)], s1,
             Some \<lparr>sn_stat = init_tempstat \<lparr>ms_temp = 0, ms_humidity = 0, ms_threshold = 0, ms_alarm = 0\<rparr>,
                   sn_minor = minor, sn_wakes = 0\<rparr>))"

definition myssdrv_remove :: "mysensor_t \<Rightarrow> minors \<Rightarrow> kcall list \<times> minors" where
  "myssdrv_remove d s = ([Rel (Cdev (sn_minor d)), Rel (Minor (sn_minor d)), Use Class, Rel (Device (sn_minor d)),
     Rel (Mem ''sensor'')], return_minor (sn_minor d) s)"

definition myssdrv_init :: "mod_env \<Rightarrow> int \<times> kcall list" where
  "myssdrv_init e =
    (let r_class = [Rel Region]; r_driver = Rel Class # r_class
     in if m_region e < 0 then (- 1, [])
        else if IS_ERR (m_class e) then (- 1, Acq Region # r_class)
        else if m_register e \<noteq> 0 then (- 1, [Acq Region, Acq Class] @ r_driver)
        else (0, [Acq Region, Acq Class, Acq Driver]))"

text \<open>Exit, with the devices still bound to the driver.\<close>

fun remove_calls :: "mysensor_t list \<Rightarrow> kcall list list" where
  "remove_calls ds = map (\<lambda>d. fst (myssdrv_remove d \<lparr>avaliable_minor = [], devcount = 0\<rparr>)) ds"

definition myssdrv_exit :: "mysensor_t list \<Rightarrow> kcall list" where
  "myssdrv_exit ds = [Rel Class] @ driver_unregister (remove_calls ds) @ [Rel Region]"

section \<open>Reading\<close>

lemma is_s32_sint [simp]: "is_s32 (sint (w :: u32))"
  using sint_greater_eq [of w] sint_less [of w] by (simp add: is_s32_def)

lemma length_sensor_message: "length (sensor_message st) \<le> 56"
  using length_print_d [OF is_s32_sint [of "ms_temp st"]] length_print_d [OF is_s32_sint [of "ms_humidity st"]]
    length_print_d [OF is_s32_sint [of "ms_alarm st"]]
  by (simp add: sensor_message_def sensor_ops)

lemma sensor_message_no_nul: "CHR 0x00 \<notin> set (sensor_message st)"
  using print_d_no_nul by (simp add: sensor_message_def)

text \<open>A read at an offset within the text it would print now.\<close>

lemma device_read_at:
  assumes "length message = 128" "off \<le> length (sensor_message (sn_stat d))"
  shows "\<exists>message'. length message' = 128 \<and> device_read message cnt off d
    = (let bs = take cnt (drop off (sensor_message (sn_stat d)))
       in Some (int (length bs), bs, message', if off = length (sensor_message (sn_stat d)) then 0 else off + length bs))"
proof -
  define m where "m = sensor_message (sn_stat d)"
  have m: "length m \<le> 56" "CHR 0x00 \<notin> set m" by (simp_all add: m_def length_sensor_message sensor_message_no_nul)
  let ?msg = "memcpy_at message 0 (m @ [CHR 0x00])"
  have msg: "?msg = m @ CHR 0x00 # drop (Suc (length m)) message" by (simp add: memcpy_at_def)
  have "length ?msg = 128" using assms(1) m by simp
  moreover have "message_read ?msg cnt off = (let bs = take cnt (drop off m)
      in Some (int (length bs), bs, if off = length m then 0 else off + length bs))"
    unfolding msg using m assms(2) by (intro message_read_at) (simp_all add: m_def)
  ultimately show ?thesis
    using m by (intro exI [of _ ?msg]) (simp add: device_read_def m_def [symmetric] Let_def)
qed

definition sensor_piece :: "mysensor_t \<Rightarrow> nat \<Rightarrow> nat \<Rightarrow> string \<times> nat" where
  "sensor_piece d off cnt = (case device_read (replicate 128 CHR 0x00) cnt off d of
     None \<Rightarrow> ([], 0) | Some (ret, out, msg, off') \<Rightarrow> (out, off'))"

interpretation sread: text_reader "sensor_message (sn_stat d)" "sensor_piece d"
proof unfold_locales
  fix off cnt assume off: "off < length (sensor_message (sn_stat d))"
  then show "sensor_piece d off cnt = (take cnt (drop off (sensor_message (sn_stat d))),
      off + min cnt (length (sensor_message (sn_stat d)) - off))"
    using device_read_at [of "replicate 128 CHR 0x00" off d cnt] by (auto simp: sensor_piece_def Let_def)
next
  show "fst (sensor_piece d (length (sensor_message (sn_stat d))) cnt) = []" for cnt
    using device_read_at [of "replicate 128 CHR 0x00" "length (sensor_message (sn_stat d))" d cnt]
    by (auto simp: sensor_piece_def Let_def)
qed

end
