(* ===== verification/Sensor_Tool.thy ===== *)
theory Sensor_Tool
  imports Fake_Sensor
begin

text \<open>
  The command line tool \<open>myproject/app/sensor_tool.c\<close> and its composition with the driver of
  \<open>Fake_Sensor\<close>. The system calls are a state and functions on it, so that the tool can be run on
  the driver model itself; the guarantees of the driver and of the pair close the theory.
\<close>

section \<open>The tool\<close>

record 's sys =
  sys_ioctl :: "ioc \<Rightarrow> u8 list \<Rightarrow> 's \<Rightarrow> int \<times> u8 list \<times> 's"
  sys_poll :: "int \<Rightarrow> 's \<Rightarrow> int \<times> u32 \<times> 's"

datatype tool_line =
    T_usage | T_perror string | T_get string int | T_set string int
  | T_waiting | T_waiting_ms int | T_timeout | T_polled int u32 "string list" | T_alarm_event
  | T_status u32 u32 u32 u32 | T_missing string | T_cleared | T_triggered | T_bad_timeout | T_unknown string

definition do_get_int :: "'s sys \<Rightarrow> ioc \<Rightarrow> string \<Rightarrow> 's \<Rightarrow> int \<times> tool_line list \<times> 's" where
  "do_get_int K cmd name s = (case sys_ioctl K cmd (int_bytes 0) s of (r, u, s1) \<Rightarrow>
     if r < 0 then (- 1, [T_perror ''ioctl''], s1) else (0, [T_get name (int_of_bytes u)], s1))"

definition do_set_int :: "'s sys \<Rightarrow> ioc \<Rightarrow> string \<Rightarrow> string \<Rightarrow> 's \<Rightarrow> int \<times> tool_line list \<times> 's" where
  "do_set_int K cmd name arg s = (let val = atoi arg in case sys_ioctl K cmd (int_bytes val) s of (r, u, s1) \<Rightarrow>
     if r < 0 then (- 1, [T_perror ''ioctl''], s1) else (0, [T_set name val], s1))"

definition poll_names :: "u32 \<Rightarrow> string list" where
  "poll_names revents = (if revents AND 0x1 \<noteq> 0 then [''POLLIN''] else []) @ (if revents AND 0x40 \<noteq> 0 then [''POLLRDNORM''] else [])
     @ (if revents AND 0x8 \<noteq> 0 then [''POLLERR''] else []) @ (if revents AND 0x10 \<noteq> 0 then [''POLLHUP''] else [])
     @ (if revents AND 0x20 \<noteq> 0 then [''POLLNVAL''] else [])"

definition do_wait_alarm :: "'s sys \<Rightarrow> int \<Rightarrow> 's \<Rightarrow> int \<times> tool_line list \<times> 's" where
  "do_wait_alarm K timeout_ms s =
    (let pre = (if timeout_ms < 0 then [T_waiting] else [T_waiting_ms timeout_ms])
     in case sys_poll K timeout_ms s of (ret, revents, s1) \<Rightarrow>
        if ret < 0 then (- 1, pre @ [T_perror ''poll''], s1)
        else if ret = 0 then (0, pre @ [T_timeout], s1)
        else (0, pre @ [T_polled ret revents (poll_names revents)]
                @ (if revents AND (POLLIN OR POLLRDNORM) \<noteq> 0 then [T_alarm_event] else []), s1))"

text \<open>The exits of \<open>main\<close>: a command that failed, and a wrong use.\<close>

definition tool_end :: "int \<times> tool_line list \<times> 's \<Rightarrow> tool_line list \<times> int \<times> 's" where
  "tool_end x = (case x of (r, out, s) \<Rightarrow> (out, if r < 0 then 1 else 0, s))"

definition tool_set :: "'s sys \<Rightarrow> string list \<Rightarrow> ioc \<Rightarrow> string \<Rightarrow> string \<Rightarrow> 's \<Rightarrow> tool_line list \<times> int \<times> 's" where
  "tool_set K argv cmd name full s = (if length argv < 4 then ([T_missing full, T_usage], 1, s)
     else tool_end (do_set_int K cmd name (argv ! 3) s))"

definition tool_ctl :: "'s sys \<Rightarrow> ioc \<Rightarrow> tool_line \<Rightarrow> 's \<Rightarrow> tool_line list \<times> int \<times> 's" where
  "tool_ctl K cmd ok s = (case sys_ioctl K cmd [] s of (r, u, s1) \<Rightarrow>
     if r < 0 then ([T_perror ''ioctl''], 1, s1) else ([ok], 0, s1))"

definition tool_main :: "'s sys \<Rightarrow> int \<Rightarrow> string list \<Rightarrow> 's \<Rightarrow> tool_line list \<times> int \<times> 's" where
  "tool_main K fd argv s =
    (if length argv < 3 then ([T_usage], 1, s)
     else if fd < 0 then ([T_perror ''open''], 1, s)
     else let c = argv ! 2
          in if c = ''get_status'' then
               (case sys_ioctl K MYSENSOR_IOC_GET_STATUS (replicate 16 0) s of (r, u, s1) \<Rightarrow>
                  if r < 0 then ([T_perror ''ioctl''], 1, s1)
                  else ([T_status (of_nat (le_value (take 4 u))) (of_nat (le_value (take 4 (drop 4 u))))
                           (of_nat (le_value (take 4 (drop 8 u)))) (of_nat (le_value (take 4 (drop 12 u))))], 0, s1))
             else if c = ''get_temp'' then tool_end (do_get_int K MYSENSOR_IOC_GET_TEMP ''temp'' s)
             else if c = ''get_humidity'' then tool_end (do_get_int K MYSENSOR_IOC_GET_HUMIDITY ''humidity'' s)
             else if c = ''get_threshold'' then tool_end (do_get_int K MYSENSOR_IOC_GET_THRESHOLD ''threshold'' s)
             else if c = ''get_alarm'' then tool_end (do_get_int K MYSENSOR_IOC_GET_ALARM ''alarm'' s)
             else if c = ''set_temp'' then tool_set K argv MYSENSOR_IOC_SET_TEMP ''temp'' ''set_temp'' s
             else if c = ''set_humidity'' then tool_set K argv MYSENSOR_IOC_SET_HUMIDITY ''humidity'' ''set_humidity'' s
             else if c = ''set_threshold'' then tool_set K argv MYSENSOR_IOC_SET_THRESHOLD ''threshold'' ''set_threshold'' s
             else if c = ''clear_alarm'' then tool_ctl K MYSENSOR_IOC_CLEAR_ALARM T_cleared s
             else if c = ''trigger_alarm'' then tool_ctl K MYSENSOR_IOC_TRIGGER_ALARM T_triggered s
             else if c = ''wait_alarm'' then tool_end (do_wait_alarm K (- 1) s)
             else if c = ''wait_alarm_timeout'' then
               (if length argv < 4 then ([T_missing ''wait_alarm_timeout'', T_usage], 1, s)
                else if atoi (argv ! 3) < 0 then ([T_bad_timeout], 1, s)
                else tool_end (do_wait_alarm K (atoi (argv ! 3)) s))
             else ([T_unknown c, T_usage], 1, s))"

section \<open>The tool on the driver\<close>

text \<open>
  System calls answered by the driver: an error becomes \<open>-1\<close>; a \<open>poll\<close> returns at once when the
  device is ready and otherwise after the time given (nobody else raises the alarm meanwhile).
\<close>

definition driver_sys :: "mysensor_t sys" where
  "driver_sys = \<lparr>sys_ioctl = (\<lambda>cmd u d. case device_unlocked_ioctl 0 cmd u d of (r, u', d') \<Rightarrow>
       (if r < 0 then - 1 else r, u', d')),
     sys_poll = (\<lambda>ms d. (if device_poll d \<noteq> 0 then 1 else 0, device_poll d, d))\<rparr>"

lemma length_int_bytes [simp]: "length (int_bytes x) = 4"
  by (simp add: int_bytes_def)

lemma sint_of_int_s32 [simp]: "is_s32 x \<Longrightarrow> sint (word_of_int x :: u32) = x"
  by (simp add: signed_of_int is_s32_def signed_take_bit_int_eq_self)

lemma int_bytes_roundtrip [bytes_simps]: "is_s32 x \<Longrightarrow> int_of_bytes (int_bytes x @ r) = x"
  by (simp add: int_of_bytes_def int_bytes_def bytes_simps)

lemma int_of_bytes_zero: "int_of_bytes (replicate 4 0) = 0"
  by (simp add: int_of_bytes_def numeral_eq_Suc)

lemma cpy2kernel_int [bytes_simps]: "is_s32 x \<Longrightarrow> int_of_bytes (fst (cpy2kernel 0 (int_bytes x) 4)) = x"
  using int_bytes_roundtrip [of x "[]"] by (simp add: cpy2kernel_def)

lemma cpy2user_int [bytes_simps]:
  "is_s32 x \<Longrightarrow> length u = 4 \<Longrightarrow> int_of_bytes (fst (cpy2user 0 u (int_bytes x) 4)) = x"
  using int_bytes_roundtrip [of x "[]"] by (simp add: cpy2user_def memcpy_at_def)

section \<open>Guarantees\<close>

text \<open>
  C25: probing a device takes the lowest free of the four minors, or fails with \<open>-EINVAL\<close> when all
  are taken; every failing probe leaves the pool as it was, and removing the device right after a
  successful probe restores it, so no minor is ever lost or given twice.
\<close>

theorem probe_minor_pool:
  assumes ok: "minors_ok s"
  shows "case myssdrv_probe e s of (ret, calls, s', dev) \<Rightarrow>
      (minors_used s = {..<4} \<longrightarrow> ret = - EINVAL)
    \<and> (ret \<noteq> 0 \<longrightarrow> s' = s \<and> dev = None)
    \<and> (ret = 0 \<longrightarrow> (\<exists>k d. dev = Some d \<and> sn_minor d = int k \<and> k < 4 \<and> k \<notin> minors_used s \<and> (\<forall>j < k. j \<in> minors_used s)
         \<and> minors_ok s' \<and> minors_used s' = insert k (minors_used s) \<and> snd (myssdrv_remove d s') = s))"
proof (cases "minors_used s = {..<4}")
  case True
  with mp.get_full [OF ok] show ?thesis by (simp add: myssdrv_probe_def)
next
  case False
  from mp.get_fresh [OF ok this] obtain k s1 where k: "get_minor s = (int k, s1)" "k < 4" "k \<notin> minors_used s"
    "\<forall>j < k. j \<in> minors_used s" "minors_used s1 = insert k (minors_used s)" "minors_ok s1" by blast
  have len: "length (avaliable_minor s) = 4" and c: "0 \<le> devcount s" "devcount s \<le> 4"
    using ok card_minors_used [of s] by (simp_all add: minors_ok_def)
  have "s1 = s\<lparr>avaliable_minor := (avaliable_minor s)[k := 1], devcount := s32 (devcount s + 1)\<rparr>"
    using get_minor_loop_spec [OF len, of 0] k(1) False by (auto simp: get_minor_def)
  moreover have "avaliable_minor s ! k = 0" using k(2,3) len by (simp add: minors_used_def)
  moreover from this have "(avaliable_minor s)[k := 0] = avaliable_minor s" by (metis list_update_id)
  ultimately have "return_minor (int k) s1 = s"
    using k(2) c by (cases s) (simp add: return_minor_def DEVCOUNT_def)
  with k False show ?thesis by (auto simp: myssdrv_probe_def myssdrv_remove_def split: if_splits)
qed

theorem probe_minor_pool_witness:
  "case myssdrv_probe \<lparr>fs_alloc = True, fs_cdev_add = - 16, fs_device_create = 1\<rparr> \<lparr>avaliable_minor = [0, 0, 0, 0], devcount = 0\<rparr>
    of (ret, calls, s', dev) \<Rightarrow> ret \<noteq> 0 \<and> s' = \<lparr>avaliable_minor = [0, 0, 0, 0], devcount = 0\<rparr>"
proof -
  have ok: "minors_ok \<lparr>avaliable_minor = [0, 0, 0, 0], devcount = 0\<rparr>"
    by (simp add: minors_ok_def minors_used_def nth_Cons' less_Suc_eq)
  have "minors_used \<lparr>avaliable_minor = [0, 0, 0, 0], devcount = 0\<rparr> = {}"
    by (auto simp: minors_used_def nth_Cons' less_Suc_eq)
  moreover have "{..<4 :: nat} \<noteq> {}" by (simp add: lessThan_empty_iff)
  ultimately obtain k s1 where "get_minor \<lparr>avaliable_minor = [0, 0, 0, 0], devcount = 0\<rparr> = (int k, s1)"
    using mp.get_fresh [OF ok] by metis
  with probe_minor_pool [OF ok, of "\<lparr>fs_alloc = True, fs_cdev_add = - 16, fs_device_create = 1\<rparr>"]
  show ?thesis by (simp add: myssdrv_probe_def)
qed

text \<open>
  C26: setting the temperature stores it and latches the alarm when the stored word exceeds the
  threshold. The comparison is unsigned: for a threshold up to \<open>INT_MAX\<close> every negative temperature
  raises the alarm. \<open>poll\<close> reports exactly the alarm, sleepers are woken when it is set, clearing
  drops it, and changing the threshold never changes it.
\<close>

theorem set_temp_alarm:
  assumes v: "is_s32 v" and lim: "uint (ms_threshold (sn_stat d)) < 2 ^ 31"
  shows "case device_unlocked_ioctl 0 MYSENSOR_IOC_SET_TEMP (int_bytes v) d of (ret, u, d') \<Rightarrow>
      ret = 0 \<and> get_temp (sn_stat d') = v
    \<and> (get_alm (sn_stat d') \<noteq> 0 \<longleftrightarrow> get_alm (sn_stat d) \<noteq> 0 \<or> v < 0 \<or> v > uint (ms_threshold (sn_stat d)))
    \<and> (device_poll d' \<noteq> 0 \<longleftrightarrow> get_alm (sn_stat d') \<noteq> 0)
    \<and> (get_alm (sn_stat d') \<noteq> 0 \<longrightarrow> sn_wakes d' = Suc (sn_wakes d))
    \<and> get_alm (sn_stat (snd (snd (device_unlocked_ioctl n MYSENSOR_IOC_CLEAR_ALARM w d')))) = 0
    \<and> get_alm (sn_stat (snd (snd (device_unlocked_ioctl n MYSENSOR_IOC_SET_THRESHOLD w d')))) = get_alm (sn_stat d')"
proof -
  have "uint (word_of_int v :: u32) = (if v < 0 then v + 2 ^ 32 else v)"
  proof (cases "v < 0")
    case True
    with v have "v mod 4294967296 = (v + 4294967296) mod 4294967296" "(v + 4294967296) mod 4294967296 = v + 4294967296"
      by (simp, intro mod_pos_pos_trivial) (simp_all add: is_s32_def)
    with True show ?thesis by (simp add: uint_word_of_int)
  next
    case False
    with v show ?thesis by (simp add: uint_word_of_int is_s32_def)
  qed
  then have cmp: "(word_of_int v :: u32) > ms_threshold (sn_stat d) \<longleftrightarrow> v < 0 \<or> v > uint (ms_threshold (sn_stat d))"
    using v lim by (auto simp: word_less_def is_s32_def)
  have wk: "sn_stat (wake_if b e) = sn_stat e" for b e by (simp add: wake_if_def)
  show ?thesis
    using v cmp
    by (simp add: device_unlocked_ioctl_def sensor_cmds cpy2kernel_int Let_def wk)
      (auto simp: sensor_ops device_poll_def wake_if_def Let_def)
qed

theorem set_temp_alarm_witness:
  "get_alm (sn_stat (snd (snd (device_unlocked_ioctl 0 MYSENSOR_IOC_SET_TEMP (int_bytes (- 5))
     \<lparr>sn_stat = \<lparr>ms_temp = 2, ms_humidity = 4, ms_threshold = 100, ms_alarm = 0\<rparr>, sn_minor = 0, sn_wakes = 0\<rparr>)))) \<noteq> 0"
  using set_temp_alarm [where n = 0 and w = "[]", of "- 5" "\<lparr>sn_stat = \<lparr>ms_temp = 2, ms_humidity = 4, ms_threshold = 100, ms_alarm = 0\<rparr>, sn_minor = 0, sn_wakes = 0\<rparr>"]
  by (simp add: is_s32_def case_prod_unfold)

text \<open>
  A fault of the user copy is never reported: every known command returns 0 whatever part of
  the copy failed. A get whose copy fails leaves the caller's value as it was, and a set of the
  temperature whose copy fails stores 0.
\<close>

theorem ioctl_hides_faults:
  assumes "cmd \<in> {MYSENSOR_IOC_GET_STATUS, MYSENSOR_IOC_GET_TEMP, MYSENSOR_IOC_GET_HUMIDITY,
      MYSENSOR_IOC_GET_THRESHOLD, MYSENSOR_IOC_GET_ALARM, MYSENSOR_IOC_SET_TEMP, MYSENSOR_IOC_SET_HUMIDITY,
      MYSENSOR_IOC_SET_THRESHOLD, MYSENSOR_IOC_CLEAR_ALARM, MYSENSOR_IOC_TRIGGER_ALARM}"
  shows "fst (device_unlocked_ioctl left cmd u d) = 0
    \<and> device_unlocked_ioctl 4 MYSENSOR_IOC_GET_TEMP u d = (0, u, d)
    \<and> ms_temp (sn_stat (snd (snd (device_unlocked_ioctl 4 MYSENSOR_IOC_SET_TEMP u d)))) = 0
    \<and> fst (device_unlocked_ioctl left (IO 77 10) u d) = - EINVAL"
proof -
  have "int_of_bytes (fst (cpy2kernel 4 u 4)) = 0" by (simp add: cpy2kernel_def int_of_bytes_zero)
  then show ?thesis
    using assms by (auto simp: device_unlocked_ioctl_def sensor_cmds Let_def cpy2user_def set_temp_def wake_if_def)
qed

theorem ioctl_hides_faults_witness:
  "fst (device_unlocked_ioctl 4 MYSENSOR_IOC_GET_TEMP [1, 2, 3, 4]
     \<lparr>sn_stat = \<lparr>ms_temp = 2, ms_humidity = 4, ms_threshold = 100, ms_alarm = 0\<rparr>, sn_minor = 0, sn_wakes = 0\<rparr>) = 0"
  using ioctl_hides_faults [of MYSENSOR_IOC_GET_TEMP 4] by simp

text \<open>
  Reading the device from the start in pieces of any sizes gives the message
  \<open>temp=<t> humidity=<h> alarm=<a>\<close> of the current state, at most 56 characters of the 128 of its
  static buffer; the read at its end returns 0 and rewinds the offset.
\<close>

theorem device_read_message:
  assumes cs: "\<forall>c \<in> set cs. 0 < c" "length (sensor_message (sn_stat d)) \<le> sum_list cs" and m: "length message = 128"
  shows "sread.read_until d cs 0 = sensor_message (sn_stat d) \<and> length (sensor_message (sn_stat d)) \<le> 56
    \<and> (\<exists>message'. device_read message cnt (length (sensor_message (sn_stat d))) d = Some (0, [], message', 0))"
  using sread.read_until_all [OF cs(1), of d] cs(2) length_sensor_message [of "sn_stat d"]
    device_read_at [OF m, of "length (sensor_message (sn_stat d))" d cnt]
  by (auto simp: Let_def)

theorem device_read_message_witness:
  "sread.read_until \<lparr>sn_stat = \<lparr>ms_temp = 2, ms_humidity = 4, ms_threshold = 100, ms_alarm = 0\<rparr>, sn_minor = 0, sn_wakes = 0\<rparr> [10, 100] 0
     = ''temp=2 humidity=4 alarm=0'' @ [CHR 0x0A]"
proof -
  let ?d = "\<lparr>sn_stat = \<lparr>ms_temp = 2, ms_humidity = 4, ms_threshold = 100, ms_alarm = 0\<rparr>, sn_minor = 0, sn_wakes = 0\<rparr>"
  have "sensor_message (sn_stat ?d) = ''temp=2 humidity=4 alarm=0'' @ [CHR 0x0A]" by code_simp
  moreover have "\<forall>c \<in> set [10, 100]. 0 < (c :: nat)" by simp
  ultimately show ?thesis
    using device_read_message [of "[10, 100]" ?d "replicate 128 CHR 0x00" 1] by simp
qed

text \<open>The commands of the round trip, one by one.\<close>

lemma tool_main_set:
  "tool_main K 3 [p, dev, ''set_temp'', a] s = tool_end (do_set_int K MYSENSOR_IOC_SET_TEMP ''temp'' a s)"
  "tool_main K 3 [p, dev, ''set_humidity'', a] s = tool_end (do_set_int K MYSENSOR_IOC_SET_HUMIDITY ''humidity'' a s)"
  "tool_main K 3 [p, dev, ''set_threshold'', a] s = tool_end (do_set_int K MYSENSOR_IOC_SET_THRESHOLD ''threshold'' a s)"
  by (simp_all add: tool_main_def tool_set_def)

lemma tool_main_get:
  "tool_main K 3 [p, dev, ''get_temp''] s = tool_end (do_get_int K MYSENSOR_IOC_GET_TEMP ''temp'' s)"
  "tool_main K 3 [p, dev, ''get_humidity''] s = tool_end (do_get_int K MYSENSOR_IOC_GET_HUMIDITY ''humidity'' s)"
  "tool_main K 3 [p, dev, ''get_threshold''] s = tool_end (do_get_int K MYSENSOR_IOC_GET_THRESHOLD ''threshold'' s)"
  by (simp_all add: tool_main_def)

lemma do_set_int_driver:
  assumes "is_s32 v"
  shows "do_set_int driver_sys MYSENSOR_IOC_SET_TEMP n (print_d v) d
      = (0, [T_set n v], wake_if (get_alm (snd (set_temp (sn_stat d) v)) \<noteq> 0) (d\<lparr>sn_stat := snd (set_temp (sn_stat d) v)\<rparr>))"
    "do_set_int driver_sys MYSENSOR_IOC_SET_HUMIDITY n (print_d v) d = (0, [T_set n v], d\<lparr>sn_stat := snd (set_hum (sn_stat d) v)\<rparr>)"
    "do_set_int driver_sys MYSENSOR_IOC_SET_THRESHOLD n (print_d v) d
      = (0, [T_set n v], wake_if (get_alm (snd (set_lim (sn_stat d) v)) \<noteq> 0) (d\<lparr>sn_stat := snd (set_lim (sn_stat d) v)\<rparr>))"
  using assms by (simp_all add: do_set_int_def driver_sys_def device_unlocked_ioctl_def sensor_cmds atoi_print_d
      cpy2kernel_int Let_def)

lemma do_get_int_driver:
  "do_get_int driver_sys MYSENSOR_IOC_GET_TEMP n d = (0, [T_get n (get_temp (sn_stat d))], d)"
  "do_get_int driver_sys MYSENSOR_IOC_GET_HUMIDITY n d = (0, [T_get n (get_hum (sn_stat d))], d)"
  "do_get_int driver_sys MYSENSOR_IOC_GET_THRESHOLD n d = (0, [T_get n (get_lim (sn_stat d))], d)"
  by (simp_all add: do_get_int_def driver_sys_def device_unlocked_ioctl_def sensor_cmds sensor_ops cpy2user_int)

lemma sn_stat_wake_if [simp]: "sn_stat (wake_if b d) = sn_stat d"
  by (simp add: wake_if_def)

lemma get_after_set:
  "is_s32 v \<Longrightarrow> get_temp (snd (set_temp st v)) = v" "is_s32 v \<Longrightarrow> get_hum (snd (set_hum st v)) = v"
  "is_s32 v \<Longrightarrow> get_lim (snd (set_lim st v)) = v"
  by (simp_all add: sensor_ops Let_def)

text \<open>
  C27: the tool and the driver agree: \<open>set_temp <v>\<close> followed by \<open>get_temp\<close> prints \<open>v\<close> for every \<open>int\<close>,
  with exit status 0 both times, and so do the humidity and threshold commands; after
  \<open>clear_alarm\<close>, \<open>wait_alarm_timeout\<close> times out, after \<open>trigger_alarm\<close> it reports the event.
\<close>

theorem tool_roundtrip:
  assumes v: "is_s32 v" and names: "(setc, getc, name) \<in> {(''set_temp'', ''get_temp'', ''temp''),
      (''set_humidity'', ''get_humidity'', ''humidity''), (''set_threshold'', ''get_threshold'', ''threshold'')}"
  shows "\<exists>d1. tool_main driver_sys 3 [p, dev, setc, print_d v] d = ([T_set name v], 0, d1)
      \<and> tool_main driver_sys 3 [p, dev, getc] d1 = ([T_get name v], 0, d1)
      \<and> tool_main driver_sys 3 [p, dev, ''wait_alarm_timeout'', ''5''] (snd (snd (tool_main driver_sys 3 [p, dev, ''clear_alarm''] d1)))
        = ([T_waiting_ms 5, T_timeout], 0, snd (snd (tool_main driver_sys 3 [p, dev, ''clear_alarm''] d1)))
      \<and> fst (tool_main driver_sys 3 [p, dev, ''wait_alarm_timeout'', ''5''] (snd (snd (tool_main driver_sys 3 [p, dev, ''trigger_alarm''] d1))))
        = [T_waiting_ms 5, T_polled 1 0x41 [''POLLIN'', ''POLLRDNORM''], T_alarm_event]"
proof -
  have five: "atoi ''5'' = 5" by code_simp
  have setget: "\<exists>d1. tool_main driver_sys 3 [p, dev, setc, print_d v] d = ([T_set name v], 0, d1)
      \<and> tool_main driver_sys 3 [p, dev, getc] d1 = ([T_get name v], 0, d1)"
    using names v
    by (auto simp: tool_main_set tool_main_get do_set_int_driver do_get_int_driver tool_end_def get_after_set)
  have wait: "tool_main driver_sys 3 [p, dev, ''wait_alarm_timeout'', ''5''] (snd (snd (tool_main driver_sys 3 [p, dev, ''clear_alarm''] e)))
        = ([T_waiting_ms 5, T_timeout], 0, snd (snd (tool_main driver_sys 3 [p, dev, ''clear_alarm''] e)))"
    "fst (tool_main driver_sys 3 [p, dev, ''wait_alarm_timeout'', ''5''] (snd (snd (tool_main driver_sys 3 [p, dev, ''trigger_alarm''] e))))
        = [T_waiting_ms 5, T_polled 1 0x41 [''POLLIN'', ''POLLRDNORM''], T_alarm_event]" for e
    by (simp_all add: tool_main_def tool_ctl_def tool_end_def do_wait_alarm_def driver_sys_def five poll_names_def
        device_unlocked_ioctl_def sensor_cmds device_poll_def sensor_ops)
  from setget wait show ?thesis by blast
qed

theorem tool_roundtrip_witness:
  "\<exists>d1. tool_main driver_sys 3 [''sensor_tool'', ''/dev/mychardev0'', ''set_temp'', ''-7'']
      \<lparr>sn_stat = \<lparr>ms_temp = 2, ms_humidity = 4, ms_threshold = 100, ms_alarm = 0\<rparr>, sn_minor = 0, sn_wakes = 0\<rparr> = ([T_set ''temp'' (- 7)], 0, d1)
    \<and> tool_main driver_sys 3 [''sensor_tool'', ''/dev/mychardev0'', ''get_temp''] d1 = ([T_get ''temp'' (- 7)], 0, d1)"
proof -
  have p: "print_d (- 7) = ''-7''" by code_simp
  have v: "is_s32 (- 7)" by (simp add: is_s32_def)
  show ?thesis
    using tool_roundtrip [OF v, of "''set_temp''" "''get_temp''" "''temp''" "''sensor_tool''" "''/dev/mychardev0''"
      "\<lparr>sn_stat = \<lparr>ms_temp = 2, ms_humidity = 4, ms_threshold = 100, ms_alarm = 0\<rparr>, sn_minor = 0, sn_wakes = 0\<rparr>"]
    unfolding p by auto
qed

end
