(* ===== verification/Chardev.thy ===== *)
theory Chardev
  imports Text_Reader Kernel_Resources
begin

text \<open>
  The three introductory character devices under \<open>chardev/\<close>: \<open>rdonly/chardev.c\<close> (one opener at a
  time, a greeting with a counter), \<open>rdwr/charrw.c\<close> (one kernel buffer written and read), and
  \<open>ioctl/charioctl.c\<close> with its user program. Memory accesses outside a buffer are the value \<open>None\<close>.
\<close>

section \<open>rdonly\<close>

record rdonly =
  ro_open :: bool
  ro_msg :: string
  ro_counter :: int
  ro_users :: nat

definition greeting :: "int \<Rightarrow> string" where
  "greeting n = ''I already told you '' @ print_d n @ '' times Hello world!'' @ [CHR 0x0A]"

text \<open>\<open>got\<close> is what \<open>try_module_get\<close> returned, which the code ignores.\<close>

definition ro_device_open :: "bool \<Rightarrow> rdonly \<Rightarrow> (int \<times> rdonly) option" where
  "ro_device_open got s =
    (if ro_open s then Some (- EBUSY, s)
     else let txt = greeting (ro_counter s) @ [CHR 0x00]
          in if length txt > length (ro_msg s) then None
             else Some (0, s\<lparr>ro_open := True, ro_msg := memcpy_at (ro_msg s) 0 txt,
                            ro_counter := s32 (ro_counter s + 1), ro_users := if got then Suc (ro_users s) else ro_users s\<rparr>))"

definition ro_device_release :: "rdonly \<Rightarrow> int \<times> rdonly" where
  "ro_device_release s = (0, s\<lparr>ro_open := False, ro_users := ro_users s - 1\<rparr>)"

definition ro_device_read :: "rdonly \<Rightarrow> nat \<Rightarrow> nat \<Rightarrow> (int \<times> string \<times> nat) option" where
  "ro_device_read s cnt off = message_read (ro_msg s) cnt off"

definition ro_device_write :: "rdonly \<Rightarrow> int" where
  "ro_device_write s = - EINVAL"

definition ro_chardev_init :: "int \<Rightarrow> int \<times> kcall list" where
  "ro_chardev_init major = (if major < 0 then (major, [])
     else (0, [Acq (Named ''chrdev''), Acq Class, Use Class, Acq (Device 0)]))"

definition ro_chardev_exit :: "kcall list" where
  "ro_chardev_exit = [Use Class, Rel (Device 0), Rel Class, Rel (Named ''chrdev'')]"

definition ro_boot :: rdonly where
  "ro_boot = \<lparr>ro_open = False, ro_msg = replicate 81 CHR 0x00, ro_counter = 0, ro_users = 0\<rparr>"

text \<open>Openers and closers in any order; only a process whose open succeeded closes.\<close>

inductive ro_reach :: "rdonly \<Rightarrow> nat \<Rightarrow> bool" where
  boot: "ro_reach ro_boot 0"
| open_dev: "ro_reach s n \<Longrightarrow> ro_device_open got s = Some (ret, t) \<Longrightarrow> ro_reach t (if ret = 0 then Suc n else n)"
| close_dev: "ro_reach s (Suc n) \<Longrightarrow> ro_device_release s = (ret, t) \<Longrightarrow> ro_reach t n"

lemma length_greeting: "is_s32 n \<Longrightarrow> length (greeting n) \<le> 51"
  using length_print_d [of n] by (simp add: greeting_def)

lemma greeting_no_nul: "CHR 0x00 \<notin> set (greeting n)"
  using print_d_no_nul [of n] by (simp add: greeting_def)

lemma ro_reach_inv:
  "ro_reach s n \<Longrightarrow> length (ro_msg s) = 81 \<and> is_s32 (ro_counter s) \<and> ro_users s \<le> n \<and> n = (if ro_open s then 1 else 0)
     \<and> (ro_open s \<longrightarrow> (\<exists>c r. ro_msg s = greeting c @ CHR 0x00 # r \<and> ro_counter s = s32 (c + 1)))"
proof (induction rule: ro_reach.induct)
  case boot
  then show ?case by (simp add: ro_boot_def is_s32_def)
next
  case (open_dev s n got ret t)
  have len: "length (greeting (ro_counter s)) \<le> 51" using open_dev.IH by (simp add: length_greeting)
  show ?case
  proof (cases "ro_open s")
    case True
    with open_dev show ?thesis by (auto simp: ro_device_open_def)
  next
    case False
    have "memcpy_at (ro_msg s) 0 (greeting (ro_counter s) @ [CHR 0x00])
        = greeting (ro_counter s) @ CHR 0x00 # drop (Suc (length (greeting (ro_counter s)))) (ro_msg s)"
      by (simp add: memcpy_at_def)
    with False open_dev len show ?thesis
      by (auto simp: ro_device_open_def Let_def split: if_splits intro!: exI [of _ "ro_counter s"])
  qed
next
  case (close_dev s n ret t)
  then show ?case by (auto simp: ro_device_release_def split: if_splits)
qed

text \<open>
  Over any sequence of opens and closes at most one process has the device open, the module's
  use count is at most the number of openers, the greeting always fits its 81-byte buffer, and while the
  device is open, reading it in pieces of any sizes gives the whole greeting of that open.
\<close>

theorem rdonly_exclusive:
  assumes "ro_reach s n"
  shows "n \<le> 1 \<and> ro_users s \<le> n \<and> ro_device_open got s \<noteq> None
    \<and> (n = 1 \<longrightarrow> ro_device_open got s = Some (- EBUSY, s)
        \<and> (\<exists>c. text_reader (greeting c) (\<lambda>off cnt. case ro_device_read s cnt off of
              None \<Rightarrow> ([], 0) | Some (ret, out, off') \<Rightarrow> (out, off'))))"
proof -
  from ro_reach_inv [OF assms] have msg: "length (ro_msg s) = 81" and "is_s32 (ro_counter s)"
    and users: "ro_users s \<le> n" and n: "n = (if ro_open s then 1 else 0)"
    and gr: "ro_open s \<longrightarrow> (\<exists>c r. ro_msg s = greeting c @ CHR 0x00 # r \<and> ro_counter s = s32 (c + 1))"
    by blast+
  then have len: "length (greeting (ro_counter s)) \<le> 51" by (intro length_greeting)
  have rd: "\<exists>c. text_reader (greeting c) (\<lambda>off cnt. case ro_device_read s cnt off of
              None \<Rightarrow> ([], 0) | Some (ret, out, off') \<Rightarrow> (out, off'))" if "n = 1"
  proof -
    from that n have "ro_open s" by (cases "ro_open s") auto
    with gr obtain c r where "ro_msg s = greeting c @ CHR 0x00 # r" by blast
    from text_reader_message [OF greeting_no_nul this] show ?thesis
      unfolding ro_device_read_def by (rule exI)
  qed
  have "ro_device_open got s \<noteq> None" "ro_open s \<Longrightarrow> ro_device_open got s = Some (- EBUSY, s)"
    using msg len by (simp_all add: ro_device_open_def)
  moreover have "n \<le> 1" "n = 1 \<Longrightarrow> ro_open s" by (cases "ro_open s", simp_all add: n)+
  ultimately show ?thesis using rd users by blast
qed

theorem rdonly_exclusive_witness: "\<exists>t. ro_device_open True ro_boot = Some (0, t) \<and> ro_device_open False t = Some (- EBUSY, t)"
proof -
  obtain t where t: "ro_device_open True ro_boot = Some (0, t)"
    using length_greeting [of 0] by (auto simp: ro_device_open_def ro_boot_def is_s32_def Let_def)
  then have "ro_reach t 1" using ro_reach.open_dev [OF ro_reach.boot, of True 0 t] by simp
  from rdonly_exclusive [OF this] t show ?thesis by auto
qed

section \<open>rdwr\<close>

definition rw_mem_size :: nat where "rw_mem_size = 1024"

text \<open>\<open>left\<close> bytes of the user copy fail. The buffer is the list of its 1024 bytes.\<close>

definition mycdev_read :: "nat \<Rightarrow> string \<Rightarrow> nat \<Rightarrow> nat \<Rightarrow> (int \<times> string \<times> nat) option" where
  "mycdev_read left kbuf len off =
    (if \<not> terminated kbuf then None
     else let length1 = length (cstr kbuf)
          in if off \<noteq> 0 \<or> length1 = 0 then Some (0, [], 0)
             else let buffer_size = min len length1
                  in if left \<noteq> 0 then Some (- EFAULT, take (buffer_size - left) kbuf, off)
                     else Some (int buffer_size, take buffer_size kbuf, off + buffer_size))"

definition mycdev_write :: "nat \<Rightarrow> string \<Rightarrow> string \<Rightarrow> nat \<Rightarrow> int \<times> string" where
  "mycdev_write left kbuf u len =
    (let buffer_size = min len rw_mem_size
     in if left \<noteq> 0 then (- EFAULT, memcpy_at kbuf 0 (take (buffer_size - left) u @ replicate left CHR 0x00))
        else (int buffer_size, memcpy_at kbuf 0 (take buffer_size u)))"

record rw_env =
  rw_region :: int
  rw_cdev_add :: int
  rw_class :: int
  rw_device :: int
  rw_kmalloc :: bool

definition mycdev_init :: "rw_env \<Rightarrow> int \<times> kcall list \<times> string" where
  "mycdev_init e =
    (let r_class = [Rel Region]; r_device = Rel Class # r_class
     in if rw_region e < 0 then (- 1, [], [])
        else if rw_cdev_add e < 0 then (- 1, [Acq Region] @ r_class, [])
        else if IS_ERR (rw_class e) then (- 1, [Acq Region, Acq (Cdev 0)] @ r_class, [])
        else if IS_ERR (rw_device e) then (- 1, [Acq Region, Acq (Cdev 0), Acq Class, Use Class] @ r_device, [])
        else if \<not> rw_kmalloc e then
          (- 1, [Acq Region, Acq (Cdev 0), Acq Class, Use Class, Acq (Device 0)] @ r_device, [])
        else (0, [Acq Region, Acq (Cdev 0), Acq Class, Use Class, Acq (Device 0), Acq (Mem ''kernel_buffer'')],
              memcpy_at (replicate rw_mem_size CHR 0x00) 0 (''Hello world'' @ [CHR 0x00])))"

definition mycdev_exit :: "kcall list" where
  "mycdev_exit = [Rel (Mem ''kernel_buffer''), Use Class, Rel (Device 0), Rel Class, Rel (Cdev 0), Rel Region]"

lemma mycdev_init_exit: "fst (mycdev_init e) = 0 \<Longrightarrow> run_calls (fst (snd (mycdev_init e)) @ mycdev_exit) h = Some h"
  by (auto simp: mycdev_init_def mycdev_exit_def Let_def split: if_splits)

lemma cstr_append: "CHR 0x00 \<notin> set u \<Longrightarrow> cstr (u @ r) = u @ cstr r"
  unfolding cstr_def by (induction u) auto

text \<open>
  After a write of \<open>n < 1024\<close> bytes the next read from the start returns the written bytes
  followed by what is left of the old text beyond them: a shorter message does not end the buffer.
  A write of 1024 bytes leaves no terminator, and the next read runs past the end of the buffer.
\<close>

theorem rdwr_write_read:
  assumes k: "length kbuf = 1024" and u: "CHR 0x00 \<notin> set u" "length u = n" "0 < n" "n \<le> 1024"
    and last: "kbuf ! 1023 = CHR 0x00" and len: "1024 \<le> len"
  shows "fst (mycdev_write 0 kbuf u n) = int n
    \<and> (n < 1024 \<longrightarrow> mycdev_read 0 (snd (mycdev_write 0 kbuf u n)) len 0
         = Some (int (length (u @ cstr (drop n kbuf))), u @ cstr (drop n kbuf), length (u @ cstr (drop n kbuf))))
    \<and> (n = 1024 \<longrightarrow> mycdev_read 0 (snd (mycdev_write 0 kbuf u n)) len 0 = None)"
proof -
  have w: "mycdev_write 0 kbuf u n = (int n, u @ drop n kbuf)"
    using u by (simp add: mycdev_write_def rw_mem_size_def memcpy_at_def min_def)
  have full: "mycdev_read 0 (u @ drop n kbuf) len 0 = None" if "n = 1024"
    using that u k by (simp add: mycdev_read_def terminated_def)
  have part: "mycdev_read 0 (u @ drop n kbuf) len 0
      = Some (int (length (u @ cstr (drop n kbuf))), u @ cstr (drop n kbuf), length (u @ cstr (drop n kbuf)))" if "n < 1024"
  proof -
    have "drop n kbuf ! (1023 - n) = CHR 0x00" using that k last by simp
    moreover have "1023 - n < length (drop n kbuf)" using that k by simp
    ultimately have nul: "CHR 0x00 \<in> set (drop n kbuf)" by (metis nth_mem)
    have c: "cstr (u @ drop n kbuf) = u @ cstr (drop n kbuf)" using u(1) by (rule cstr_append)
    have "length (cstr (drop n kbuf)) \<le> length (drop n kbuf)" unfolding cstr_def by (rule length_takeWhile_le)
    then have le: "length (u @ cstr (drop n kbuf)) \<le> len" using u k len that by simp
    have "take (length (cstr x)) x = cstr x" for x by (simp add: cstr_def takeWhile_eq_take [symmetric])
    from this [of "u @ drop n kbuf"] show ?thesis
      using le nul u(2,3) unfolding mycdev_read_def c by (simp add: terminated_def min_def Let_def)
  qed
  from full part show ?thesis unfolding w fst_conv snd_conv by blast
qed

theorem rdwr_write_read_witness:
  "mycdev_read 0 (snd (mycdev_write 0 (''Hello world'' @ replicate 1013 CHR 0x00) ''Bye'' 3)) 2000 0
     = Some (11, ''Byelo world'', 11)
   \<and> mycdev_read 0 (snd (mycdev_write 0 (''Hello world'' @ replicate 1013 CHR 0x00) (replicate 1024 CHR ''x'') 1024)) 2000 0 = None"
proof -
  let ?k = "''Hello world'' @ replicate 1013 CHR 0x00"
  have k: "length ?k = 1024" "?k ! 1023 = CHR 0x00" by (simp_all add: nth_append)
  have "drop 3 ?k = ''lo world'' @ CHR 0x00 # replicate 1012 CHR 0x00"
    by (simp add: numeral_eq_Suc)
  then have c: "cstr (drop 3 ?k) = ''lo world''" by (simp only:) (rule cstr_term, simp)
  show ?thesis
    using rdwr_write_read [OF k(1) _ _ _ _ k(2), of "''Bye''" 3 2000] rdwr_write_read [OF k(1) _ _ _ _ k(2), of "replicate 1024 CHR ''x''" 1024 2000]
    unfolding c by simp
qed

section \<open>ioctl\<close>

definition IOCTL_SET_MSG :: ioc where "IOCTL_SET_MSG = IOW 100 0 8"
definition IOCTL_GET_MSG :: ioc where "IOCTL_GET_MSG = IOR 100 1 8"
definition IOCTL_GET_NTH_BYTE :: ioc where "IOCTL_GET_NTH_BYTE = IOWR 100 2 4"

lemmas char_cmds = IOCTL_SET_MSG_def IOCTL_GET_MSG_def IOCTL_GET_NTH_BYTE_def

record chardev2 =
  cd_busy :: bool
  cd_message :: string

text \<open>\<open>get_user\<close>: a byte of user memory, zero where it faults.\<close>

definition get_user :: "string \<Rightarrow> nat \<Rightarrow> char" where
  "get_user u i = (if i < length u then u ! i else CHR 0x00)"

text \<open>The copy loop of \<open>device_write\<close> from index \<open>i\<close>; its result is the array and the final index.\<close>

function write_loop :: "string \<Rightarrow> nat \<Rightarrow> nat \<Rightarrow> string \<Rightarrow> string \<times> nat" where
  "write_loop u len i m = (if i < len \<and> i < 80 then write_loop u len (i + 1) (m[i := get_user u i]) else (m, i))"
  by auto
termination by (relation "measure (\<lambda>(u, len, i, m). len - i)") auto

declare write_loop.simps [simp del]

definition cd_device_write :: "string \<Rightarrow> nat \<Rightarrow> chardev2 \<Rightarrow> int \<times> chardev2" where
  "cd_device_write u len s = (case write_loop u len 0 (cd_message s) of (m, i) \<Rightarrow> (int i, s\<lparr>cd_message := m\<rparr>))"

definition cd_device_read :: "chardev2 \<Rightarrow> nat \<Rightarrow> nat \<Rightarrow> (int \<times> string \<times> nat) option" where
  "cd_device_read s cnt off = message_read (cd_message s) cnt off"

text \<open>The loop of \<open>IOCTL_SET_MSG\<close> that finds the length: it reads the first byte twice.\<close>

function msg_len_loop :: "string \<Rightarrow> nat \<Rightarrow> char \<Rightarrow> nat" where
  "msg_len_loop u i ch = (if ch \<noteq> CHR 0x00 \<and> i < 80 then msg_len_loop u (i + 1) (get_user u i) else i)"
  by auto
termination by (relation "measure (\<lambda>(u, i, ch). 80 - i)") auto

declare msg_len_loop.simps [simp del]

text \<open>A \<open>char\<close> as the signed integer it is on the target machines.\<close>

definition schar :: "char \<Rightarrow> int" where
  "schar c = (if (of_char c :: nat) < 128 then int (of_char c) else int (of_char c) - 256)"

text \<open>
  \<open>device_ioctl\<close>: the parameter is a pointer to the user memory \<open>u\<close> or the number \<open>n\<close>. The result is
  the return value, the user memory and the device; \<open>None\<close> is a read outside \<open>message\<close>.
\<close>

definition device_ioctl :: "ioc \<Rightarrow> string \<Rightarrow> nat \<Rightarrow> chardev2 \<Rightarrow> (int \<times> string \<times> chardev2) option" where
  "device_ioctl cmd u n s =
    (if cd_busy s then Some (- EBUSY, u, s)
     else if cmd = IOCTL_SET_MSG then
       Some (0, u, (snd (cd_device_write u (msg_len_loop u 0 (get_user u 0)) s))\<lparr>cd_busy := False\<rparr>)
     else if cmd = IOCTL_GET_MSG then
       (case cd_device_read s 99 0 of None \<Rightarrow> None
        | Some (i, out, off) \<Rightarrow> Some (0, memcpy_at u 0 (out @ [CHR 0x00]), s\<lparr>cd_busy := False\<rparr>))
     else if cmd = IOCTL_GET_NTH_BYTE then
       (if n < length (cd_message s) then Some (schar (cd_message s ! n), u, s\<lparr>cd_busy := False\<rparr>) else None)
     else Some (0, u, s\<lparr>cd_busy := False\<rparr>))"

definition chardev2_init :: "int \<Rightarrow> int \<times> kcall list" where
  "chardev2_init ret_val = (if ret_val < 0 then (ret_val, [])
     else (0, [Acq (Named ''chrdev''), Acq Class, Use Class, Acq (Device 0)]))"

definition chardev2_exit :: "kcall list" where
  "chardev2_exit = [Use Class, Rel (Device 0), Rel Class, Rel (Named ''chrdev'')]"

section \<open>The user program of ioctl\<close>

datatype char_line = C_cannot_open int | C_set_failed int | C_get_failed int | C_get string | C_nth string | C_nth_failed nat

text \<open>System calls of the driver as the program sees them: errors are \<open>-1\<close>.\<close>

definition sys_char :: "int \<Rightarrow> int" where
  "sys_char r = (if r < 0 then - 1 else r)"

definition ioctl_set_msg :: "string \<Rightarrow> chardev2 \<Rightarrow> (int \<times> char_line list \<times> chardev2) option" where
  "ioctl_set_msg m s = (case device_ioctl IOCTL_SET_MSG (m @ [CHR 0x00]) 0 s of None \<Rightarrow> None
     | Some (r, u, s1) \<Rightarrow> Some (sys_char r, if sys_char r < 0 then [C_set_failed (sys_char r)] else [], s1))"

definition ioctl_get_msg :: "chardev2 \<Rightarrow> (int \<times> char_line list \<times> chardev2) option" where
  "ioctl_get_msg s = (case device_ioctl IOCTL_GET_MSG (replicate 100 CHR 0x00) 0 s of None \<Rightarrow> None
     | Some (r, u, s1) \<Rightarrow>
         if length u > 100 then None
         else Some (sys_char r, (if sys_char r < 0 then [C_get_failed (sys_char r)] else []) @ [C_get (cstr u)], s1))"

text \<open>The do-while loop of \<open>ioctl_get_nth_byte\<close>, with fuel: the characters printed, the result.\<close>

fun nth_byte_loop :: "nat \<Rightarrow> nat \<Rightarrow> chardev2 \<Rightarrow> (string \<times> int \<times> nat \<times> chardev2) option" where
  "nth_byte_loop 0 i s = None"
| "nth_byte_loop (Suc fuel) i s = (case device_ioctl IOCTL_GET_NTH_BYTE [] i s of None \<Rightarrow> None
     | Some (r, u, s1) \<Rightarrow>
         let c = sys_char r
         in if c < 0 then Some ([], c, i + 1, s1)
            else if c = 0 then Some ([char_of (nat c)], 0, i + 1, s1)
            else (case nth_byte_loop fuel (i + 1) s1 of None \<Rightarrow> None
                  | Some (cs, ret, j, s2) \<Rightarrow> Some (char_of (nat c) # cs, ret, j, s2)))"

definition ioctl_get_nth_byte :: "nat \<Rightarrow> chardev2 \<Rightarrow> (int \<times> char_line list \<times> chardev2) option" where
  "ioctl_get_nth_byte fuel s = (case nth_byte_loop fuel 0 s of None \<Rightarrow> None
     | Some (cs, ret, j, s1) \<Rightarrow> Some (ret, C_nth cs # (if ret < 0 then [C_nth_failed j] else []), s1))"

text \<open>\<open>main\<close>, for a message \<open>m\<close>: the lines and the exit status.\<close>

definition char_main :: "nat \<Rightarrow> int \<Rightarrow> string \<Rightarrow> chardev2 \<Rightarrow> (char_line list \<times> int \<times> chardev2) option" where
  "char_main fuel fd m s =
    (if fd < 0 then Some ([C_cannot_open fd], 1, s)
     else case ioctl_set_msg m s of None \<Rightarrow> None
     | Some (r1, o1, s1) \<Rightarrow> if r1 \<noteq> 0 then Some (o1, 1, s1)
       else (case ioctl_get_nth_byte fuel s1 of None \<Rightarrow> None
       | Some (r2, o2, s2) \<Rightarrow> if r2 \<noteq> 0 then Some (o1 @ o2, 1, s2)
         else (case ioctl_get_msg s2 of None \<Rightarrow> None
         | Some (r3, o3, s3) \<Rightarrow> Some (o1 @ o2 @ o3, if r3 \<noteq> 0 then 1 else 0, s3))))"

lemma msg_len_loop_eq:
  assumes "CHR 0x00 \<notin> set m" "u = m @ [CHR 0x00]" "i \<le> length m" "ch \<noteq> CHR 0x00"
  shows "msg_len_loop u i ch = (if i \<le> 80 then min 80 (length m + 1) else i)"
  using assms
proof (induction u i ch rule: msg_len_loop.induct)
  case (1 u i ch)
  show ?case
  proof (cases "i < 80")
    case False
    then show ?thesis by (subst msg_len_loop.simps) (use "1.prems" in auto)
  next
    case True
    show ?thesis
    proof (cases "i = length m")
      case iL: True
      then have "get_user u i = CHR 0x00" using "1.prems" by (simp add: get_user_def)
      then have "msg_len_loop u (i + 1) (get_user u i) = i + 1" by (subst msg_len_loop.simps) simp
      with True iL "1.prems" show ?thesis by (subst msg_len_loop.simps) simp
    next
      case False
      with "1.prems" have lt: "i < length m" by simp
      then have g: "get_user u i \<in> set m" using "1.prems" by (simp add: get_user_def nth_append)
      then have "get_user u i \<noteq> CHR 0x00" using "1.prems"(1) by auto
      with "1.IH" True "1.prems" lt have "msg_len_loop u (i + 1) (get_user u i) = min 80 (length m + 1)" by simp
      with True "1.prems"(4) show ?thesis by (subst msg_len_loop.simps) simp
    qed
  qed
qed

lemma write_loop_eq:
  assumes "length m = 81" "len \<le> 80" "len \<le> length u" "i \<le> len"
  shows "write_loop u len i m = (take i m @ take (len - i) (drop i u) @ drop len m, len)"
  using assms
proof (induction u len i m rule: write_loop.induct)
  case (1 u len i m)
  show ?case
  proof (cases "i < len")
    case False
    with "1.prems" show ?thesis by (subst write_loop.simps) simp
  next
    case True
    let ?m = "m[i := get_user u i]"
    have IH: "write_loop u len (i + 1) ?m = (take (i + 1) ?m @ take (len - (i + 1)) (drop (i + 1) u) @ drop len ?m, len)"
      using "1.prems" True by (intro "1.IH") auto
    have "take (i + 1) ?m = take i m @ [u ! i]" using True "1.prems" by (simp add: get_user_def take_Suc_conv_app_nth)
    moreover have "take (len - i) (drop i u) = u ! i # take (len - (i + 1)) (drop (i + 1) u)"
      using True "1.prems" by (simp add: Cons_nth_drop_Suc [symmetric] Suc_diff_Suc [symmetric])
    ultimately show ?thesis using IH True "1.prems" by (subst write_loop.simps) simp
  qed
qed

text \<open>Setting a message of at most 80 characters that is not empty.\<close>

lemma set_msg_stores:
  assumes "CHR 0x00 \<notin> set m" "m \<noteq> []" "length m \<le> 80" "length (cd_message s) = 81"
    and last: "cd_message s ! 80 = CHR 0x00" and idle: "\<not> cd_busy s"
  shows "\<exists>r. device_ioctl IOCTL_SET_MSG (m @ [CHR 0x00]) n s
      = Some (0, m @ [CHR 0x00], \<lparr>cd_busy = False, cd_message = m @ CHR 0x00 # r\<rparr>) \<and> length (m @ CHR 0x00 # r) = 81"
proof -
  let ?u = "m @ [CHR 0x00]"
  have "get_user ?u 0 \<in> set m" using assms(2) by (cases m) (simp_all add: get_user_def)
  then have "get_user ?u 0 \<noteq> CHR 0x00" using assms(1) by auto
  then have len: "msg_len_loop ?u 0 (get_user ?u 0) = min 80 (length m + 1)"
    using msg_len_loop_eq [OF assms(1) refl, of 0] by simp
  let ?l = "min 80 (length m + 1)"
  have w: "write_loop ?u ?l 0 (cd_message s) = (take ?l ?u @ drop ?l (cd_message s), ?l)"
    using write_loop_eq [of "cd_message s" ?l ?u 0] assms by simp
  have "\<exists>r. take ?l ?u @ drop ?l (cd_message s) = m @ CHR 0x00 # r \<and> length (m @ CHR 0x00 # r) = 81"
  proof (cases "length m = 80")
    case True
    have "drop 80 (cd_message s) = [CHR 0x00]"
      using assms(4) last by (simp add: Cons_nth_drop_Suc [symmetric])
    with True show ?thesis by (intro exI [of _ "[]"]) simp
  next
    case False
    with assms(3) have "?l = length m + 1" by simp
    with assms(4) False assms(3) show ?thesis by (intro exI [of _ "drop (length m + 1) (cd_message s)"]) simp
  qed
  then obtain r where "take ?l ?u @ drop ?l (cd_message s) = m @ CHR 0x00 # r" "length (m @ CHR 0x00 # r) = 81" by blast
  with w idle show ?thesis
    by (intro exI [of _ r]) (simp add: device_ioctl_def cd_device_write_def len)
qed

lemma char_of_zero: "char_of (0 :: nat) = CHR 0x00"
  by (simp add: char_of_def)

lemma nth_byte_loop_eq:
  assumes "cd_message s = m @ CHR 0x00 # r" "\<not> cd_busy s" "\<forall>c \<in> set m. 0 < (of_char c :: nat) \<and> of_char c < (128 :: nat)"
    "i \<le> length m" "length m - i < fuel"
  shows "nth_byte_loop fuel i s = Some (drop i m @ [CHR 0x00], 0, length m + 1, s)"
  using assms
proof (induction fuel i s rule: nth_byte_loop.induct)
  case (1 i s)
  then show ?case by simp
next
  case (2 fuel i s)
  have s: "s\<lparr>cd_busy := False\<rparr> = s" using "2.prems"(2) by (cases s) simp
  show ?case
  proof (cases "i = length m")
    case True
    with "2.prems" s show ?thesis
      by (simp add: device_ioctl_def char_cmds schar_def sys_char_def nth_append char_of_zero)
  next
    case False
    with "2.prems" have lt: "i < length m" by simp
    then have c: "0 < (of_char (m ! i) :: nat)" "of_char (m ! i) < (128 :: nat)" using "2.prems"(3) by auto
    have io: "device_ioctl IOCTL_GET_NTH_BYTE [] i s = Some (int (of_char (m ! i)), [], s)"
      using "2.prems" lt c s by (simp add: device_ioctl_def char_cmds schar_def nth_append)
    have "nth_byte_loop fuel (i + 1) s = Some (drop (i + 1) m @ [CHR 0x00], 0, length m + 1, s)"
      using "2.IH" [OF io refl refl] "2.prems" lt c by (simp add: sys_char_def)
    with io c lt show ?thesis
      by (simp add: sys_char_def Cons_nth_drop_Suc [symmetric])
  qed
qed

text \<open>
  C28: the user program on the driver: for every non-empty ASCII message of at most 80 characters it
  ends with status 0 and prints the message twice, once byte by byte (with the terminator) and
  once whole, without overrunning its 100-byte buffer. An empty message is a no-op: the old one
  stays.
\<close>

theorem char_main_prints:
  assumes m: "\<forall>c \<in> set m. 0 < (of_char c :: nat) \<and> of_char c < (128 :: nat)" "m \<noteq> []" "length m \<le> 80"
    and s: "length (cd_message s) = 81" "cd_message s ! 80 = CHR 0x00" "\<not> cd_busy s" and fd: "0 \<le> fd"
    and fuel: "length m < fuel"
  shows "(\<exists>s'. char_main fuel fd m s = Some ([C_nth (m @ [CHR 0x00]), C_get m], 0, s'))
    \<and> device_ioctl IOCTL_SET_MSG [CHR 0x00] 0 s = Some (0, [CHR 0x00], s)"
proof -
  have nul: "CHR 0x00 \<notin> set m" using m(1) by auto
  obtain r where set: "device_ioctl IOCTL_SET_MSG (m @ [CHR 0x00]) 0 s
      = Some (0, m @ [CHR 0x00], \<lparr>cd_busy = False, cd_message = m @ CHR 0x00 # r\<rparr>)"
    using set_msg_stores [OF nul m(2,3) s] by blast
  let ?s1 = "\<lparr>cd_busy = False, cd_message = m @ CHR 0x00 # r\<rparr>"
  have nth: "nth_byte_loop fuel 0 ?s1 = Some (m @ [CHR 0x00], 0, length m + 1, ?s1)"
    using nth_byte_loop_eq [of ?s1 m r 0 fuel] m(1) fuel by simp
  have rd: "message_read (m @ CHR 0x00 # r) 99 0 = Some (int (length m), m, length m)"
    using message_read_at [OF nul, of 0 r 99] m(2,3) by simp
  have u: "memcpy_at (replicate 100 CHR 0x00) 0 (m @ [CHR 0x00]) = m @ CHR 0x00 # replicate (99 - length m) CHR 0x00"
    by (simp add: memcpy_at_def)
  have get: "ioctl_get_msg ?s1 = Some (0, [C_get m], ?s1)"
    using nul m(3) by (simp add: ioctl_get_msg_def device_ioctl_def char_cmds cd_device_read_def rd u sys_char_def)
  have empty: "device_ioctl IOCTL_SET_MSG [CHR 0x00] 0 s = Some (0, [CHR 0x00], s)"
    using s(3) by (cases s) (simp add: device_ioctl_def get_user_def msg_len_loop.simps cd_device_write_def write_loop.simps)
  have "char_main fuel fd m s = Some ([C_nth (m @ [CHR 0x00]), C_get m], 0, ?s1)"
    using fd by (simp add: char_main_def ioctl_set_msg_def set sys_char_def ioctl_get_nth_byte_def nth get)
  with empty show ?thesis by blast
qed

theorem char_main_prints_witness:
  "\<exists>s'. char_main 100 3 ''Message'' \<lparr>cd_busy = False, cd_message = replicate 81 CHR 0x00\<rparr>
     = Some ([C_nth (''Message'' @ [CHR 0x00]), C_get ''Message''], 0, s')"
proof -
  have a: "\<forall>c \<in> set ''Message''. 0 < (of_char c :: nat) \<and> of_char c < (128 :: nat)" by simp
  show ?thesis
    using char_main_prints [OF a, of "\<lparr>cd_busy = False, cd_message = replicate 81 CHR 0x00\<rparr>" 3 100] by simp
qed

end
