(* ===== verification/Bell_Irq.thy ===== *)
theory Bell_Irq
  imports Bell_Regs Kernel_Resources
begin

text \<open>
  The interrupt driver \<open>myirq/mybell.c\<close>: it counts the events of the bell. The locale
  \<open>counting_bell\<close> extends the register contract by the event counter; the accounting of the
  driver is proved in it once and obtained for the documented device by interpretation.
\<close>

section \<open>The driver\<close>

record 'h mybell_dev =
  bd_hw :: 'h
  bd_irq :: int
  bd_irq_count :: u32

definition mb_irq_handler :: "'h bell_hw \<Rightarrow> 'h mybell_dev \<Rightarrow> irqreturn" where
  "mb_irq_handler B d = (if mb_get_irq_status B (bd_hw d) AND MB_IRQ_STATUS_PENDING = 0 then IRQ_NONE else IRQ_WAKE_THREAD)"

definition mb_irq_thread :: "'h bell_hw \<Rightarrow> 'h mybell_dev \<Rightarrow> irqreturn \<times> 'h mybell_dev" where
  "mb_irq_thread B d = (IRQ_HANDLED, d\<lparr>bd_irq_count := bd_irq_count d + 1, bd_hw := mb_ack_irq B (bd_hw d)\<rparr>)"

record mb_env =
  mbe_resource :: bool
  mbe_alloc :: bool
  mbe_ioremap :: int
  mbe_get_irq :: int
  mbe_request_irq :: int

text \<open>Every resource of this driver is managed by the driver core; \<open>hw\<close> is the device found.\<close>

definition mybell_probe :: "'h bell_hw \<Rightarrow> mb_env \<Rightarrow> 'h \<Rightarrow> int \<times> 'h \<times> 'h mybell_dev option" where
  "mybell_probe B e hw =
    (if \<not> mbe_resource e then (- ENODEV, hw, None)
     else if \<not> mbe_alloc e then (- ENOMEM, hw, None)
     else if IS_ERR (mbe_ioremap e) then (PTR_ERR (mbe_ioremap e), hw, None)
     else if mbe_get_irq e < 0 then (mbe_get_irq e, hw, None)
     else let hw1 = mb_ack_irq B hw
          in if mbe_request_irq e \<noteq> 0 then (mbe_request_irq e, hw1, None)
             else let hw2 = mb_enable_irq B hw1
                  in (0, hw2, Some \<lparr>bd_hw = hw2, bd_irq = mbe_get_irq e, bd_irq_count = 0\<rparr>))"

definition mybell_remove :: "'h bell_hw \<Rightarrow> 'h mybell_dev \<Rightarrow> 'h" where
  "mybell_remove B d = mb_disable_irq B (bd_hw d)"

definition mybell_init :: "int \<Rightarrow> int \<times> kcall list" where
  "mybell_init ret = (ret, if ret \<noteq> 0 then [] else [Acq Driver])"

definition mybell_exit :: "nat \<Rightarrow> kcall list" where
  "mybell_exit n = driver_unregister (replicate n [])"

section \<open>Events and interrupts\<close>

locale counting_bell = bell_device B line event
  for B :: "'h bell_hw" and line :: "'h \<Rightarrow> bool" and event :: "'h \<Rightarrow> 'h" +
  assumes event_counts: "\<not> irq_pending B d \<Longrightarrow> mb_get_event_count B (event d) = mb_get_event_count B d + 1"
    and ack_keeps_count: "mb_get_event_count B (mb_ack_irq B d) = mb_get_event_count B d"
    and enable_keeps_count: "mb_get_event_count B (mb_enable_irq B d) = mb_get_event_count B d"
begin

text \<open>
  The bell rings at any time; while its line is high the kernel runs the handler and, when that
  asks for it, the thread, with the line masked until the thread is done (\<open>IRQF_ONESHOT\<close>).
\<close>

inductive bell_step :: "'h mybell_dev \<Rightarrow> 'h mybell_dev \<Rightarrow> bool" where
  ring: "bell_step d (d\<lparr>bd_hw := event (bd_hw d)\<rparr>)"
| irq: "line (bd_hw d) \<Longrightarrow> mb_irq_handler B d = IRQ_WAKE_THREAD \<Longrightarrow> mb_irq_thread B d = (IRQ_HANDLED, d') \<Longrightarrow> bell_step d d'"

inductive bell_run :: "'h mybell_dev \<Rightarrow> 'h mybell_dev \<Rightarrow> bool" where
  refl: "bell_run d d"
| step: "bell_run d e \<Longrightarrow> bell_step e f \<Longrightarrow> bell_run d f"

definition uncounted :: "'h \<Rightarrow> u32" where
  "uncounted h = (if irq_pending B h then 1 else 0)"

lemma line_handled: "line (bd_hw d) \<Longrightarrow> mb_irq_handler B d = IRQ_WAKE_THREAD"
  by (simp add: line_level irq_pending_def mb_irq_handler_def)

lemma bell_step_count:
  "bell_step d d' \<Longrightarrow> mb_get_event_count B (bd_hw d') - (bd_irq_count d' + uncounted (bd_hw d'))
     = mb_get_event_count B (bd_hw d) - (bd_irq_count d + uncounted (bd_hw d))"
proof (induction rule: bell_step.induct)
  case (ring d)
  then show ?case
    by (cases "irq_pending B (bd_hw d)") (simp_all add: event_pending event_counts event_raises uncounted_def)
next
  case (irq d d')
  then have "irq_pending B (bd_hw d)" by (simp add: line_level)
  with irq show ?case
    by (auto simp: mb_irq_thread_def uncounted_def ack_clears ack_keeps_count)
qed

lemma bell_run_count:
  "bell_run d d' \<Longrightarrow> mb_get_event_count B (bd_hw d') - (bd_irq_count d' + uncounted (bd_hw d'))
     = mb_get_event_count B (bd_hw d) - (bd_irq_count d + uncounted (bd_hw d))"
  by (induction rule: bell_run.induct) (auto dest: bell_step_count)

lemma probed_count:
  assumes "mybell_probe B e hw = (0, hw', Some d)" "bell_run d d'"
  shows "mb_get_event_count B (bd_hw d')
    = mb_get_event_count B hw + bd_irq_count d' + (if irq_pending B (bd_hw d') then 1 else 0)"
proof -
  from assms(1) have d: "bd_irq_count d = 0" "bd_hw d = mb_enable_irq B (mb_ack_irq B hw)"
    by (auto simp: mybell_probe_def Let_def split: if_splits)
  then have "mb_get_event_count B (bd_hw d) - (bd_irq_count d + uncounted (bd_hw d)) = mb_get_event_count B hw"
    by (simp add: uncounted_def enable_keeps_pending ack_clears enable_keeps_count ack_keeps_count)
  with bell_run_count [OF assms(2)] show ?thesis by (simp add: uncounted_def algebra_simps)
qed

lemma enabled_run:
  "bell_run d d' \<Longrightarrow> mb_readl B (bd_hw d') MB_REG_IRQ_ENABLE = mb_readl B (bd_hw d) MB_REG_IRQ_ENABLE"
proof (induction rule: bell_run.induct)
  case (refl d)
  then show ?case by simp
next
  case (step d e f)
  then show ?case
    by (auto elim!: bell_step.cases simp: event_keeps_enable mb_irq_thread_def ack_keeps_enable)
qed

end

interpretation cbell: counting_bell fakebell_hw fakebell_level fakebell_timer_cb
  by unfold_locales (simp_all add: fakebell_defs)

section \<open>Guarantees\<close>

text \<open>
  C29: on the documented device, after a successful probe and any sequence of events and interrupts,
  the driver has counted every event since the probe exactly once, up to the one whose interrupt
  is still pending (counters modulo \<open>2^32\<close>); a pending event always has the line high and the
  handler answers it by waking the thread, and the thread leaves the line low: no event is
  missed and no interrupt storms.
\<close>

theorem mybell_counts_events:
  assumes "mybell_probe fakebell_hw e hw = (0, hw', Some d)" "cbell.bell_run d d'"
  shows "fb_event_count (bd_hw d') = fb_event_count hw + bd_irq_count d' + (if irq_pending fakebell_hw (bd_hw d') then 1 else 0)
    \<and> (irq_pending fakebell_hw (bd_hw d') \<longrightarrow> fakebell_level (bd_hw d') \<and> mb_irq_handler fakebell_hw d' = IRQ_WAKE_THREAD)
    \<and> \<not> fakebell_level (bd_hw (snd (mb_irq_thread fakebell_hw d')))"
proof -
  have count: "mb_get_event_count fakebell_hw h = fb_event_count h" for h by (simp add: fakebell_defs)
  from assms(1) have "bd_hw d = mb_enable_irq fakebell_hw (mb_ack_irq fakebell_hw hw)"
    by (auto simp: mybell_probe_def Let_def split: if_splits)
  then have "mb_readl fakebell_hw (bd_hw d') MB_REG_IRQ_ENABLE AND MB_IRQ_ENABLE_EN \<noteq> 0"
    using cbell.enabled_run [OF assms(2)] bell.enable_sets by simp
  then have "irq_pending fakebell_hw (bd_hw d') \<Longrightarrow> fakebell_level (bd_hw d')" by (simp add: bell.line_level)
  then show ?thesis
    using cbell.probed_count [OF assms] cbell.line_handled [of d'] bell.ack_drops_line
    by (auto simp: count mb_irq_thread_def)
qed

theorem mybell_counts_events_witness:
  "fb_event_count (bd_hw (snd (mb_irq_thread fakebell_hw
      \<lparr>bd_hw = fakebell_timer_cb (mb_enable_irq fakebell_hw (mb_ack_irq fakebell_hw fakebell_realize)), bd_irq = 5, bd_irq_count = 0\<rparr>)))
    = bd_irq_count (snd (mb_irq_thread fakebell_hw
      \<lparr>bd_hw = fakebell_timer_cb (mb_enable_irq fakebell_hw (mb_ack_irq fakebell_hw fakebell_realize)), bd_irq = 5, bd_irq_count = 0\<rparr>))"
proof -
  let ?h = "mb_enable_irq fakebell_hw (mb_ack_irq fakebell_hw fakebell_realize)"
  let ?d0 = "\<lparr>bd_hw = ?h, bd_irq = 5, bd_irq_count = 0\<rparr> :: fakebell mybell_dev"
  let ?d1 = "\<lparr>bd_hw = fakebell_timer_cb ?h, bd_irq = 5, bd_irq_count = 0\<rparr> :: fakebell mybell_dev"
  let ?d2 = "snd (mb_irq_thread fakebell_hw ?d1)"
  have p: "mybell_probe fakebell_hw \<lparr>mbe_resource = True, mbe_alloc = True, mbe_ioremap = 1, mbe_get_irq = 5, mbe_request_irq = 0\<rparr>
      fakebell_realize = (0, ?h, Some ?d0)"
    by (simp add: mybell_probe_def IS_ERR_def Let_def)
  have "cbell.bell_run ?d0 ?d1" using cbell.bell_run.step [OF cbell.bell_run.refl cbell.bell_step.ring, of ?d0] by simp
  moreover have "fakebell_level (bd_hw ?d1)" by (simp add: fakebell_defs fakebell_level_def fakebell_realize_def)
  then have "cbell.bell_step ?d1 ?d2"
    using cbell.bell_step.irq [of ?d1] cbell.line_handled [of ?d1] by (simp add: mb_irq_thread_def)
  ultimately have "cbell.bell_run ?d0 ?d2" by (rule cbell.bell_run.step)
  from mybell_counts_events [OF p this] show ?thesis
    using bell.ack_clears by (simp add: mb_irq_thread_def fakebell_realize_def)
qed

end
