(* ===== verification/Alarm.thy ===== *)
theory Alarm
  imports Bell_Regs C_Strings Kernel_Resources
begin

text \<open>
  The alarm driver \<open>practice/myalarm/myalarm.c\<close>, an alarm latched by the bell's interrupt and
  cleared by writing 0, and its program \<open>userapp/main.c\<close>. \<open>kstrtoint_from_user\<close> is a parameter.
\<close>

section \<open>The driver\<close>

record 'h myalarmdev =
  al_mb :: 'h
  al_alarm :: int
  al_wakes :: nat

definition alarm_irq_handler :: "'h bell_hw \<Rightarrow> 'h myalarmdev \<Rightarrow> irqreturn" where
  "alarm_irq_handler B d = (if mb_get_irq_status B (al_mb d) AND MB_IRQ_STATUS_PENDING = 0 then IRQ_NONE else IRQ_WAKE_THREAD)"

definition alarm_irq_thread :: "'h bell_hw \<Rightarrow> 'h myalarmdev \<Rightarrow> irqreturn \<times> 'h myalarmdev" where
  "alarm_irq_thread B d = (IRQ_HANDLED, d\<lparr>al_mb := mb_ack_irq B (al_mb d), al_alarm := 1, al_wakes := Suc (al_wakes d)\<rparr>)"

definition malm_poll :: "'h myalarmdev \<Rightarrow> u32" where
  "malm_poll d = (if al_alarm d \<noteq> 0 then POLLIN OR POLLRDNORM else 0)"

definition alarm_text :: "int \<Rightarrow> string" where
  "alarm_text a = ''Alarm:'' @ print_d a @ [CHR 0x0A]"

text \<open>\<open>None\<close> is \<open>sprintf\<close> overflowing the 16 bytes of \<open>kbuf\<close>. Result: return value, user buffer.\<close>

definition malm_read :: "nat \<Rightarrow> string \<Rightarrow> nat \<Rightarrow> 'h myalarmdev \<Rightarrow> (int \<times> string) option" where
  "malm_read left buf cnt d =
    (let kbuf = alarm_text (al_alarm d); len = length kbuf
     in if len + 1 > 16 then None
        else if cnt < len then Some (- EINVAL, buf)
        else Some (if left \<noteq> 0 then - EFAULT else int len, memcpy_at buf 0 (take (len - left) kbuf)))"

definition malm_write :: "(string \<Rightarrow> int + int) \<Rightarrow> string \<Rightarrow> nat \<Rightarrow> 'h myalarmdev \<Rightarrow> int \<times> 'h myalarmdev" where
  "malm_write kstr buf cnt d = (case kstr (take cnt buf) of Inl err \<Rightarrow> (err, d)
     | Inr newalarm \<Rightarrow> (int cnt, if newalarm = 0 \<and> al_alarm d = 1 then d\<lparr>al_alarm := 0\<rparr> else d))"

record al_env =
  ae_alloc :: bool
  ae_resource :: bool
  ae_cdev_add :: int
  ae_device_create :: int
  ae_ioremap :: int
  ae_get_irq :: int
  ae_request_irq :: int

definition alarm_probe :: "'h bell_hw \<Rightarrow> al_env \<Rightarrow> 'h \<Rightarrow> int \<times> kcall list \<times> 'h \<times> 'h myalarmdev option" where
  "alarm_probe B e hw =
    (let created = [Acq (Cdev 0), Use Class, Acq (Device 0)];
         undo = [Rel (Cdev 0), Use Class, Rel (Device 0)]
     in if \<not> ae_alloc e then (- ENOMEM, [], hw, None)
        else if \<not> ae_resource e then (- ENODEV, [], hw, None)
        else if ae_cdev_add e \<noteq> 0 then (ae_cdev_add e, [], hw, None)
        else if IS_ERR (ae_device_create e) then
          (PTR_ERR (ae_device_create e), [Acq (Cdev 0), Use Class, Rel (Cdev 0)], hw, None)
        else if IS_ERR (ae_ioremap e) then (PTR_ERR (ae_ioremap e), created @ undo, hw, None)
        else if ae_get_irq e < 0 then (ae_get_irq e, created @ undo, hw, None)
        else let hw1 = mb_ack_irq B hw
             in if ae_request_irq e \<noteq> 0 then (ae_request_irq e, created @ undo, hw1, None)
                else let hw2 = mb_enable_irq B hw1
                     in (0, created, hw2, Some \<lparr>al_mb = hw2, al_alarm = 0, al_wakes = 0\<rparr>))"

definition alarm_remove :: "'h bell_hw \<Rightarrow> 'h \<Rightarrow> kcall list \<times> 'h" where
  "alarm_remove B hw = ([Rel (Cdev 0), Use Class, Rel (Device 0)], mb_disable_irq B hw)"

definition myalarminit :: "mod_env \<Rightarrow> int \<times> kcall list" where
  "myalarminit e =
    (if m_region e \<noteq> 0 then (m_region e, [])
     else if IS_ERR (m_class e) then (PTR_ERR (m_class e), [Acq Region, Rel Region])
     else if m_register e \<noteq> 0 then (m_register e, [Acq Region, Acq Class, Rel Class, Rel Region])
     else (0, [Acq Region, Acq Class, Acq Driver]))"

definition myalarmexit :: "kcall list list \<Rightarrow> kcall list" where
  "myalarmexit removes = driver_unregister removes @ [Rel Class, Rel Region]"

section \<open>The program\<close>

datatype alarm_line = A_perror string | A_opened | A_waiting | A_timeout | A_event string | A_cleared | A_poll_error u32

text \<open>
  One round of \<open>main\<close>'s loop on the driver: \<open>poll\<close> has returned \<open>ret\<close> with \<open>revents\<close>; the read and the
  write go to the driver, and \<open>env\<close> is what happens to the device between the two. The result is the lines, the device and whether
  the loop is left; \<open>None\<close> when the driver or the store \<open>buf[ret]\<close> leaves its buffer.
\<close>

definition alarm_round ::
  "(string \<Rightarrow> int + int) \<Rightarrow> ('h myalarmdev \<Rightarrow> 'h myalarmdev) \<Rightarrow> int \<Rightarrow> u32 \<Rightarrow> 'h myalarmdev \<Rightarrow> (alarm_line list \<times> 'h myalarmdev \<times> bool) option" where
  "alarm_round kstr env ret revents d =
    (if ret < 0 then Some ([A_waiting, A_perror ''poll''], d, True)
     else if ret = 0 then Some ([A_waiting, A_timeout], d, False)
     else let err = (revents AND 0x38 \<noteq> 0); tail = (if err then [A_poll_error revents] else [])
          in if revents AND POLLIN = 0 then Some (A_waiting # tail, d, err)
             else case malm_read 0 (replicate 64 CHR 0x00) 63 d of None \<Rightarrow> None
                  | Some (r, buf) \<Rightarrow>
                      if r < 0 then Some ([A_waiting, A_perror ''read''], d, True)
                      else if nat r \<ge> 64 then None
                      else let ev = [A_waiting, A_event (cstr (buf[nat r := CHR 0x00]))]
                           in case malm_write kstr ''0'' 1 (env d) of (w, d1) \<Rightarrow>
                                if w < 0 then Some (ev @ [A_perror ''write clear''], d1, True)
                                else Some (ev @ [A_cleared] @ tail, d1, err))"

section \<open>Guarantees\<close>

text \<open>Interrupt threads, writers and the hardware in any order.\<close>

inductive alarm_step :: "'h bell_hw \<Rightarrow> 'h myalarmdev \<Rightarrow> 'h myalarmdev \<Rightarrow> bool" for B where
  irq: "alarm_irq_thread B d = (IRQ_HANDLED, d') \<Longrightarrow> alarm_step B d d'"
| user_write: "malm_write kstr buf cnt d = (ret, d') \<Longrightarrow> alarm_step B d d'"
| hardware: "alarm_step B d (d\<lparr>al_mb := h\<rparr>)"

inductive alarm_reach :: "'h bell_hw \<Rightarrow> 'h myalarmdev \<Rightarrow> bool" for B where
  probed: "alarm_probe B e hw = (0, calls, hw', Some d) \<Longrightarrow> alarm_reach B d"
| step: "alarm_reach B d \<Longrightarrow> alarm_step B d d' \<Longrightarrow> alarm_reach B d'"

lemma alarm_binary: "alarm_reach B d \<Longrightarrow> al_alarm d = 0 \<or> al_alarm d = 1"
proof (induction rule: alarm_reach.induct)
  case (probed e hw calls hw' d)
  then show ?case by (auto simp: alarm_probe_def Let_def split: if_splits)
next
  case (step d d')
  from step.hyps(2) step.IH show ?case
    by cases (auto simp: alarm_irq_thread_def malm_write_def split: sum.splits if_splits)
qed

lemma alarm_texts: "alarm_text 0 = ''Alarm:0'' @ [CHR 0x0A]" "alarm_text 1 = ''Alarm:1'' @ [CHR 0x0A]"
  by code_simp+

text \<open>
  In every reachable state \<open>malm_read\<close> stays inside its 16-byte buffer (a general \<open>int\<close> would not fit), \<open>poll\<close> reports
  exactly the alarm and the interrupt thread sets it.
\<close>

lemma alarm_latch:
  assumes "alarm_reach B d"
  shows "malm_read left buf cnt d \<noteq> None" "malm_poll d \<noteq> 0 \<longleftrightarrow> al_alarm d = 1"
    "malm_poll (snd (alarm_irq_thread B d)) \<noteq> 0"
  using alarm_binary [OF assms] by (auto simp: malm_read_def alarm_texts malm_poll_def alarm_irq_thread_def)

text \<open>A round of the program on a ringing device prints \<open>Alarm:1\<close>, clears the alarm and goes on waiting.\<close>

lemma alarm_round_rings:
  assumes "al_alarm d = 1" "al_alarm (env d) = 1" "kstr ''0'' = Inr 0" "r AND POLLIN \<noteq> 0" "r AND 0x38 = 0"
  shows "alarm_round kstr env 1 r d = Some ([A_waiting, A_event (''Alarm:1'' @ [CHR 0x0A]), A_cleared], (env d)\<lparr>al_alarm := 0\<rparr>, False)"
proof -
  have "cstr ((memcpy_at (replicate 64 CHR 0x00) 0 (''Alarm:1'' @ [CHR 0x0A]))[8 := CHR 0x00]) = ''Alarm:1'' @ [CHR 0x0A]"
    by code_simp
  with assms show ?thesis by (simp add: alarm_round_def malm_read_def alarm_texts malm_write_def Let_def)
qed

text \<open>Whatever \<open>poll\<close> returned and whatever happened in between, the round stays inside its buffers and inside the reachable states.\<close>

lemma alarm_round_safe:
  assumes "alarm_reach B d" "alarm_reach B (env d)"
  shows "\<exists>ls d' stop. alarm_round kstr env ret r d = Some (ls, d', stop) \<and> alarm_reach B d'"
proof -
  have w: "alarm_reach B (snd (malm_write kstr ''0'' 1 (env d)))"
    using alarm_reach.step [OF assms(2) alarm_step.user_write [OF prod.collapse [symmetric]]] .
  have "\<exists>x buf. malm_read 0 (replicate 64 CHR 0x00) 63 d = Some (x, buf) \<and> x < 64"
    using alarm_binary [OF assms(1)] by (auto simp: malm_read_def alarm_texts)
  then obtain x buf where "malm_read 0 (replicate 64 CHR 0x00) 63 d = Some (x, buf)" "x < 64" by blast
  with w assms(1) show ?thesis by (auto simp: alarm_round_def Let_def split: prod.splits)
qed

section \<open>Life cycle\<close>

definition al_probe :: "'h bell_hw \<Rightarrow> 'h \<Rightarrow> al_env \<Rightarrow> int \<times> kcall list" where
  "al_probe B hw e = (case alarm_probe B e hw of (ret, calls, hw', d) \<Rightarrow> (ret, calls))"

interpretation al_dev: device_lifecycle "{Class}" "al_probe B hw" "\<lambda>e. fst (alarm_remove B hw)" "\<lambda>e. {#Cdev 0, Device 0#}"
proof unfold_locales
  fix h :: "resource multiset" and e
  assume h: "{Class} \<subseteq> set_mset h"
  then show "fst (al_probe B hw e) = 0 \<Longrightarrow> run_calls (snd (al_probe B hw e)) h = Some ({#Cdev 0, Device 0#} + h)"
    "fst (al_probe B hw e) \<noteq> 0 \<Longrightarrow> run_calls (snd (al_probe B hw e)) h = Some h"
    by (auto simp: al_probe_def alarm_probe_def Let_def IS_ERR_PTR_ERR add_mset_commute split: if_splits)
  from h show "run_calls (fst (alarm_remove B hw)) ({#Cdev 0, Device 0#} + h) = Some h"
    by (simp add: alarm_remove_def)
qed

interpretation al_mod: module_lifecycle "{Class}" "al_probe B hw" "\<lambda>e. fst (alarm_remove B hw)" "\<lambda>e. {#Cdev 0, Device 0#}"
  myalarminit "\<lambda>es. myalarmexit (map (\<lambda>e. fst (alarm_remove B hw)) es)" "{#Region, Class, Driver#}"
proof unfold_locales
  fix i h
  show "fst (myalarminit i) = 0 \<Longrightarrow> run_calls (snd (myalarminit i)) h = Some ({#Region, Class, Driver#} + h)"
    "fst (myalarminit i) \<noteq> 0 \<Longrightarrow> run_calls (snd (myalarminit i)) h = Some h"
    by (auto simp: myalarminit_def IS_ERR_PTR_ERR add_mset_commute split: if_splits)
next
  fix es :: "al_env list" and h :: "resource multiset"
  assume "\<forall>e \<in> set es. fst (al_probe B hw e) = 0"
  then show "run_calls (myalarmexit (map (\<lambda>e. fst (alarm_remove B hw)) es))
      (sum_list (map (\<lambda>e. {#Cdev 0, Device 0#}) es) + ({#Region, Class, Driver#} + h)) = Some h"
    unfolding myalarmexit_def using al_dev.std_exit [of es B hw h] by simp
qed simp

end
