(* ===== verification/Ramdisk.thy ===== *)
theory Ramdisk
  imports Kernel_Resources
begin

text \<open>
  The RAM disk \<open>myblkdev/blk.c\<close>: \<open>block_queue_rq\<close> copies the segments of a request to or from
  \<open>block_memory\<close>, \<open>block_init\<close> and \<open>block_exit\<close> register and release the disk. Sector numbers and
  offsets are 64-bit words, as \<open>sector_t\<close> and \<open>unsigned long\<close> are; the contents of a segment are a
  byte list. The guarantees are stated over a flat array of bytes: how the block layer splits a request
  into segments must not show.
\<close>

section \<open>Requests\<close>

definition NUM_SECTORS :: nat where "NUM_SECTORS = 1024"
definition MY_SECTOR_SIZE :: nat where "MY_SECTOR_SIZE = 512"
definition MY_BLOCK_SIZE :: nat where "MY_BLOCK_SIZE = 512"

lemmas disk_sizes = NUM_SECTORS_def MY_SECTOR_SIZE_def MY_BLOCK_SIZE_def

datatype blk_status = BLK_STS_OK | BLK_STS_IOERR

record request =
  rq_pos :: u64
  rq_write :: bool
  rq_bvecs :: "u8 list list"

text \<open>
  The loop over the segments. \<open>None\<close> is a \<open>memcpy\<close> outside \<open>block_memory\<close>. Result: the status given to
  \<open>blk_mq_end_request\<close>, the memory and the segments.
\<close>

fun rq_segments :: "bool \<Rightarrow> u64 \<Rightarrow> u8 list list \<Rightarrow> u8 list \<Rightarrow> (blk_status \<times> u8 list \<times> u8 list list) option" where
  "rq_segments wr offset [] mem = Some (BLK_STS_OK, mem, [])"
| "rq_segments wr offset (buffer # rest) mem =
    (let len = of_nat (length buffer); at = unat offset
     in if offset + len > of_nat (NUM_SECTORS * MY_BLOCK_SIZE) then Some (BLK_STS_IOERR, mem, buffer # rest)
        else if at + length buffer > length mem then None
        else case rq_segments wr (offset + len) rest (if wr then memcpy_at mem at buffer else mem) of
               None \<Rightarrow> None
             | Some (st, mem', rest') \<Rightarrow>
                 Some (st, mem', (if wr then buffer else take (length buffer) (drop at mem)) # rest'))"

text \<open>Result: the value returned, the status the request ends with, the memory and the request.\<close>

definition block_queue_rq :: "request \<Rightarrow> u8 list \<Rightarrow> (blk_status \<times> blk_status \<times> u8 list \<times> request) option" where
  "block_queue_rq req mem =
    (case rq_segments (rq_write req) (rq_pos req * of_nat MY_SECTOR_SIZE) (rq_bvecs req) mem of None \<Rightarrow> None
     | Some (st, mem', segs) \<Rightarrow> Some (BLK_STS_OK, st, mem', req\<lparr>rq_bvecs := segs\<rparr>))"

section \<open>Module\<close>

record blk_env =
  be_memory :: bool
  be_dev :: bool
  be_major :: int
  be_tag_set :: int
  be_disk :: int
  be_add_disk :: int

definition block_init :: "blk_env \<Rightarrow> int \<times> kcall list" where
  "block_init e =
    (let alloc = [Acq (Mem ''block_memory''), Acq (Mem ''dev'')];
         err_reg = [Rel (Mem ''dev''), Rel (Mem ''block_memory'')];
         err_tag = Rel (Named ''blkdev'') # err_reg;
         err_disk = Rel (Named ''tag_set'') # err_tag;
         err_add = Rel (Named ''disk'') # err_disk
     in if \<not> be_memory e then (- ENOMEM, [])
        else if \<not> be_dev e then (- ENOMEM, [Acq (Mem ''block_memory''), Rel (Mem ''block_memory'')])
        else if be_major e < 0 then (- ENOMEM, alloc @ err_reg)
        else if be_tag_set e \<noteq> 0 then (- ENOMEM, alloc @ [Acq (Named ''blkdev'')] @ err_tag)
        else if IS_ERR (be_disk e) then
          (- ENOMEM, alloc @ [Acq (Named ''blkdev''), Acq (Named ''tag_set'')] @ err_disk)
        else if be_add_disk e \<noteq> 0 then
          (- ENOMEM, alloc @ [Acq (Named ''blkdev''), Acq (Named ''tag_set''), Acq (Named ''disk'')] @ err_add)
        else (0, alloc @ [Acq (Named ''blkdev''), Acq (Named ''tag_set''), Acq (Named ''disk''),
                          Use (Named ''disk''), Acq (Named ''gendisk'')]))"

text \<open>\<open>disk\<close> is whether the pointer \<open>dev->disk\<close> is set.\<close>

definition block_exit :: "bool \<Rightarrow> kcall list" where
  "block_exit disk =
    (if disk then [Rel (Named ''gendisk''), Rel (Named ''disk'')] else [])
    @ [Rel (Named ''tag_set''), Rel (Named ''blkdev''), Rel (Mem ''dev''), Rel (Mem ''block_memory'')]"

text \<open>A failed load leaves nothing behind, and unloading undoes a successful one.\<close>

lemma block_session:
  "(if fst (block_init e) = 0 then run_calls (snd (block_init e) @ block_exit True) h
    else run_calls (snd (block_init e)) h) = Some h"
  by (auto simp: block_init_def block_exit_def Let_def)

section \<open>The flat view\<close>

lemma unat_add_nowrap:
  fixes offset :: u64
  shows "unat offset + n < 2 ^ 64 \<Longrightarrow> unat (offset + of_nat n) = unat offset + n"
  by (simp add: unat_word_ariths unat_of_nat)

lemma disk_bound:
  fixes offset :: u64
  assumes "unat offset + n < 2 ^ 64"
  shows "offset + of_nat n > of_nat (NUM_SECTORS * MY_BLOCK_SIZE) \<longleftrightarrow> unat offset + n > 524288"
  using unat_add_nowrap [OF assms] by (simp add: word_less_nat_alt disk_sizes)

lemma segments_write:
  assumes "length mem = 524288" "unat offset + length (concat segs) \<le> 524288"
  shows "rq_segments True offset segs mem = Some (BLK_STS_OK, memcpy_at mem (unat offset) (concat segs), segs)"
  using assms
proof (induction segs arbitrary: offset mem)
  case Nil
  then show ?case by simp
next
  case (Cons b segs)
  then have u: "unat (offset + of_nat (length b)) = unat offset + length b" by (intro unat_add_nowrap) simp
  have "rq_segments True (offset + of_nat (length b)) segs (memcpy_at mem (unat offset) b)
      = Some (BLK_STS_OK, memcpy_at (memcpy_at mem (unat offset) b) (unat (offset + of_nat (length b))) (concat segs), segs)"
    using Cons.prems u by (intro Cons.IH) simp_all
  then show ?case
    using Cons.prems disk_bound [of offset "length b"] by (simp add: Let_def u memcpy_at_append add.assoc)
qed

text \<open>A read fills the segments with consecutive bytes of the disk.\<close>

fun fill_segments :: "u8 list list \<Rightarrow> u8 list \<Rightarrow> u8 list list" where
  "fill_segments [] bytes = []"
| "fill_segments (b # segs) bytes = take (length b) bytes # fill_segments segs (drop (length b) bytes)"

lemma concat_fill: "length (concat segs) \<le> length bytes \<Longrightarrow> concat (fill_segments segs bytes) = take (length (concat segs)) bytes"
  by (induction segs arbitrary: bytes) (auto simp: take_add)

lemma lengths_fill: "length (concat segs) \<le> length bytes \<Longrightarrow> map length (fill_segments segs bytes) = map length segs"
  by (induction segs arbitrary: bytes) auto

lemma segments_read:
  assumes "length mem = 524288" "unat offset + length (concat segs) \<le> 524288"
  shows "rq_segments False offset segs mem = Some (BLK_STS_OK, mem, fill_segments segs (drop (unat offset) mem))"
  using assms
proof (induction segs arbitrary: offset)
  case Nil
  then show ?case by simp
next
  case (Cons b segs)
  then have u: "unat (offset + of_nat (length b)) = unat offset + length b" by (intro unat_add_nowrap) simp
  have "rq_segments False (offset + of_nat (length b)) segs mem
      = Some (BLK_STS_OK, mem, fill_segments segs (drop (unat (offset + of_nat (length b))) mem))"
    using Cons.prems u by (intro Cons.IH) simp_all
  then show ?case
    using Cons.prems disk_bound [of offset "length b"] by (simp add: Let_def u add.commute)
qed

text \<open>A request that leaves the disk ends with an error, after the segments that still fit.\<close>

lemma segments_fail:
  assumes "length mem = 524288" "unat offset + length (concat segs) < 2 ^ 64" "unat offset + length (concat segs) > 524288" "segs \<noteq> []"
  shows "\<exists>k < length segs. rq_segments wr offset segs mem
      = Some (BLK_STS_IOERR, (if wr then memcpy_at mem (unat offset) (concat (take k segs)) else mem),
          if wr then segs else fill_segments (take k segs) (drop (unat offset) mem) @ drop k segs)
    \<and> (0 < k \<longrightarrow> unat offset + length (concat (take k segs)) \<le> 524288)
    \<and> unat offset + length (concat (take (Suc k) segs)) > 524288"
  using assms
proof (induction segs arbitrary: offset mem)
  case Nil
  then show ?case by simp
next
  case (Cons b segs)
  have bd: "of_nat (NUM_SECTORS * MY_BLOCK_SIZE) < offset + of_nat (length b) \<longleftrightarrow> unat offset + length b > 524288"
    using Cons.prems(2) by (intro disk_bound) simp
  show ?case
  proof (cases "unat offset + length b > 524288")
    case True
    with bd show ?thesis by (intro exI [of _ 0]) (simp add: Let_def)
  next
    case False
    have u: "unat (offset + of_nat (length b)) = unat offset + length b"
      using Cons.prems(2) by (intro unat_add_nowrap) simp
    let ?m = "if wr then memcpy_at mem (unat offset) b else mem"
    have m: "length ?m = 524288" using Cons.prems(1) False by simp
    have "segs \<noteq> []" using Cons.prems(3) False by auto
    then obtain k where k: "k < length segs"
      "rq_segments wr (offset + of_nat (length b)) segs ?m = Some (BLK_STS_IOERR,
         (if wr then memcpy_at ?m (unat offset + length b) (concat (take k segs)) else ?m),
         if wr then segs else fill_segments (take k segs) (drop (unat offset + length b) ?m) @ drop k segs)"
      "0 < k \<longrightarrow> unat offset + length b + length (concat (take k segs)) \<le> 524288"
      "unat offset + length b + length (concat (take (Suc k) segs)) > 524288"
      using Cons.IH [of ?m "offset + of_nat (length b)"] m Cons.prems False unfolding u by (auto simp: add.assoc)
    then have "unat offset + length b + length (concat (take k segs)) \<le> 524288" using False by (cases k) auto
    then have "wr \<Longrightarrow> memcpy_at ?m (unat offset + length b) (concat (take k segs)) = memcpy_at mem (unat offset) (concat (take (Suc k) (b # segs)))"
      using Cons.prems(1) by (simp add: memcpy_at_append add.assoc)
    with k False bd Cons.prems(1) \<open>unat offset + length b + length (concat (take k segs)) \<le> 524288\<close> show ?thesis
      by (intro exI [of _ "Suc k"]) (auto simp: Let_def add.assoc add.commute)
  qed
qed

section \<open>Guarantees\<close>

text \<open>Byte offset and length of a request whose end does not wrap around.\<close>

definition rq_start :: "request \<Rightarrow> nat" where
  "rq_start req = unat (rq_pos req) * 512"

definition rq_len :: "request \<Rightarrow> nat" where
  "rq_len req = length (concat (rq_bvecs req))"

lemma unat_rq_start: "rq_start req < 2 ^ 64 \<Longrightarrow> unat (rq_pos req * of_nat MY_SECTOR_SIZE) = rq_start req"
  by (simp add: rq_start_def unat_word_ariths disk_sizes)

lemma write_inside:
  assumes "length mem = NUM_SECTORS * MY_SECTOR_SIZE" "rq_start q + rq_len q < 2 ^ 64" "rq_start q + rq_len q \<le> NUM_SECTORS * MY_SECTOR_SIZE" "rq_write q"
  shows "block_queue_rq q mem = Some (BLK_STS_OK, BLK_STS_OK, memcpy_at mem (rq_start q) (concat (rq_bvecs q)), q)"
  using segments_write [of mem "rq_pos q * of_nat MY_SECTOR_SIZE" "rq_bvecs q"] assms unat_rq_start [of q]
  by (simp add: block_queue_rq_def disk_sizes rq_len_def)

lemma read_inside:
  assumes "length mem = NUM_SECTORS * MY_SECTOR_SIZE" "rq_start q + rq_len q < 2 ^ 64" "rq_start q + rq_len q \<le> NUM_SECTORS * MY_SECTOR_SIZE" "\<not> rq_write q"
  shows "\<exists>bv. block_queue_rq q mem = Some (BLK_STS_OK, BLK_STS_OK, mem, q\<lparr>rq_bvecs := bv\<rparr>)
    \<and> map length bv = map length (rq_bvecs q) \<and> concat bv = take (rq_len q) (drop (rq_start q) mem)"
proof -
  have "length (concat (rq_bvecs q)) \<le> length (drop (rq_start q) mem)" using assms by (simp add: disk_sizes rq_len_def)
  then show ?thesis
    using segments_read [of mem "rq_pos q * of_nat MY_SECTOR_SIZE" "rq_bvecs q"] assms unat_rq_start [of q]
      concat_fill [of "rq_bvecs q"] lengths_fill [of "rq_bvecs q"]
    by (intro exI [of _ "fill_segments (rq_bvecs q) (drop (rq_start q) mem)"]) (simp add: block_queue_rq_def disk_sizes rq_len_def)
qed

lemma read_back:
  assumes "length mem = NUM_SECTORS * MY_SECTOR_SIZE" "rq_start q + rq_len q < 2 ^ 64" "rq_start q + rq_len q \<le> NUM_SECTORS * MY_SECTOR_SIZE"
    and "\<not> rq_write r" "rq_pos r = rq_pos q" "rq_len r = rq_len q"
  defines "mem' \<equiv> memcpy_at mem (rq_start q) (concat (rq_bvecs q))"
  shows "\<exists>bv. block_queue_rq r mem' = Some (BLK_STS_OK, BLK_STS_OK, mem', r\<lparr>rq_bvecs := bv\<rparr>)
    \<and> map length bv = map length (rq_bvecs r) \<and> concat bv = concat (rq_bvecs q)"
proof -
  have s: "rq_start r = rq_start q" using assms(5) by (simp add: rq_start_def)
  have "length mem' = NUM_SECTORS * MY_SECTOR_SIZE" using assms(1,3) by (simp add: mem'_def rq_len_def)
  moreover have "take (rq_len q) (drop (rq_start q) mem') = concat (rq_bvecs q)"
    using assms(1,3) by (simp add: mem'_def rq_len_def)
  ultimately show ?thesis using read_inside [of mem' r] assms(2-6) s by simp
qed

lemma request_fails:
  assumes "length mem = NUM_SECTORS * MY_SECTOR_SIZE" "rq_start q + rq_len q < 2 ^ 64"
    and "rq_start q + rq_len q > NUM_SECTORS * MY_SECTOR_SIZE" "rq_bvecs q \<noteq> []"
  shows "\<exists>k < length (rq_bvecs q). \<exists>bv.
      (0 < k \<longrightarrow> rq_start q + length (concat (take k (rq_bvecs q))) \<le> NUM_SECTORS * MY_SECTOR_SIZE)
      \<and> rq_start q + length (concat (take (Suc k) (rq_bvecs q))) > NUM_SECTORS * MY_SECTOR_SIZE
      \<and> block_queue_rq q mem = Some (BLK_STS_OK, BLK_STS_IOERR,
           if rq_write q then memcpy_at mem (rq_start q) (concat (take k (rq_bvecs q))) else mem, q\<lparr>rq_bvecs := bv\<rparr>)
      \<and> (if rq_write q then bv = rq_bvecs q
         else map length bv = map length (rq_bvecs q) \<and> drop k bv = drop k (rq_bvecs q)
           \<and> concat (take k bv) = take (length (concat (take k (rq_bvecs q)))) (drop (rq_start q) mem))"
proof -
  let ?bs = "rq_bvecs q" and ?at = "rq_start q"
  have u: "unat (rq_pos q * of_nat MY_SECTOR_SIZE) = ?at" using assms(2) unat_rq_start by simp
  then have "\<exists>k < length ?bs. rq_segments (rq_write q) (rq_pos q * of_nat MY_SECTOR_SIZE) ?bs mem
      = Some (BLK_STS_IOERR, (if rq_write q then memcpy_at mem ?at (concat (take k ?bs)) else mem),
          if rq_write q then ?bs else fill_segments (take k ?bs) (drop ?at mem) @ drop k ?bs)
    \<and> (0 < k \<longrightarrow> ?at + length (concat (take k ?bs)) \<le> 524288) \<and> ?at + length (concat (take (Suc k) ?bs)) > 524288"
    using assms by (intro segments_fail [of mem "rq_pos q * of_nat MY_SECTOR_SIZE" ?bs "rq_write q", unfolded u]) (simp_all add: disk_sizes rq_len_def)
  then obtain k where k: "k < length ?bs" "0 < k \<longrightarrow> ?at + length (concat (take k ?bs)) \<le> 524288"
    "?at + length (concat (take (Suc k) ?bs)) > 524288"
    "rq_segments (rq_write q) (rq_pos q * of_nat MY_SECTOR_SIZE) ?bs mem
      = Some (BLK_STS_IOERR, (if rq_write q then memcpy_at mem ?at (concat (take k ?bs)) else mem),
          if rq_write q then ?bs else fill_segments (take k ?bs) (drop ?at mem) @ drop k ?bs)"
    by blast
  have l: "length (concat (take k ?bs)) \<le> length (drop ?at mem)" using k(2) assms(1) by (cases k) (auto simp: disk_sizes)
  have "length (fill_segments (take k ?bs) (drop ?at mem)) = k"
    using arg_cong [OF lengths_fill [OF l], of length] k(1) by simp
  moreover have "map length (fill_segments (take k ?bs) (drop ?at mem) @ drop k ?bs) = take k (map length ?bs) @ drop k (map length ?bs)"
    using lengths_fill [OF l] by (simp add: take_map drop_map)
  ultimately show ?thesis
    using k concat_fill [OF l]
    by (intro exI [of _ k] exI [of _ "if rq_write q then ?bs else fill_segments (take k ?bs) (drop ?at mem) @ drop k ?bs"] conjI)
      (auto simp: block_queue_rq_def disk_sizes simp del: map_append)
qed

text \<open>
  C31: every request whose end does not wrap around \<open>2^64\<close>. One inside the disk is served whole whatever its segments: a write
  stores the concatenated segments at its sector and nothing else, a read leaves the disk alone and fills segments of
  the same lengths with the bytes at its sector, so that a read sees what a write of the same place stored even
  when the two are split differently. One that passes the end is ended with \<open>BLK_STS_IOERR\<close> at the first segment that does not fit
  (number \<open>k\<close>): the segments before it have been stored, or filled from the disk, and nothing else has changed, neither on the disk nor in
  the request. A request without segments succeeds and does nothing.
\<close>

theorem ramdisk_transfers:
  assumes mem: "length mem = NUM_SECTORS * MY_SECTOR_SIZE" and nowrap: "rq_start q + rq_len q < 2 ^ 64"
  shows "(rq_start q + rq_len q \<le> NUM_SECTORS * MY_SECTOR_SIZE \<and> rq_write q \<longrightarrow>
       (let mem' = memcpy_at mem (rq_start q) (concat (rq_bvecs q))
        in block_queue_rq q mem = Some (BLK_STS_OK, BLK_STS_OK, mem', q)
         \<and> (\<forall>r. \<not> rq_write r \<and> rq_pos r = rq_pos q \<and> rq_len r = rq_len q \<longrightarrow>
             (\<exists>bv. block_queue_rq r mem' = Some (BLK_STS_OK, BLK_STS_OK, mem', r\<lparr>rq_bvecs := bv\<rparr>)
               \<and> map length bv = map length (rq_bvecs r) \<and> concat bv = concat (rq_bvecs q)))))
    \<and> (rq_start q + rq_len q \<le> NUM_SECTORS * MY_SECTOR_SIZE \<and> \<not> rq_write q \<longrightarrow>
       (\<exists>bv. block_queue_rq q mem = Some (BLK_STS_OK, BLK_STS_OK, mem, q\<lparr>rq_bvecs := bv\<rparr>)
         \<and> map length bv = map length (rq_bvecs q) \<and> concat bv = take (rq_len q) (drop (rq_start q) mem)))
    \<and> (rq_start q + rq_len q > NUM_SECTORS * MY_SECTOR_SIZE \<and> rq_bvecs q \<noteq> [] \<longrightarrow>
       (\<exists>k < length (rq_bvecs q). \<exists>bv.
          (0 < k \<longrightarrow> rq_start q + length (concat (take k (rq_bvecs q))) \<le> NUM_SECTORS * MY_SECTOR_SIZE)
          \<and> rq_start q + length (concat (take (Suc k) (rq_bvecs q))) > NUM_SECTORS * MY_SECTOR_SIZE
          \<and> block_queue_rq q mem = Some (BLK_STS_OK, BLK_STS_IOERR,
               if rq_write q then memcpy_at mem (rq_start q) (concat (take k (rq_bvecs q))) else mem, q\<lparr>rq_bvecs := bv\<rparr>)
          \<and> (if rq_write q then bv = rq_bvecs q
             else map length bv = map length (rq_bvecs q) \<and> drop k bv = drop k (rq_bvecs q)
               \<and> concat (take k bv) = take (length (concat (take k (rq_bvecs q)))) (drop (rq_start q) mem))))
    \<and> (rq_bvecs q = [] \<longrightarrow> block_queue_rq q mem = Some (BLK_STS_OK, BLK_STS_OK, mem, q))"
proof (intro conjI impI)
  assume "rq_start q + rq_len q \<le> NUM_SECTORS * MY_SECTOR_SIZE \<and> rq_write q"
  with mem nowrap show "let mem' = memcpy_at mem (rq_start q) (concat (rq_bvecs q))
        in block_queue_rq q mem = Some (BLK_STS_OK, BLK_STS_OK, mem', q)
         \<and> (\<forall>r. \<not> rq_write r \<and> rq_pos r = rq_pos q \<and> rq_len r = rq_len q \<longrightarrow>
             (\<exists>bv. block_queue_rq r mem' = Some (BLK_STS_OK, BLK_STS_OK, mem', r\<lparr>rq_bvecs := bv\<rparr>)
               \<and> map length bv = map length (rq_bvecs r) \<and> concat bv = concat (rq_bvecs q)))"
    by (auto simp: Let_def write_inside read_back)
next
  assume "rq_start q + rq_len q \<le> NUM_SECTORS * MY_SECTOR_SIZE \<and> \<not> rq_write q"
  with mem nowrap show "\<exists>bv. block_queue_rq q mem = Some (BLK_STS_OK, BLK_STS_OK, mem, q\<lparr>rq_bvecs := bv\<rparr>)
         \<and> map length bv = map length (rq_bvecs q) \<and> concat bv = take (rq_len q) (drop (rq_start q) mem)"
    by (intro read_inside) auto
next
  assume "rq_start q + rq_len q > NUM_SECTORS * MY_SECTOR_SIZE \<and> rq_bvecs q \<noteq> []"
  with request_fails [OF mem nowrap] show "\<exists>k < length (rq_bvecs q). \<exists>bv.
          (0 < k \<longrightarrow> rq_start q + length (concat (take k (rq_bvecs q))) \<le> NUM_SECTORS * MY_SECTOR_SIZE)
          \<and> rq_start q + length (concat (take (Suc k) (rq_bvecs q))) > NUM_SECTORS * MY_SECTOR_SIZE
          \<and> block_queue_rq q mem = Some (BLK_STS_OK, BLK_STS_IOERR,
               if rq_write q then memcpy_at mem (rq_start q) (concat (take k (rq_bvecs q))) else mem, q\<lparr>rq_bvecs := bv\<rparr>)
          \<and> (if rq_write q then bv = rq_bvecs q
             else map length bv = map length (rq_bvecs q) \<and> drop k bv = drop k (rq_bvecs q)
               \<and> concat (take k bv) = take (length (concat (take k (rq_bvecs q)))) (drop (rq_start q) mem))"
    by simp
qed (simp add: block_queue_rq_def)

text \<open>A write of two segments at sector 3, read back as one; and a write of which only the first segment fits on the last sector.\<close>

theorem ramdisk_transfers_witness:
  "(\<exists>mem' bv. block_queue_rq \<lparr>rq_pos = 3, rq_write = True, rq_bvecs = [[1, 2], [3]]\<rparr> (replicate 524288 0)
      = Some (BLK_STS_OK, BLK_STS_OK, mem', \<lparr>rq_pos = 3, rq_write = True, rq_bvecs = [[1, 2], [3]]\<rparr>)
    \<and> block_queue_rq \<lparr>rq_pos = 3, rq_write = False, rq_bvecs = [[0, 0, 0]]\<rparr> mem'
      = Some (BLK_STS_OK, BLK_STS_OK, mem', \<lparr>rq_pos = 3, rq_write = False, rq_bvecs = bv\<rparr>) \<and> concat bv = [1, 2, 3])
   \<and> (\<exists>k<2. block_queue_rq \<lparr>rq_pos = 1023, rq_write = True, rq_bvecs = [[7], replicate 512 8]\<rparr> (replicate 524288 0)
      = Some (BLK_STS_OK, BLK_STS_IOERR, memcpy_at (replicate 524288 0) 523776 (concat (take k [[7], replicate 512 8])),
          \<lparr>rq_pos = 1023, rq_write = True, rq_bvecs = [[7], replicate 512 8]\<rparr>) \<and> 512 < length (concat (take (Suc k) [[7], replicate 512 (8 :: u8)])))"
proof -
  define M where "M = replicate 524288 (0 :: u8)"
  then have M: "length M = NUM_SECTORS * MY_SECTOR_SIZE" by (simp add: disk_sizes)
  let ?q = "\<lparr>rq_pos = 3, rq_write = True, rq_bvecs = [[1, 2], [3]]\<rparr>" and ?p = "\<lparr>rq_pos = 1023, rq_write = True, rq_bvecs = [[7], replicate 512 8]\<rparr>"
  let ?r = "\<lparr>rq_pos = 3, rq_write = False, rq_bvecs = [[0, 0, 0]]\<rparr>"
  have q: "rq_start ?q + rq_len ?q \<le> NUM_SECTORS * MY_SECTOR_SIZE" "rq_len ?r = rq_len ?q" and nw: "rq_start ?q + rq_len ?q < 2 ^ 64"
    and p: "rq_start ?p = 523776" "rq_len ?p = 513" by (simp_all add: disk_sizes rq_start_def rq_len_def)
  have "\<exists>bv. block_queue_rq ?r (memcpy_at M (rq_start ?q) (concat (rq_bvecs ?q))) = Some (BLK_STS_OK, BLK_STS_OK,
        memcpy_at M (rq_start ?q) (concat (rq_bvecs ?q)), ?r\<lparr>rq_bvecs := bv\<rparr>) \<and> concat bv = concat (rq_bvecs ?q)"
    and "block_queue_rq ?q M = Some (BLK_STS_OK, BLK_STS_OK, memcpy_at M (rq_start ?q) (concat (rq_bvecs ?q)), ?q)"
    using ramdisk_transfers [OF M, of ?q, THEN conjunct1] q(1) nw unfolding Let_def by (auto dest!: spec [of _ ?r] simp: q(2))
  then have "\<exists>mem' bv. block_queue_rq ?q M = Some (BLK_STS_OK, BLK_STS_OK, mem', ?q)
      \<and> block_queue_rq ?r mem' = Some (BLK_STS_OK, BLK_STS_OK, mem', ?r\<lparr>rq_bvecs := bv\<rparr>) \<and> concat bv = [1, 2, 3]"
    by auto
  moreover have "\<exists>k<2. block_queue_rq ?p M = Some (BLK_STS_OK, BLK_STS_IOERR, memcpy_at M 523776 (concat (take k (rq_bvecs ?p))), ?p)
      \<and> 512 < length (concat (take (Suc k) (rq_bvecs ?p)))"
    using ramdisk_transfers [OF M, of ?p, THEN conjunct2, THEN conjunct2, THEN conjunct1] unfolding p by (auto simp: disk_sizes simp flip: numeral_2_eq_2)
  ultimately show ?thesis by (simp add: M_def)
qed

text \<open>
  The addition in the bounds check does wrap: two sectors at the last sector number pass it and would be copied
  from before the disk. Only the block layer's own check against the capacity keeps such a request away.
\<close>

lemma offset_wraps:
  assumes "length mem = 524288" "length b = 1024"
  shows "block_queue_rq \<lparr>rq_pos = 2 ^ 55 - 1, rq_write = wr, rq_bvecs = [b]\<rparr> mem = None"
  using assms by (simp add: block_queue_rq_def disk_sizes Let_def)

end
