(* ===== verification/Dpdk_Packet.thy ===== *)
theory Dpdk_Packet
  imports Kernel_Prelude
begin

text \<open>
  The test frame of \<open>mydpdk/mydpdk.c\<close>: \<open>build_test_ipv4_udp_packet\<close> fills an mbuf with an
  Ethernet, an IPv4 and a UDP header and a tag. What it takes from DPDK (appending to an mbuf, the
  constants of the header files, the header checksum) is the record \<open>rte\<close> of parameters;
  \<open>rte_documented\<close> states what their documentation promises. The frame is judged by a
  parser written from the wire formats, which recomputes the checksum in network byte order.
\<close>

section \<open>Wire format\<close>

definition be_bytes :: "nat \<Rightarrow> nat \<Rightarrow> u8 list" where
  "be_bytes n x = rev (le_bytes n x)"

definition be_value :: "u8 list \<Rightarrow> nat" where
  "be_value bs = le_value (rev bs)"

lemma length_be_bytes [simp]: "length (be_bytes n x) = n"
  by (simp add: be_bytes_def)

lemma bytes_fields [bytes_simps]:
  "le_bytes 2 x = [of_nat (x mod 256), of_nat (x div 256 mod 256)]"
  "be_bytes 2 x = [of_nat (x div 256 mod 256), of_nat (x mod 256)]"
  "be_bytes 4 x = [of_nat (x div 16777216 mod 256), of_nat (x div 65536 mod 256), of_nat (x div 256 mod 256), of_nat (x mod 256)]"
proof -
  have n: "(2::nat) = Suc (Suc 0)" "(4::nat) = Suc (Suc (Suc (Suc 0)))" by simp_all
  show "le_bytes 2 x = [of_nat (x mod 256), of_nat (x div 256 mod 256)]"
    unfolding n by simp
  show "be_bytes 2 x = [of_nat (x div 256 mod 256), of_nat (x mod 256)]"
    unfolding n be_bytes_def by simp
  show "be_bytes 4 x = [of_nat (x div 16777216 mod 256), of_nat (x div 65536 mod 256), of_nat (x div 256 mod 256), of_nat (x mod 256)]"
    unfolding n be_bytes_def by (simp add: div_mult2_eq [symmetric])
qed

text \<open>The 16-bit words of a header, in either byte order, and their one's complement sum.\<close>

fun words16 :: "(u8 list \<Rightarrow> nat) \<Rightarrow> u8 list \<Rightarrow> nat list" where
  "words16 rd (a # b # bs) = rd [a, b] # words16 rd bs"
| "words16 rd [a] = [rd [a, 0]]"
| "words16 rd [] = []"

definition fold16 :: "nat \<Rightarrow> nat" where
  "fold16 x = x mod 65536 + x div 65536"

definition ones_sum :: "nat list \<Rightarrow> nat" where
  "ones_sum ws = fold16 (fold16 (sum_list ws))"

section \<open>Headers\<close>

record rte_mbuf =
  m_data :: "u8 list"
  m_tailroom :: nat

record rte =
  rte_pktmbuf_append :: "rte_mbuf \<Rightarrow> nat \<Rightarrow> rte_mbuf option"
  rte_ipv4_cksum :: "u8 list \<Rightarrow> u16"
  RTE_ETHER_TYPE_IPV4 :: u16
  RTE_IPV4_VHL_DEF :: u8
  RTE_IPV4 :: "u8 \<Rightarrow> u8 \<Rightarrow> u8 \<Rightarrow> u8 \<Rightarrow> u32"

record rte_ipv4_hdr =
  version_ihl :: u8
  type_of_service :: u8
  total_length :: u16
  packet_id :: u16
  fragment_offset :: u16
  time_to_live :: u8
  next_proto_id :: u8
  hdr_checksum :: u16
  src_addr :: u32
  dst_addr :: u32

record rte_udp_hdr =
  src_port :: u16
  dst_port :: u16
  dgram_len :: u16
  dgram_cksum :: u16

text \<open>
  The bytes of the headers. Fields assigned through \<open>rte_cpu_to_be_16\<close> and \<open>rte_cpu_to_be_32\<close> are in
  network order; \<open>hdr_checksum\<close> is assigned as it comes from \<open>rte_ipv4_cksum\<close>, in the machine's order.
\<close>

definition eth_bytes :: "u8 list \<Rightarrow> u8 list \<Rightarrow> u16 \<Rightarrow> u8 list" where
  "eth_bytes dst src ether_type = dst @ src @ be_bytes 2 (unat ether_type)"

definition ip_bytes :: "rte_ipv4_hdr \<Rightarrow> u8 list" where
  "ip_bytes h =
    [version_ihl h, type_of_service h] @ be_bytes 2 (unat (total_length h)) @ be_bytes 2 (unat (packet_id h))
    @ be_bytes 2 (unat (fragment_offset h)) @ [time_to_live h, next_proto_id h] @ le_bytes 2 (unat (hdr_checksum h))
    @ be_bytes 4 (unat (src_addr h)) @ be_bytes 4 (unat (dst_addr h))"

definition udp_bytes :: "rte_udp_hdr \<Rightarrow> u8 list" where
  "udp_bytes h = be_bytes 2 (unat (src_port h)) @ be_bytes 2 (unat (dst_port h))
    @ be_bytes 2 (unat (dgram_len h)) @ be_bytes 2 (unat (dgram_cksum h))"

definition test_tag :: "u8 list" where
  "test_tag = map of_char ''DPDKTEST''"

section \<open>Building the frame\<close>

text \<open>\<open>mac\<close> is \<open>rte_eth_macaddr_get\<close>: \<open>None\<close> when it returns an error. \<open>IPPROTO_UDP\<close> is 17.\<close>

definition build_test_ipv4_udp_packet ::
  "rte \<Rightarrow> (u16 \<Rightarrow> u8 list option) \<Rightarrow> rte_mbuf \<Rightarrow> u16 \<Rightarrow> u16 \<Rightarrow> int \<times> rte_mbuf" where
  "build_test_ipv4_udp_packet R mac m portid dst_portid =
    (let pkt_size = 64; eth_len = 14; ip_len = 20; udp_len = 8;
         payload_len = pkt_size - eth_len - ip_len - udp_len
     in case rte_pktmbuf_append R m pkt_size of None \<Rightarrow> (- 1, m)
        | Some m1 \<Rightarrow>
            let d0 = memcpy_at (m_data m1) (length (m_data m)) (replicate pkt_size 0)
            in case mac portid of None \<Rightarrow> (- 1, m1\<lparr>m_data := d0\<rparr>)
               | Some src_mac \<Rightarrow>
                   case mac dst_portid of None \<Rightarrow> (- 1, m1\<lparr>m_data := d0\<rparr>)
                   | Some dst_mac \<Rightarrow>
                       let ip0 = \<lparr>version_ihl = RTE_IPV4_VHL_DEF R, type_of_service = 0,
                                  total_length = of_nat (ip_len + udp_len + payload_len), packet_id = 0,
                                  fragment_offset = 0, time_to_live = 64, next_proto_id = 17, hdr_checksum = 0,
                                  src_addr = RTE_IPV4 R 198 18 0 1, dst_addr = RTE_IPV4 R 198 18 0 2\<rparr>;
                           ip = ip0\<lparr>hdr_checksum := rte_ipv4_cksum R (ip_bytes ip0)\<rparr>;
                           udp = \<lparr>src_port = 9, dst_port = 9, dgram_len = of_nat (udp_len + payload_len),
                                  dgram_cksum = 0\<rparr>;
                           d1 = memcpy_at d0 0 (eth_bytes dst_mac src_mac (RTE_ETHER_TYPE_IPV4 R));
                           d2 = memcpy_at d1 eth_len (ip_bytes ip);
                           d3 = memcpy_at d2 (eth_len + ip_len) (udp_bytes udp);
                           d4 = memcpy_at d3 (eth_len + ip_len + udp_len) test_tag
                       in (0, m1\<lparr>m_data := d4\<rparr>))"

text \<open>What the DPDK documentation says of the parameters.\<close>

definition append_documented :: "(rte_mbuf \<Rightarrow> nat \<Rightarrow> rte_mbuf option) \<Rightarrow> bool" where
  "append_documented app \<longleftrightarrow> (\<forall>m n. case app m n of
      None \<Rightarrow> n > m_tailroom m
    | Some m' \<Rightarrow> n \<le> m_tailroom m \<and> m_tailroom m' = m_tailroom m - n
        \<and> length (m_data m') = length (m_data m) + n \<and> take (length (m_data m)) (m_data m') = m_data m)"

definition rte_documented :: "rte \<Rightarrow> bool" where
  "rte_documented R \<longleftrightarrow> append_documented (rte_pktmbuf_append R)
     \<and> (\<forall>h. rte_ipv4_cksum R h = NOT (of_nat (ones_sum (words16 le_value h))))
     \<and> RTE_ETHER_TYPE_IPV4 R = 0x0800 \<and> RTE_IPV4_VHL_DEF R = 0x45
     \<and> (\<forall>a b c d. RTE_IPV4 R a b c d = of_nat (be_value [a, b, c, d]))"

lemma append_room:
  assumes "append_documented app"
  shows "if n \<le> m_tailroom m
    then \<exists>m'. app m n = Some m' \<and> m_tailroom m' = m_tailroom m - n \<and> length (m_data m') = length (m_data m) + n
    else app m n = None"
proof -
  have "case app m n of None \<Rightarrow> n > m_tailroom m
    | Some m' \<Rightarrow> n \<le> m_tailroom m \<and> m_tailroom m' = m_tailroom m - n
        \<and> length (m_data m') = length (m_data m) + n \<and> take (length (m_data m)) (m_data m') = m_data m"
    using assms unfolding append_documented_def by blast
  then show ?thesis by (cases "app m n") auto
qed

section \<open>Reading the frame\<close>

record udp_frame =
  f_dst :: "u8 list"
  f_src :: "u8 list"
  f_saddr :: nat
  f_daddr :: nat
  f_sport :: nat
  f_dport :: nat
  f_payload :: "u8 list"

definition field :: "nat \<Rightarrow> nat \<Rightarrow> u8 list \<Rightarrow> nat" where
  "field off n bs = be_value (take n (drop off bs))"

definition parse_udp_frame :: "u8 list \<Rightarrow> udp_frame option" where
  "parse_udp_frame bs =
    (if length bs < 42 \<or> field 12 2 bs \<noteq> 0x0800 \<or> field 14 1 bs \<noteq> 0x45
        \<or> field 16 2 bs \<noteq> length bs - 14 \<or> field 20 2 bs \<noteq> 0 \<or> field 23 1 bs \<noteq> 17
        \<or> ones_sum (words16 be_value (take 20 (drop 14 bs))) \<noteq> 65535 \<or> field 38 2 bs \<noteq> length bs - 34
     then None
     else Some \<lparr>f_dst = take 6 bs, f_src = take 6 (drop 6 bs), f_saddr = field 26 4 bs, f_daddr = field 30 4 bs,
                f_sport = field 34 2 bs, f_dport = field 36 2 bs, f_payload = drop 42 bs\<rparr>)"

section \<open>The frame is well formed\<close>

definition ip_header :: "u8 list" where
  "ip_header = [0x45, 0, 0, 50, 0, 0, 0, 0, 64, 17, 0xee, 0x93, 198, 18, 0, 1, 198, 18, 0, 2]"

definition test_frame :: "u8 list \<Rightarrow> u8 list \<Rightarrow> u8 list" where
  "test_frame dst src = eth_bytes dst src 0x0800 @ ip_header @ [0, 9, 0, 9, 0, 30, 0, 0] @ test_tag @ replicate 14 0"

lemma ip_header_cksum:
  "NOT (of_nat (ones_sum (words16 le_value [0x45, 0, 0, 50, 0, 0, 0, 0, 64, 17, 0, 0, 198, 18, 0, 1, 198, 18, 0, 2])) :: u16) = 0x93ee"
  by (simp add: ones_sum_def fold16_def)

lemma ip_header_bytes:
  assumes "rte_documented R"
  defines "ip0 \<equiv> \<lparr>version_ihl = RTE_IPV4_VHL_DEF R, type_of_service = 0, total_length = 50, packet_id = 0,
      fragment_offset = 0, time_to_live = 64, next_proto_id = 17, hdr_checksum = 0,
      src_addr = RTE_IPV4 R 198 18 0 1, dst_addr = RTE_IPV4 R 198 18 0 2\<rparr>"
  shows "ip_bytes (ip0\<lparr>hdr_checksum := rte_ipv4_cksum R (ip_bytes ip0)\<rparr>) = ip_header"
proof -
  have a: "RTE_IPV4 R 198 18 0 1 = 3323068417" "RTE_IPV4 R 198 18 0 2 = 3323068418" "RTE_IPV4_VHL_DEF R = 0x45"
    using assms(1) by (simp_all add: rte_documented_def be_value_def)
  have "ip_bytes ip0 = [0x45, 0, 0, 50, 0, 0, 0, 0, 64, 17, 0, 0, 198, 18, 0, 1, 198, 18, 0, 2]"
    unfolding ip0_def a by (simp add: ip_bytes_def bytes_fields)
  then have "rte_ipv4_cksum R (ip_bytes ip0) = 0x93ee"
    using assms(1) ip_header_cksum by (simp add: rte_documented_def)
  then show ?thesis unfolding ip0_def a by (simp add: ip_bytes_def bytes_fields ip_header_def)
qed

lemma udp_header_bytes:
  "udp_bytes \<lparr>src_port = 9, dst_port = 9, dgram_len = 30, dgram_cksum = 0\<rparr> = [0, 9, 0, 9, 0, 30, 0, 0]"
  by (simp add: udp_bytes_def bytes_fields)

lemma length_eth_bytes [simp]: "length dst = 6 \<Longrightarrow> length src = 6 \<Longrightarrow> length (eth_bytes dst src t) = 14"
  by (simp add: eth_bytes_def)

lemma length_ip_header [simp]: "length ip_header = 20"
  by (simp add: ip_header_def)

lemma length_test_tag [simp]: "length test_tag = 8"
  by (simp add: test_tag_def)

lemma length_test_frame: "length dst = 6 \<Longrightarrow> length src = 6 \<Longrightarrow> length (test_frame dst src) = 64"
  by (simp add: test_frame_def)

text \<open>An mbuf fresh from the pool with room for 64 bytes, and both addresses known.\<close>

lemma build_succeeds:
  assumes "rte_documented R" "m_data m = []" "64 \<le> m_tailroom m"
    and "mac portid = Some src" "mac dst_portid = Some dst" "length src = 6" "length dst = 6"
  shows "build_test_ipv4_udp_packet R mac m portid dst_portid
    = (0, \<lparr>m_data = test_frame dst src, m_tailroom = m_tailroom m - 64\<rparr>)"
proof -
  have "append_documented (rte_pktmbuf_append R)" using assms(1) by (simp add: rte_documented_def)
  then obtain m1 where m1: "rte_pktmbuf_append R m 64 = Some m1" "length (m_data m1) = 64" "m_tailroom m1 = m_tailroom m - 64"
    using assms(2,3) by (metis append_room add_0 list.size(3))
  have z: "memcpy_at (m_data m1) 0 (replicate 64 0) = replicate 64 0" using m1(2) by (simp add: memcpy_at_def)
  have ty: "RTE_ETHER_TYPE_IPV4 R = 0x0800" using assms(1) by (simp add: rte_documented_def)
  have glue: "memcpy_at (memcpy_at (memcpy_at (memcpy_at (replicate 64 0) 0 (eth_bytes dst src 0x0800)) 14 ip_header) 34
      [0, 9, 0, 9, 0, 30, 0, 0]) 42 test_tag = test_frame dst src"
    using assms(6,7) by (simp add: memcpy_at_def test_frame_def)
  show ?thesis
    using ip_header_bytes [OF assms(1)] assms(2,4,5) m1(1,3) z ty udp_header_bytes glue
    by (cases m1) (simp add: build_test_ipv4_udp_packet_def Let_def)
qed

lemma test_frame_parses:
  assumes "length dst = 6" "length src = 6"
  shows "parse_udp_frame (test_frame dst src) = Some \<lparr>f_dst = dst, f_src = src, f_saddr = 3323068417, f_daddr = 3323068418,
      f_sport = 9, f_dport = 9, f_payload = test_tag @ replicate 14 0\<rparr>"
proof -
  have e: "eth_bytes dst src 0x0800 = (dst @ src) @ [8, 0]" by (simp add: eth_bytes_def bytes_fields)
  have l: "length (dst @ src) = 12" using assms by simp
  have sum: "ones_sum (words16 be_value ip_header) = 65535" by (simp add: ones_sum_def fold16_def ip_header_def be_value_def)
  have f: "field (12 + k) n (test_frame dst src)
      = be_value (take n (drop k ([8, 0] @ ip_header @ [0, 9, 0, 9, 0, 30, 0, 0] @ test_tag @ replicate 14 0)))" for k n
    unfolding field_def test_frame_def e using assms by simp
  have fs: "field 12 2 (test_frame dst src) = 0x0800" "field 14 1 (test_frame dst src) = 0x45" "field 16 2 (test_frame dst src) = 50"
    "field 20 2 (test_frame dst src) = 0" "field 23 1 (test_frame dst src) = 17" "field 38 2 (test_frame dst src) = 30"
    "field 26 4 (test_frame dst src) = 3323068417" "field 30 4 (test_frame dst src) = 3323068418"
    "field 34 2 (test_frame dst src) = 9" "field 36 2 (test_frame dst src) = 9"
    using f [of 0 2] f [of 2 1] f [of 4 2] f [of 8 2] f [of 11 1] f [of 26 2] f [of 14 4] f [of 18 4] f [of 22 2] f [of 24 2]
    by (simp_all add: ip_header_def be_value_def)
  have parts: "take 20 (drop 14 (test_frame dst src)) = ip_header" "take 6 (test_frame dst src) = dst"
    "take 6 (drop 6 (test_frame dst src)) = src" "drop 42 (test_frame dst src) = test_tag @ replicate 14 0"
    unfolding test_frame_def e using assms by simp_all
  show ?thesis
    unfolding parse_udp_frame_def fs parts sum using assms by (simp add: length_test_frame)
qed

section \<open>Guarantees\<close>

text \<open>
  C32: with DPDK as documented, filling a fresh mbuf that has room for 64 bytes succeeds exactly when
  both MAC addresses can be read, and the result is one frame of 64 bytes that a receiver following the standards accepts:
  type, version, lengths and the header checksum in network order are right, and it finds the
  addresses of the two ports, the benchmark addresses 198.18.0.1 and 198.18.0.2, port 9 and the tag. An mbuf
  without room is refused and left as it was.
\<close>

theorem test_packet_parses:
  assumes R: "rte_documented R" and mac: "\<forall>p a. mac p = Some a \<longrightarrow> length a = 6" and "m_data m = []"
  shows "case build_test_ipv4_udp_packet R mac m portid dst_portid of (ret, m') \<Rightarrow>
    (ret = 0 \<longleftrightarrow> 64 \<le> m_tailroom m \<and> mac portid \<noteq> None \<and> mac dst_portid \<noteq> None) \<and> (ret = 0 \<or> ret = - 1)
    \<and> (ret = 0 \<longrightarrow> length (m_data m') = 64 \<and> parse_udp_frame (m_data m')
         = Some \<lparr>f_dst = the (mac dst_portid), f_src = the (mac portid), f_saddr = field 0 4 [198, 18, 0, 1], f_daddr = field 0 4 [198, 18, 0, 2],
                 f_sport = 9, f_dport = 9, f_payload = map of_char ''DPDKTEST'' @ replicate 14 0\<rparr>)
    \<and> (m_tailroom m < 64 \<longrightarrow> m' = m)"
proof (cases "64 \<le> m_tailroom m \<and> mac portid \<noteq> None \<and> mac dst_portid \<noteq> None")
  case True
  then obtain src dst where sd: "mac portid = Some src" "mac dst_portid = Some dst" by auto
  then have l: "length src = 6" "length dst = 6" using mac by auto
  have a: "field 0 4 [198, 18, 0, 1] = 3323068417" "field 0 4 [198, 18, 0, 2] = 3323068418" by (simp_all add: field_def be_value_def)
  show ?thesis
    using True build_succeeds [OF R assms(3) _ sd l] test_frame_parses [OF l(2,1)] length_test_frame [OF l(2,1)] sd
    by (simp add: a test_tag_def)
next
  case False
  have "append_documented (rte_pktmbuf_append R)" using R by (simp add: rte_documented_def)
  then have "m_tailroom m < 64 \<Longrightarrow> rte_pktmbuf_append R m 64 = None"
    by (metis append_room not_less)
  with False show ?thesis
    by (auto simp: build_test_ipv4_udp_packet_def Let_def split: option.splits)
qed

text \<open>DPDK's operations written out as documented, and a frame from port 0 to port 1.\<close>

definition rte_reference :: rte where
  "rte_reference = \<lparr>rte_pktmbuf_append = (\<lambda>m n. if n \<le> m_tailroom m
       then Some \<lparr>m_data = m_data m @ replicate n 0xa5, m_tailroom = m_tailroom m - n\<rparr> else None),
     rte_ipv4_cksum = (\<lambda>h. NOT (of_nat (ones_sum (words16 le_value h)))), RTE_ETHER_TYPE_IPV4 = 0x0800,
     RTE_IPV4_VHL_DEF = 0x45, RTE_IPV4 = (\<lambda>a b c d. of_nat (be_value [a, b, c, d]))\<rparr>"

lemma rte_reference_documented: "rte_documented rte_reference"
  by (simp add: rte_documented_def append_documented_def rte_reference_def)

theorem test_packet_parses_witness:
  "parse_udp_frame (m_data (snd (build_test_ipv4_udp_packet rte_reference (\<lambda>p. Some [2, 0, 0, 0, 0, ucast p]) \<lparr>m_data = [], m_tailroom = 128\<rparr> 0 1)))
    = Some \<lparr>f_dst = [2, 0, 0, 0, 0, 1], f_src = [2, 0, 0, 0, 0, 0], f_saddr = field 0 4 [198, 18, 0, 1], f_daddr = field 0 4 [198, 18, 0, 2],
            f_sport = 9, f_dport = 9, f_payload = map of_char ''DPDKTEST'' @ replicate 14 0\<rparr>"
  using test_packet_parses [OF rte_reference_documented, of "\<lambda>p. Some [2, 0, 0, 0, 0, ucast p]" "\<lparr>m_data = [], m_tailroom = 128\<rparr>" 0 1]
  by (auto split: prod.splits)

end
