(* ===== verification/Dpdk_App.thy ===== *)
theory Dpdk_App
  imports Dpdk_Packet "HOL-Library.Multiset" "HOL-Library.Sublist"
begin

text \<open>
  The program \<open>mydpdk/mydpdk.c\<close> around the frame: port setup, the packets it sends and the
  receive loop. A run is the list of what the program does, in order: mbufs it takes and gives back, frames
  it hands to a port, calls that set up a port, lines it prints. What DPDK answers is a
  parameter. \<open>rte_eth_tx_burst\<close> is documented to return at most the number of mbufs it was given, and owns
  the ones it took; the caller keeps the rest.
\<close>

section \<open>Events\<close>

datatype dpdk_line =
    L_no_mbuf | L_build_failed | L_mac_failed | L_tx u16 u16 nat "u8 list" "u8 list" | L_sent u16 u16 | L_send_failed u16
  | L_src_mac_failed u16 | L_dst_mac_failed u16 | L_burst_no_mbuf nat | L_burst_build_failed nat
  | L_tx_burst u16 u16 nat nat "u8 list" "u8 list" | L_burst_sent u16 u16 nat nat
  | L_link nat nat bool u32 | L_info_failed nat | L_info nat string string u32 int "u8 list" bool u32
  | L_stats nat "u64 list" | L_stats_failed nat
  | L_init_ok | L_ports nat | L_start | L_periodic | L_received nat

datatype dpdk_exit = X_eal | X_few_ports | X_no_pool | X_configure nat | X_rx_queue nat | X_tx_queue nat | X_start nat

datatype dpdk_ev =
    Alloc nat | Free nat | Recv u16 nat | Sent u16 nat "u8 list"
  | Configure nat | Rx_queue nat | Tx_queue nat | Start nat | Promiscuous nat
  | Sleep | Line dpdk_line | Rte_exit dpdk_exit

section \<open>Sending\<close>

text \<open>
  \<open>alloc\<close> is the answer of \<open>rte_pktmbuf_alloc\<close> (the mbuf and which one it is), \<open>mac\<close> and \<open>maclog\<close> those of
  \<open>rte_eth_macaddr_get\<close> while building and for the log line, \<open>nb_tx\<close> that of \<open>rte_eth_tx_burst\<close>.
\<close>

type_synonym mbuf = "nat \<times> rte_mbuf"
type_synonym macaddr = "u16 \<Rightarrow> u8 list option"

definition send_one_test_packet ::
  "rte \<Rightarrow> mbuf option \<Rightarrow> macaddr \<Rightarrow> macaddr \<Rightarrow> nat \<Rightarrow> u16 \<Rightarrow> u16 \<Rightarrow> dpdk_ev list" where
  "send_one_test_packet R alloc mac maclog nb_tx portid dst_portid =
    (case alloc of None \<Rightarrow> [Line L_no_mbuf]
     | Some (i, m) \<Rightarrow> Alloc i #
         (case build_test_ipv4_udp_packet R mac m portid dst_portid of (ret, m') \<Rightarrow>
            if ret \<noteq> 0 then [Line L_build_failed, Free i]
            else case maclog portid of None \<Rightarrow> [Line L_mac_failed, Free i]
                 | Some src_mac \<Rightarrow>
                     case maclog dst_portid of None \<Rightarrow> [Line L_mac_failed, Free i]
                     | Some dst_mac \<Rightarrow> Line (L_tx portid dst_portid 64 src_mac dst_mac) #
                         (if nb_tx = 1 then [Sent portid i (m_data m'), Line (L_sent portid dst_portid)]
                          else [Line (L_send_failed portid), Free i])))"

definition BURST_SIZE :: nat where "BURST_SIZE = 32"

text \<open>The loop that fills \<open>pkts\<close>, from iteration \<open>i\<close> with \<open>n\<close> to go: the events and the mbufs stored.\<close>

fun burst_loop ::
  "rte \<Rightarrow> (nat \<Rightarrow> mbuf option) \<Rightarrow> (nat \<Rightarrow> macaddr) \<Rightarrow> u16 \<Rightarrow> u16 \<Rightarrow> nat \<Rightarrow> nat \<Rightarrow> dpdk_ev list \<times> mbuf list" where
  "burst_loop R alloc mac portid dst_portid 0 i = ([], [])"
| "burst_loop R alloc mac portid dst_portid (Suc n) i =
    (case alloc i of None \<Rightarrow> ([Line (L_burst_no_mbuf i)], [])
     | Some (b, m) \<Rightarrow>
         case build_test_ipv4_udp_packet R (mac i) m portid dst_portid of (ret, m') \<Rightarrow>
           if ret \<noteq> 0 then ([Alloc b, Line (L_burst_build_failed i), Free b], [])
           else case burst_loop R alloc mac portid dst_portid n (Suc i) of (evs, pkts) \<Rightarrow>
                  (Alloc b # evs, (b, m') # pkts))"

definition send_burst_test_packets ::
  "rte \<Rightarrow> macaddr \<Rightarrow> (nat \<Rightarrow> mbuf option) \<Rightarrow> (nat \<Rightarrow> macaddr) \<Rightarrow> (mbuf list \<Rightarrow> nat) \<Rightarrow> u16 \<Rightarrow> u16 \<Rightarrow> dpdk_ev list" where
  "send_burst_test_packets R mac0 alloc mac tx_burst portid dst_portid =
    (case mac0 portid of None \<Rightarrow> [Line (L_src_mac_failed portid)]
     | Some src_mac \<Rightarrow>
         case mac0 dst_portid of None \<Rightarrow> [Line (L_dst_mac_failed dst_portid)]
         | Some dst_mac \<Rightarrow>
             case burst_loop R alloc mac portid dst_portid BURST_SIZE 0 of (evs, pkts) \<Rightarrow>
               if length pkts = 0 then evs
               else let nb_tx = tx_burst pkts
                    in evs @ [Line (L_tx_burst portid dst_portid (length pkts) 64 src_mac dst_mac)]
                       @ map (\<lambda>(b, m). Sent portid b (m_data m)) (take nb_tx pkts)
                       @ [Line (L_burst_sent portid dst_portid (length pkts) nb_tx)]
                       @ (if nb_tx < length pkts then map (\<lambda>(b, m). Free b) (drop nb_tx pkts) else []))"

section \<open>Ports\<close>

text \<open>What the library tells about a port; \<open>None\<close> where a query fails, the name NULL where there is no driver name.\<close>

record port_query =
  pq_info :: "(string option \<times> u32) option"
  pq_name :: "string option"
  pq_mac :: "u8 list option"
  pq_socket :: int
  pq_link :: "bool \<times> u32"

definition print_port_info :: "nat \<Rightarrow> port_query \<Rightarrow> dpdk_line" where
  "print_port_info portid q =
    (case pq_info q of None \<Rightarrow> L_info_failed portid
     | Some (driver_name, if_index) \<Rightarrow>
         L_info portid (case pq_name q of None \<Rightarrow> ''unknown'' | Some n \<Rightarrow> n)
           (case driver_name of None \<Rightarrow> ''unknown'' | Some n \<Rightarrow> n) if_index (pq_socket q)
           (case pq_mac q of None \<Rightarrow> replicate 6 0 | Some a \<Rightarrow> a) (fst (pq_link q)) (snd (pq_link q)))"

definition print_port_stats :: "nat \<Rightarrow> u64 list option \<Rightarrow> dpdk_line" where
  "print_port_stats portid stats = (case stats of None \<Rightarrow> L_stats_failed portid | Some s \<Rightarrow> L_stats portid s)"

text \<open>\<open>link i\<close> is the state of the link at check \<open>i\<close>; \<open>n\<close> checks are left.\<close>

fun link_loop :: "nat \<Rightarrow> (nat \<Rightarrow> bool \<times> u32) \<Rightarrow> nat \<Rightarrow> nat \<Rightarrow> dpdk_ev list" where
  "link_loop portid link 0 i = []"
| "link_loop portid link (Suc n) i =
    Line (L_link portid i (fst (link i)) (snd (link i)))
    # (if fst (link i) then [] else Sleep # link_loop portid link n (Suc i))"

definition wait_for_link :: "nat \<Rightarrow> (nat \<Rightarrow> bool \<times> u32) \<Rightarrow> dpdk_ev list" where
  "wait_for_link portid link = link_loop portid link 10 0"

section \<open>Main\<close>

text \<open>
  The answers of the library during setup. \<open>e_query p k\<close> is what the \<open>k\<close>-th \<open>print_port_info\<close> of a
  port reads.
\<close>

record dpdk_env =
  e_eal :: int
  e_ports :: nat
  e_query :: "nat \<Rightarrow> nat \<Rightarrow> port_query"
  e_pool :: bool
  e_configure :: "nat \<Rightarrow> int"
  e_rx_queue :: "nat \<Rightarrow> int"
  e_tx_queue :: "nat \<Rightarrow> int"
  e_start :: "nat \<Rightarrow> int"
  e_link :: "nat \<Rightarrow> nat \<Rightarrow> bool \<times> u32"

text \<open>Setup of one port and of the list of ports that are left; \<open>False\<close> when \<open>rte_exit\<close> ended the program.\<close>

definition setup_port :: "dpdk_env \<Rightarrow> nat \<Rightarrow> dpdk_ev list \<times> bool" where
  "setup_port e p =
    (if e_configure e p < 0 then ([Rte_exit (X_configure p)], False)
     else if e_rx_queue e p < 0 then ([Configure p, Rte_exit (X_rx_queue p)], False)
     else if e_tx_queue e p < 0 then ([Configure p, Rx_queue p, Rte_exit (X_tx_queue p)], False)
     else if e_start e p < 0 then ([Configure p, Rx_queue p, Tx_queue p, Rte_exit (X_start p)], False)
     else ([Configure p, Rx_queue p, Tx_queue p, Start p, Promiscuous p] @ wait_for_link p (e_link e p)
           @ [Line (print_port_info p (e_query e p 1))], True))"

fun setup_ports :: "dpdk_env \<Rightarrow> nat list \<Rightarrow> dpdk_ev list \<times> bool" where
  "setup_ports e [] = ([], True)"
| "setup_ports e (p # ps) = (case setup_port e p of (evs, ok) \<Rightarrow>
     if ok then (case setup_ports e ps of (evs', ok') \<Rightarrow> (evs @ evs', ok')) else (evs, False))"

definition dpdk_setup :: "dpdk_env \<Rightarrow> dpdk_ev list \<times> bool" where
  "dpdk_setup e =
    (let hello = [Line L_init_ok, Line (L_ports (e_ports e))];
         infos = map (\<lambda>p. Line (print_port_info p (e_query e p 0))) [0..<e_ports e]
     in if e_eal e < 0 then ([Rte_exit X_eal], False)
        else if e_ports e < 2 then (hello @ [Rte_exit X_few_ports], False)
        else if \<not> e_pool e then (hello @ infos @ [Rte_exit X_no_pool], False)
        else case setup_ports e [0..<e_ports e] of (evs, ok) \<Rightarrow> (hello @ infos @ evs, ok))"

text \<open>The answers during one send, and during one round of the endless loop.\<close>

record send_env =
  s_alloc :: "mbuf option"
  s_mac :: macaddr
  s_maclog :: macaddr
  s_nb_tx :: nat

record round_env = send_env +
  r_stats :: "nat \<Rightarrow> u64 list option"
  r_rx :: "mbuf list"

definition main_send :: "rte \<Rightarrow> 'a send_env_scheme \<Rightarrow> dpdk_ev list" where
  "main_send R s = send_one_test_packet R (s_alloc s) (s_mac s) (s_maclog s) (s_nb_tx s) 0 1"

definition main_round :: "rte \<Rightarrow> round_env \<Rightarrow> dpdk_ev list" where
  "main_round R r =
    main_send R r @ [Line L_periodic, Line (print_port_stats 0 (r_stats r 0)), Line (print_port_stats 1 (r_stats r 1))]
    @ map (\<lambda>(b, m). Recv 1 b) (r_rx r)
    @ concat (map (\<lambda>(b, m). [Line (L_received (length (m_data m))), Free b]) (r_rx r)) @ [Sleep]"

text \<open>The program up to any number of rounds.\<close>

definition dpdk_main :: "rte \<Rightarrow> dpdk_env \<Rightarrow> send_env \<Rightarrow> round_env list \<Rightarrow> dpdk_ev list" where
  "dpdk_main R e first rounds =
    (case dpdk_setup e of (evs, ok) \<Rightarrow>
       if ok then evs @ [Line L_start] @ main_send R first @ concat (map (main_round R) rounds) else evs)"

section \<open>Ownership of mbufs\<close>

text \<open>The mbufs the program holds; \<open>None\<close> when it frees or sends one it does not hold.\<close>

fun hold :: "dpdk_ev \<Rightarrow> nat multiset \<Rightarrow> nat multiset option" where
  "hold (Alloc b) h = Some (add_mset b h)"
| "hold (Recv p b) h = Some (add_mset b h)"
| "hold (Free b) h = (if b \<in># h then Some (h - {#b#}) else None)"
| "hold (Sent p b d) h = (if b \<in># h then Some (h - {#b#}) else None)"
| "hold _ h = Some h"

fun holds :: "dpdk_ev list \<Rightarrow> nat multiset \<Rightarrow> nat multiset option" where
  "holds [] h = Some h"
| "holds (e # es) h = (case hold e h of None \<Rightarrow> None | Some h' \<Rightarrow> holds es h')"

lemma holds_append: "holds (xs @ ys) h = (case holds xs h of None \<Rightarrow> None | Some h' \<Rightarrow> holds ys h')"
  by (induction xs arbitrary: h) (auto split: option.splits)

lemma holds_concat: "(\<And>x. x \<in> set xs \<Longrightarrow> holds (f x) h = Some h) \<Longrightarrow> holds (concat (map f xs)) h = Some h"
  by (induction xs) (auto simp: holds_append)

lemma holds_recv: "holds (map (\<lambda>(b, m). Recv p b) ms) h = Some (image_mset fst (mset ms) + h)"
  by (induction ms arbitrary: h) auto

lemma holds_free_rx:
  "holds (concat (map (\<lambda>(b, m). [Line (L_received (length (m_data m))), Free b]) ms)) (image_mset fst (mset ms) + h) = Some h"
  by (induction ms) auto

lemma holds_sent: "holds (map (\<lambda>(b, m). Sent p b (m_data m)) ms) (image_mset fst (mset ms) + h) = Some h"
  by (induction ms) auto

lemma holds_free: "holds (map (\<lambda>(b, m). Free b) ms) (image_mset fst (mset ms) + h) = Some h"
  by (induction ms) auto

lemma holds_send_one: "holds (send_one_test_packet R al mac maclog nb p q) h = Some h"
  by (simp add: send_one_test_packet_def split: option.splits prod.splits)

lemma holds_round: "holds (main_round R r) h = Some h"
  by (simp add: main_round_def main_send_def holds_append holds_send_one holds_recv holds_free_rx)

lemma holds_burst_loop:
  "burst_loop R al mac p q n i = (evs, pkts) \<Longrightarrow> holds evs h = Some (image_mset fst (mset pkts) + h)"
  by (induction n arbitrary: i evs pkts h) (auto split: option.splits prod.splits if_splits)

text \<open>Whatever the driver takes of a burst, the program gives back the rest.\<close>

lemma holds_burst:
  assumes "\<And>pkts. tx pkts \<le> length pkts"
  shows "holds (send_burst_test_packets R mac0 al mac tx p q) h = Some h"
proof -
  obtain evs pkts where b: "burst_loop R al mac p q BURST_SIZE 0 = (evs, pkts)" by fastforce
  have "holds (map (\<lambda>(b, m). Sent p b (m_data m)) (take k pkts)) (image_mset fst (mset pkts) + h) = Some (image_mset fst (mset (drop k pkts)) + h)" for k
    using holds_sent [of p "take k pkts" "image_mset fst (mset (drop k pkts)) + h"]
    by (metis append_take_drop_id add.assoc image_mset_union mset_append)
  then show ?thesis
    using assms [of pkts] holds_free [of "drop (tx pkts) pkts" h] holds_burst_loop [OF b, of h]
    by (auto simp: send_burst_test_packets_def b Let_def holds_append split: option.splits)
qed

section \<open>What is sent\<close>

definition fresh :: "mbuf option \<Rightarrow> bool" where
  "fresh al \<longleftrightarrow> (case al of None \<Rightarrow> True | Some (b, m) \<Rightarrow> m_data m = [])"

definition test_bytes :: "u8 list \<Rightarrow> bool" where
  "test_bytes d \<longleftrightarrow> length d = 64 \<and> (\<exists>f. parse_udp_frame d = Some f \<and> f_payload f = map of_char ''DPDKTEST'' @ replicate 14 0)"

lemma built_is_test:
  assumes "rte_documented R" "\<forall>p a. mac p = Some a \<longrightarrow> length a = 6" "m_data m = []"
    and "build_test_ipv4_udp_packet R mac m p q = (0, m')"
  shows "test_bytes (m_data m')"
proof -
  have "64 \<le> m_tailroom m" "mac p \<noteq> None" "mac q \<noteq> None"
  proof -
    have a: "append_documented (rte_pktmbuf_append R)" using assms(1) by (simp add: rte_documented_def)
    show "64 \<le> m_tailroom m"
      using append_room [OF a, of 64 m] assms(4) by (auto simp: build_test_ipv4_udp_packet_def Let_def split: if_splits)
    show "mac p \<noteq> None" "mac q \<noteq> None"
      using assms(4) by (auto simp: build_test_ipv4_udp_packet_def Let_def split: option.splits)
  qed
  then obtain src dst where sd: "mac p = Some src" "mac q = Some dst" by auto
  then have l: "length src = 6" "length dst = 6" using assms(2) by auto
  from build_succeeds [OF assms(1,3) \<open>64 \<le> m_tailroom m\<close> sd l] assms(4)
  have "m_data m' = test_frame dst src" by auto
  then show ?thesis
    using test_frame_parses [OF l(2,1)] length_test_frame [OF l(2,1)] by (simp add: test_bytes_def test_tag_def)
qed

lemma send_one_sends_test:
  assumes "rte_documented R" "\<forall>p a. mac p = Some a \<longrightarrow> length a = 6" "fresh al"
    and "Sent o' b d \<in> set (send_one_test_packet R al mac maclog nb p q)"
  shows "o' = p \<and> test_bytes d"
  using assms built_is_test [OF assms(1,2)]
  by (auto simp: send_one_test_packet_def fresh_def split: option.splits prod.splits if_splits)

lemma round_sends: "Sent p b d \<in> set (main_round R r) \<Longrightarrow> Sent p b d \<in> set (main_send R r)"
  by (auto simp: main_round_def)

section \<open>When a port is used\<close>

text \<open>The port an event sends on or receives from, and the calls that have to come before, in their order.\<close>

fun uses_port :: "dpdk_ev \<Rightarrow> nat option" where
  "uses_port (Sent p b d) = Some (unat p)"
| "uses_port (Recv p b) = Some (unat p)"
| "uses_port _ = None"

definition port_setup :: "nat \<Rightarrow> dpdk_ev list" where
  "port_setup p = [Configure p, Rx_queue p, Tx_queue p, Start p]"

lemma link_loop_quiet: "ev \<in> set (link_loop p l n i) \<Longrightarrow> uses_port ev = None" "holds (link_loop p l n i) h = Some h"
  by (induction n arbitrary: i) (auto split: if_splits)

lemma setup_port_events:
  assumes "setup_port e p = (evs, ok)"
  shows "(ok \<longrightarrow> subseq (port_setup p) evs) \<and> (\<forall>ev \<in> set evs. uses_port ev = None) \<and> holds evs h = Some h"
proof -
  have "subseq (port_setup p) (port_setup p @ zs)" for zs using subseq_rev_drop_many [of "port_setup p" "port_setup p" zs] by simp
  with assms show ?thesis
    by (auto simp: setup_port_def wait_for_link_def link_loop_quiet holds_append port_setup_def split: if_splits)
qed

lemma setup_ports_events:
  "setup_ports e ps = (evs, ok) \<Longrightarrow>
   (ok \<longrightarrow> (\<forall>p \<in> set ps. subseq (port_setup p) evs)) \<and> (\<forall>ev \<in> set evs. uses_port ev = None) \<and> holds evs h = Some h"
proof (induction ps arbitrary: evs ok h)
  case Nil
  then show ?case by simp
next
  case (Cons p ps)
  obtain evs1 ok1 where 1: "setup_port e p = (evs1, ok1)" by fastforce
  obtain evs2 ok2 where 2: "setup_ports e ps = (evs2, ok2)" by fastforce
  note E1 = setup_port_events [OF 1, of h] and E2 = Cons.IH [OF 2, of h]
  have "subseq xs evs1 \<Longrightarrow> subseq xs (evs1 @ evs2)" "subseq xs evs2 \<Longrightarrow> subseq xs (evs1 @ evs2)" for xs
    by (auto intro: subseq_rev_drop_many list_emb_append2)
  with Cons.prems 1 2 E1 E2 show ?case by (auto simp: holds_append split: if_splits)
qed

lemma setup_events:
  assumes "dpdk_setup e = (evs, ok)"
  shows "(ok \<longrightarrow> 2 \<le> e_ports e \<and> (\<forall>p < e_ports e. subseq (port_setup p) evs)) \<and> (\<forall>ev \<in> set evs. uses_port ev = None) \<and> holds evs h = Some h"
proof -
  obtain evs' ok' where s: "setup_ports e [0..<e_ports e] = (evs', ok')" by fastforce
  have i: "holds (map (\<lambda>p. Line (print_port_info p (e_query e p 0))) ps) h = Some h" for ps
    by (induction ps) auto
  have "subseq xs evs' \<Longrightarrow> subseq xs (ys @ evs')" for xs ys by (rule list_emb_append2)
  note sub = this [of _ "[Line L_init_ok, Line (L_ports (e_ports e))] @ map (\<lambda>p. Line (print_port_info p (e_query e p 0))) [0..<e_ports e]"]
  show ?thesis
    using assms s setup_ports_events [OF s, of h] sub i
    by (auto simp: dpdk_setup_def Let_def holds_append split: if_splits)
qed

text \<open>What comes after a part without uses is split after it.\<close>

lemma first_use:
  assumes "evs @ zs = xs @ ev # ys" "\<forall>e \<in> set evs. uses_port e = None" "uses_port ev \<noteq> None"
  shows "\<exists>us. xs = evs @ us"
proof -
  from assms(1) obtain us where us: "evs = xs @ us \<and> us @ zs = ev # ys \<or> xs = evs @ us"
    by (auto simp: append_eq_append_conv2)
  have False if e: "evs = xs @ us" "us @ zs = ev # ys" "us \<noteq> []"
  proof -
    from e(2,3) have "ev \<in> set us" by (cases us) simp_all
    then show False using e(1) assms(2,3) by simp
  qed
  with us show ?thesis by (cases "us = []") auto
qed

lemma send_one_uses_all: "list_all (\<lambda>ev. uses_port ev \<in> {None, Some (unat p)}) (send_one_test_packet R al mac maclog nb p q)"
  by (simp add: send_one_test_packet_def split: option.split prod.split)

lemma send_one_uses: "ev \<in> set (send_one_test_packet R al mac maclog nb p q) \<Longrightarrow> uses_port ev = Some n \<Longrightarrow> n = unat p"
  using send_one_uses_all [of p R al mac maclog nb q] by (fastforce simp: list_all_iff)

lemma main_send_uses: "ev \<in> set (main_send R s) \<Longrightarrow> uses_port ev = Some n \<Longrightarrow> n < 2"
  using send_one_uses unfolding main_send_def by fastforce

lemma main_round_uses:
  assumes "ev \<in> set (main_round R r)" "uses_port ev = Some n"
  shows "n < 2"
proof (cases "ev \<in> set (main_send R r)")
  case True
  then show ?thesis using main_send_uses assms(2) by blast
next
  case False
  with assms show ?thesis by (auto simp: main_round_def)
qed

section \<open>Guarantees\<close>

text \<open>
  C33: through setup, the first packet and any number of rounds, whatever the library answers, the
  program never frees or sends an mbuf it does not hold and holds none at the end of a round; a burst keeps
  the same balance whenever \<open>rte_eth_tx_burst\<close> takes at most what it was given. With DPDK as documented every
  frame sent is the 64-byte test frame and leaves on port 0. Before the first packet is sent on or received from a port, at least two ports
  are there, that port is one of them, and every one of them has been configured, given its two queues and started, in this order.
\<close>

theorem dpdk_main_balanced:
  assumes R: "rte_documented R"
    and sends: "\<forall>s \<in> insert first (set (map send_env.truncate rounds)).
      fresh (s_alloc s) \<and> (\<forall>p a. s_mac s p = Some a \<longrightarrow> length a = 6)"
    and tx: "\<forall>pkts. tx pkts \<le> length pkts"
  shows "holds (dpdk_main R e first rounds) {#} = Some {#}
    \<and> holds (send_burst_test_packets R mac0 al mac tx p q) {#} = Some {#}
    \<and> (\<forall>o' b d. Sent o' b d \<in> set (dpdk_main R e first rounds) \<longrightarrow> o' = 0 \<and> test_bytes d)
    \<and> (\<forall>xs ev ys n. dpdk_main R e first rounds = xs @ ev # ys \<and> uses_port ev = Some n \<longrightarrow>
         2 \<le> e_ports e \<and> n < e_ports e
         \<and> (\<forall>m < e_ports e. subseq [Configure m, Rx_queue m, Tx_queue m, Start m] xs))"
proof -
  obtain evs ok where s: "dpdk_setup e = (evs, ok)" by fastforce
  note E = setup_events [OF s, of "{#}"]
  have "holds (concat (map (main_round R) rounds)) h = Some h" for h
    by (intro holds_concat) (rule holds_round)
  then have bal: "holds (dpdk_main R e first rounds) {#} = Some {#}"
    using E by (simp add: dpdk_main_def s holds_append main_send_def holds_send_one)
  have one: "o' = 0 \<and> test_bytes d" if "Sent o' b d \<in> set (main_send R (t :: 'z send_env_scheme))" "fresh (s_alloc t)"
    "\<forall>p a. s_mac t p = Some a \<longrightarrow> length a = 6" for o' b d t
    using that send_one_sends_test [OF R] unfolding main_send_def by blast
  have rnd: "o' = 0 \<and> test_bytes d" if "Sent o' b d \<in> set (concat (map (main_round R) rounds))" for o' b d
  proof -
    from that obtain r where r: "r \<in> set rounds" "Sent o' b d \<in> set (main_send R r)"
      using round_sends [of o' b d R] by auto
    with sends have "fresh (s_alloc r)" "\<forall>p a. s_mac r p = Some a \<longrightarrow> length a = 6"
      by (auto simp: send_env.defs)
    with r(2) show ?thesis using send_one_sends_test [OF R] unfolding main_send_def by blast
  qed
  have sent: "o' = 0 \<and> test_bytes d" if "Sent o' b d \<in> set (dpdk_main R e first rounds)" for o' b d
    using that E one [of o' b d first] rnd [of o' b d] sends by (auto simp: dpdk_main_def s split: if_splits)
  have used: "2 \<le> e_ports e \<and> n < e_ports e \<and> (\<forall>m < e_ports e. subseq (port_setup m) xs)"
    if run: "dpdk_main R e first rounds = xs @ ev # ys" and u: "uses_port ev = Some n" for xs ev ys n
  proof -
    let ?rest = "[Line L_start] @ main_send R first @ concat (map (main_round R) rounds)"
    have ok: ok "evs @ ?rest = xs @ ev # ys" using run E u by (auto simp: dpdk_main_def s split: if_splits)
    then obtain us where xs: "xs = evs @ us" using first_use [OF ok(2)] E u by blast
    with ok(2) have "ev \<in> set ?rest" by auto
    with u have "n < 2" using main_send_uses [of ev R first] main_round_uses [of ev R] by auto
    with E ok(1) xs show ?thesis by (auto intro: subseq_rev_drop_many)
  qed
  show ?thesis using bal holds_burst [of tx] tx sent used unfolding port_setup_def by blast
qed

theorem dpdk_main_balanced_witness:
  "\<exists>d. Sent 0 7 d \<in> set (dpdk_main rte_reference
      \<lparr>e_eal = 0, e_ports = 2, e_query = \<lambda>p k. \<lparr>pq_info = None, pq_name = None, pq_mac = None, pq_socket = 0, pq_link = (True, 1000)\<rparr>,
       e_pool = True, e_configure = \<lambda>p. 0, e_rx_queue = \<lambda>p. 0, e_tx_queue = \<lambda>p. 0, e_start = \<lambda>p. 0, e_link = \<lambda>p i. (True, 1000)\<rparr>
      \<lparr>s_alloc = Some (7, \<lparr>m_data = [], m_tailroom = 2048\<rparr>), s_mac = \<lambda>p. Some [2, 0, 0, 0, 0, ucast p],
       s_maclog = \<lambda>p. Some [2, 0, 0, 0, 0, ucast p], s_nb_tx = 1\<rparr> []) \<and> test_bytes d"
proof -
  let ?e = "\<lparr>e_eal = 0, e_ports = 2, e_query = \<lambda>p k. \<lparr>pq_info = None, pq_name = None, pq_mac = None, pq_socket = 0, pq_link = (True, 1000)\<rparr>,
       e_pool = True, e_configure = \<lambda>p. 0, e_rx_queue = \<lambda>p. 0, e_tx_queue = \<lambda>p. 0, e_start = \<lambda>p. 0, e_link = \<lambda>p i. (True, 1000)\<rparr> :: dpdk_env"
  let ?s = "\<lparr>s_alloc = Some (7, \<lparr>m_data = [], m_tailroom = 2048\<rparr>), s_mac = \<lambda>p. Some [2, 0, 0, 0, 0, ucast p],
       s_maclog = \<lambda>p. Some [2, 0, 0, 0, 0, ucast p], s_nb_tx = 1\<rparr> :: send_env"
  have "Sent 0 7 (test_frame [2, 0, 0, 0, 0, 1] [2, 0, 0, 0, 0, 0]) \<in> set (main_send rte_reference ?s)"
    using build_succeeds [OF rte_reference_documented, of "\<lparr>m_data = [], m_tailroom = 2048\<rparr>" "s_mac ?s" 0 "[2, 0, 0, 0, 0, 0]" 1 "[2, 0, 0, 0, 0, 1]"]
    by (simp add: main_send_def send_one_test_packet_def)
  then have "Sent 0 7 (test_frame [2, 0, 0, 0, 0, 1] [2, 0, 0, 0, 0, 0]) \<in> set (dpdk_main rte_reference ?e ?s [])"
    by (simp add: dpdk_main_def dpdk_setup_def setup_port_def upt_rec Let_def)
  then show ?thesis
    using dpdk_main_balanced [OF rte_reference_documented, of ?s "[]" "\<lambda>pkts. 0" ?e] by (auto simp: fresh_def)
qed

end
