(* ===== verification/Usb_Button.thy ===== *)
theory Usb_Button
  imports Kernel_Resources
begin

text \<open>
  The USB panic button \<open>myusb/myusb.c\<close>: an interrupt URB is kept in flight, its completion
  callback stores the report and resubmits the URB, and an ioctl returns the first byte of the last report. The host
  controller and the USB core are parameters: which endpoints there are, what a
  transfer brings, what each call returns.
\<close>

section \<open>The device\<close>

definition REPORT_SIZE :: nat where "REPORT_SIZE = 8"

record usb_panicb =
  int_in_ep :: u8
  int_in_buffer :: "u8 list"
  int_in_size :: nat
  last_report :: "u8 list"
  last_report_len :: nat
  button :: u32

text \<open>
  The completion callback for a URB with this status, actual length and context: \<open>None\<close> when it reads
  past \<open>int_in_buffer\<close>, otherwise whether it goes on to \<open>usb_submit_urb\<close>, and the context.
\<close>

definition panicb_int_callback :: "int \<Rightarrow> nat \<Rightarrow> usb_panicb option \<Rightarrow> (bool \<times> usb_panicb option) option" where
  "panicb_int_callback status actual_length ctx =
    (case ctx of None \<Rightarrow> Some (False, None)
     | Some dev \<Rightarrow>
         if status = 0 then
           (if actual_length = 0 then Some (True, Some dev)
            else let len = min actual_length REPORT_SIZE
                 in if len > length (int_in_buffer dev) then None
                    else let rep = memcpy_at (replicate REPORT_SIZE 0) 0 (take len (int_in_buffer dev))
                         in Some (True, Some (dev\<lparr>last_report_len := len, last_report := rep,
                                                  button := (if len > 0 then ucast (rep ! 0) else 0)\<rparr>)))
         else if status = - ENOENT \<or> status = - ECONNRESET \<or> status = - ESHUTDOWN then Some (False, Some dev)
         else Some (True, Some dev))"

text \<open>
  \<open>interface\<close> is the answer of \<open>usb_find_interface\<close>, with the interface's data. The new
  \<open>private_data\<close> is returned.
\<close>

definition panicb_open :: "usb_panicb option option \<Rightarrow> int \<times> usb_panicb option" where
  "panicb_open interface = (case interface of None \<Rightarrow> (- ENODEV, None)
     | Some None \<Rightarrow> (- ENODEV, None)
     | Some (Some dev) \<Rightarrow> (0, Some dev))"

text \<open>\<open>fault\<close> is whether \<open>copy_to_user\<close> fails; the second result is what reaches the user.\<close>

definition panicb_ioctl :: "bool \<Rightarrow> usb_panicb option \<Rightarrow> u32 \<Rightarrow> int \<times> u32 option" where
  "panicb_ioctl fault private_data cmd =
    (case private_data of None \<Rightarrow> (- ENODEV, None)
     | Some dev \<Rightarrow> if cmd = 0 then (if fault then (- EFAULT, None) else (0, Some (button dev)))
                   else (- EINVAL, None))"

section \<open>Probe and disconnect\<close>

record usb_ep =
  bEndpointAddress :: u8
  ep_int_in :: bool
  ep_maxp :: nat

text \<open>The loop over the endpoints stops at the first interrupt IN endpoint.\<close>

fun find_int_in :: "usb_ep list \<Rightarrow> usb_ep option" where
  "find_int_in [] = None"
| "find_int_in (ep # eps) = (if ep_int_in ep then Some ep else find_int_in eps)"

record usb_env =
  ue_alloc :: bool
  ue_endpoints :: "usb_ep list"
  ue_garbage :: "nat \<Rightarrow> u8"
  ue_buffer_ok :: bool
  ue_urb :: bool
  ue_register_dev :: int
  ue_submit :: int

text \<open>
  The result is the value returned, the calls and the device. \<open>ue_garbage\<close> is what \<open>kmalloc\<close> leaves in the new
  buffer. Freeing NULL is no call.
\<close>

definition panicb_probe :: "usb_env \<Rightarrow> int \<times> kcall list \<times> usb_panicb option" where
  "panicb_probe e =
    (let got = [Acq (Mem ''panicb_dev''), Acq (Named ''udev'')];
         drop_dev = [Rel (Named ''udev''), Rel (Mem ''panicb_dev'')];
         buf = [Acq (Mem ''int_in_buffer'')]; urb = [Acq (Named ''urb'')];
         error = [Rel (Named ''urb''), Rel (Mem ''int_in_buffer'')] @ drop_dev
     in if \<not> ue_alloc e then (- ENOMEM, [], None)
        else case find_int_in (ue_endpoints e) of None \<Rightarrow> (- ENODEV, got @ drop_dev, None)
             | Some ep \<Rightarrow>
                 let in_size = (if ep_maxp ep < REPORT_SIZE then REPORT_SIZE else ep_maxp ep)
                 in if \<not> ue_buffer_ok e then (- ENOMEM, got @ drop_dev, None)
                    else if \<not> ue_urb e then (- ENOMEM, got @ buf @ [Rel (Mem ''int_in_buffer'')] @ drop_dev, None)
                    else if ue_register_dev e < 0 then (ue_register_dev e, got @ buf @ urb @ error, None)
                    else if ue_submit e \<noteq> 0 then
                      (ue_submit e, got @ buf @ urb @ [Acq (Device 0), Use (Named ''urb''), Rel (Device 0)] @ error, None)
                    else (0, got @ buf @ urb @ [Acq (Device 0), Use (Named ''urb'')],
                          Some \<lparr>int_in_ep = bEndpointAddress ep, int_in_buffer = map (ue_garbage e) [0..<in_size], int_in_size = in_size,
                                last_report = replicate REPORT_SIZE 0, last_report_len = 0, button = 0\<rparr>))"

text \<open>\<open>data\<close> is whether the interface data is set.\<close>

definition panicb_disconnect :: "bool \<Rightarrow> kcall list" where
  "panicb_disconnect intfdata =
    [Rel (Device 0)] @ (if intfdata then [Use (Named ''urb''), Rel (Named ''urb''), Rel (Mem ''int_in_buffer''),
                                          Rel (Named ''udev''), Rel (Mem ''panicb_dev'')] else [])"

definition usb_panicb_init :: "int \<Rightarrow> int \<times> kcall list" where
  "usb_panicb_init retval = register_driver retval"

definition usb_panicb_exit :: "kcall list list \<Rightarrow> kcall list" where
  "usb_panicb_exit disconnects = driver_unregister disconnects"

section \<open>Lifecycle\<close>

text \<open>The driver core connects one button at a time; its resources are the probe's.\<close>

definition usb_probe_calls :: "usb_env \<Rightarrow> int \<times> kcall list" where
  "usb_probe_calls e = (case panicb_probe e of (ret, calls, dev) \<Rightarrow> (ret, calls))"

definition usb_owned :: "usb_env \<Rightarrow> resource multiset" where
  "usb_owned e = {#Mem ''panicb_dev'', Named ''udev'', Mem ''int_in_buffer'', Named ''urb'', Device 0#}"

interpretation usb: plain_driver usb_probe_calls "\<lambda>e. panicb_disconnect True" usb_owned
proof unfold_locales
  fix h :: "resource multiset" and e
  show "fst (usb_probe_calls e) = 0 \<Longrightarrow> run_calls (snd (usb_probe_calls e)) h = Some (usb_owned e + h)"
    by (auto simp: usb_probe_calls_def panicb_probe_def usb_owned_def Let_def add_mset_commute split: option.splits if_splits)
  show "fst (usb_probe_calls e) \<noteq> 0 \<Longrightarrow> run_calls (snd (usb_probe_calls e)) h = Some h"
    by (auto simp: usb_probe_calls_def panicb_probe_def Let_def split: option.splits if_splits)
  show "run_calls (panicb_disconnect True) (usb_owned e + h) = Some h"
    by (simp add: panicb_disconnect_def usb_owned_def)
qed

lemma usb_session:
  "run_calls (snd (usb_panicb_init 0) @ concat (map (\<lambda>e. snd (usb_probe_calls e)) es)
     @ usb_panicb_exit (map (\<lambda>e. panicb_disconnect True) (filter (\<lambda>e. fst (usb_probe_calls e) = 0) es))) h = Some h"
  using usb.module_session [of 0 es h] by (simp add: usb_panicb_init_def usb_panicb_exit_def register_driver_def)

section \<open>The stream of reports\<close>

text \<open>
  A completion of the URB: its status, the bytes the host controller stored, and what the
  resubmission of the callback returns. Without a URB in flight nothing completes.
\<close>

datatype completion = Completion (c_status: int) (c_bytes: "u8 list") (c_resubmit: int)

fun complete :: "completion \<Rightarrow> usb_panicb \<times> bool \<Rightarrow> (usb_panicb \<times> bool) option" where
  "complete c (dev, in_flight) =
    (if \<not> in_flight then Some (dev, False)
     else case panicb_int_callback (c_status c) (length (c_bytes c))
                 (Some (dev\<lparr>int_in_buffer := memcpy_at (int_in_buffer dev) 0 (c_bytes c)\<rparr>)) of
            Some (submits, Some dev') \<Rightarrow> Some (dev', submits \<and> c_resubmit c = 0)
          | _ \<Rightarrow> None)"

fun completes :: "completion list \<Rightarrow> usb_panicb \<times> bool \<Rightarrow> (usb_panicb \<times> bool) option" where
  "completes [] s = Some s"
| "completes (c # cs) s = (case complete c s of None \<Rightarrow> None | Some s' \<Rightarrow> completes cs s')"

text \<open>The reports that are heard: those of good transfers, up to the first completion after which none follows.\<close>

definition stops :: "completion \<Rightarrow> bool" where
  "stops c \<longleftrightarrow> c_status c \<in> {- ENOENT, - ECONNRESET, - ESHUTDOWN} \<or> c_resubmit c \<noteq> 0"

fun heard :: "completion list \<Rightarrow> u8 list list" where
  "heard [] = []"
| "heard (c # cs) = (if c_status c = 0 \<and> c_bytes c \<noteq> [] then [c_bytes c] else []) @ (if stops c then [] else heard cs)"

definition pad8 :: "u8 list \<Rightarrow> u8 list" where
  "pad8 bs = take 8 bs @ replicate (8 - length bs) 0"

definition panicb_ok :: "usb_panicb \<Rightarrow> bool" where
  "panicb_ok dev \<longleftrightarrow> 8 \<le> int_in_size dev \<and> length (int_in_buffer dev) = int_in_size dev
     \<and> length (last_report dev) = 8 \<and> last_report_len dev \<le> 8"

definition shows_report :: "usb_panicb \<Rightarrow> u8 list \<Rightarrow> bool" where
  "shows_report dev bs \<longleftrightarrow> last_report dev = pad8 bs \<and> last_report_len dev = min (length bs) 8 \<and> button dev = ucast (hd bs)"

lemma complete_step:
  assumes "panicb_ok dev" "length (c_bytes c) \<le> int_in_size dev"
  obtains dev' where "complete c (dev, True) = Some (dev', \<not> stops c)" "panicb_ok dev'" "int_in_size dev' = int_in_size dev"
    "if c_status c = 0 \<and> c_bytes c \<noteq> [] then shows_report dev' (c_bytes c)
     else last_report dev' = last_report dev \<and> last_report_len dev' = last_report_len dev \<and> button dev' = button dev"
proof -
  let ?b = "memcpy_at (int_in_buffer dev) 0 (c_bytes c)"
  have l: "length ?b = int_in_size dev" using assms by (simp add: panicb_ok_def)
  show ?thesis
  proof (cases "c_status c = 0 \<and> c_bytes c \<noteq> []")
    case True
    let ?n = "min (length (c_bytes c)) 8"
    have t: "take ?n ?b = take 8 (c_bytes c)" by (auto simp: memcpy_at_def min_def)
    have p: "memcpy_at (replicate 8 0) 0 (take 8 (c_bytes c)) = pad8 (c_bytes c)"
      by (simp add: memcpy_at_def pad8_def)
    have h: "pad8 (c_bytes c) ! 0 = hd (c_bytes c)" using True by (cases "c_bytes c") (auto simp: pad8_def)
    let ?d = "dev\<lparr>int_in_buffer := ?b, last_report_len := ?n, last_report := pad8 (c_bytes c), button := ucast (hd (c_bytes c))\<rparr>"
    have "complete c (dev, True) = Some (?d, \<not> stops c)"
      using True l t p h assms by (auto simp: panicb_int_callback_def REPORT_SIZE_def Let_def stops_def panicb_ok_def)
    moreover have "panicb_ok ?d" using assms l by (simp add: panicb_ok_def pad8_def)
    ultimately show ?thesis using that [of ?d] True by (simp add: shows_report_def)
  next
    case False
    then have "complete c (dev, True) = Some (dev\<lparr>int_in_buffer := ?b\<rparr>, \<not> stops c)"
      by (auto simp: panicb_int_callback_def stops_def)
    then show ?thesis using that [of "dev\<lparr>int_in_buffer := ?b\<rparr>"] False assms l by (auto simp: panicb_ok_def)
  qed
qed

lemma completes_idle: "completes cs (dev, False) = Some (dev, False)"
  by (induction cs) auto

lemma completes_heard:
  assumes "panicb_ok dev" "\<forall>c\<in>set cs. length (c_bytes c) \<le> int_in_size dev"
  shows "\<exists>dev' fl. completes cs (dev, True) = Some (dev', fl) \<and> panicb_ok dev' \<and> (fl \<longleftrightarrow> list_all (\<lambda>c. \<not> stops c) cs)
    \<and> (if heard cs = [] then last_report dev' = last_report dev \<and> last_report_len dev' = last_report_len dev \<and> button dev' = button dev
       else shows_report dev' (last (heard cs)))"
  using assms
proof (induction cs arbitrary: dev)
  case Nil
  then show ?case by auto
next
  case (Cons c cs)
  obtain d where d: "complete c (dev, True) = Some (d, \<not> stops c)" "panicb_ok d" "int_in_size d = int_in_size dev"
    "if c_status c = 0 \<and> c_bytes c \<noteq> [] then shows_report d (c_bytes c)
     else last_report d = last_report dev \<and> last_report_len d = last_report_len dev \<and> button d = button dev"
    using complete_step [of dev c] Cons.prems by auto
  show ?case
  proof (cases "stops c")
    case True
    with d show ?thesis by (auto simp: completes_idle)
  next
    case False
    obtain d' fl where "completes cs (d, True) = Some (d', fl)" "panicb_ok d'" "fl \<longleftrightarrow> list_all (\<lambda>c. \<not> stops c) cs"
      "if heard cs = [] then last_report d' = last_report d \<and> last_report_len d' = last_report_len d \<and> button d' = button d
       else shows_report d' (last (heard cs))"
      using Cons.IH [of d] Cons.prems d(2,3) by auto
    with d False show ?thesis by (auto simp: shows_report_def split: if_splits)
  qed
qed

lemma probed_ok:
  assumes "panicb_probe e = (0, calls, Some dev)"
  shows "panicb_ok dev \<and> last_report dev = pad8 [] \<and> last_report_len dev = 0 \<and> button dev = 0"
  using assms by (auto simp: panicb_probe_def panicb_ok_def REPORT_SIZE_def pad8_def Let_def split: option.splits if_splits)

section \<open>Guarantees\<close>

text \<open>
  C34: after a successful probe, any sequence of completions that keep to the URB's buffer runs
  without a read past that buffer, and the ioctl returns the first byte of the last report heard (0 before the first), the stored
  report being its first eight bytes padded with zeros. Empty and failed transfers change nothing. Once the URB is
  unlinked, or one resubmission fails, no URB is in flight and later presses are never seen.
\<close>

theorem usb_button_reports:
  assumes "panicb_probe e = (0, calls, Some dev)" "\<forall>c\<in>set cs. length (c_bytes c) \<le> int_in_size dev"
  defines "reported \<equiv> (if heard cs = [] then [] else last (heard cs))"
  shows "\<exists>dev' fl. completes cs (dev, True) = Some (dev', fl) \<and> (fl \<longleftrightarrow> list_all (\<lambda>c. \<not> stops c) cs)
    \<and> last_report dev' = pad8 reported \<and> last_report_len dev' = min (length reported) 8
    \<and> panicb_ioctl False (Some dev') 0 = (0, Some (if reported = [] then 0 else ucast (hd reported)))"
proof -
  have ne: "[] \<notin> set (heard cs)" by (induction cs) auto
  have "reported \<noteq> []" if "heard cs \<noteq> []"
    using that ne by (metis last_in_set reported_def)
  then show ?thesis
    using probed_ok [OF assms(1)] completes_heard [of dev cs] assms(2)
    by (fastforce simp: panicb_ioctl_def shows_report_def reported_def split: if_splits)
qed

text \<open>A press, an empty transfer, a release, an unlinked URB; the last report comes too late.\<close>

theorem usb_button_reports_witness:
  "\<exists>dev dev' fl. snd (snd (panicb_probe \<lparr>ue_alloc = True, ue_endpoints = [\<lparr>bEndpointAddress = 0x81, ep_int_in = True, ep_maxp = 8\<rparr>],
       ue_garbage = \<lambda>i. 0xa5, ue_buffer_ok = True, ue_urb = True, ue_register_dev = 0, ue_submit = 0\<rparr>)) = Some dev
    \<and> completes [Completion 0 [1, 7] 0, Completion 0 [] 0, Completion 0 [2] 0, Completion (- 104) [] 0, Completion 0 [3] 0] (dev, True) = Some (dev', fl)
    \<and> \<not> fl \<and> panicb_ioctl False (Some dev') 0 = (0, Some 2)"
proof -
  let ?e = "\<lparr>ue_alloc = True, ue_endpoints = [\<lparr>bEndpointAddress = 0x81, ep_int_in = True, ep_maxp = 8\<rparr>],
       ue_garbage = \<lambda>i. 0xa5, ue_buffer_ok = True, ue_urb = True, ue_register_dev = 0, ue_submit = 0\<rparr>"
  let ?d = "\<lparr>int_in_ep = 0x81, int_in_buffer = map (\<lambda>i. 0xa5) [0..<8], int_in_size = 8, last_report = replicate 8 0, last_report_len = 0, button = 0\<rparr>"
  let ?cs = "[Completion 0 [1, 7] 0, Completion 0 [] 0, Completion 0 [2] 0, Completion (- 104) [] 0, Completion 0 [3] 0]"
  obtain calls where p: "panicb_probe ?e = (0, calls, Some ?d)" by (simp add: panicb_probe_def REPORT_SIZE_def Let_def del: upt_Suc)
  have "heard ?cs = [[1, 7], [2]]" by (simp add: stops_def)
  then show ?thesis using usb_button_reports [OF p, of ?cs] p by (auto simp: stops_def)
qed

end
