(* ===== verification/Kprobe.thy ===== *)
theory Kprobe
  imports C_Strings
begin

text \<open>
  The kprobe switch \<open>mykprobe/kprobe_toggle.c\<close>: a module parameter \<open>probe_enabled\<close> with a set
  and a get callback, and the module's init and exit. The state holds the module's variables and, as what
  the kernel keeps, whether the probe is armed. \<open>kstrtoint\<close> and the answers of the kprobe interface are
  parameters; the module ignores what \<open>enable_kprobe\<close> and \<open>disable_kprobe\<close> return.
\<close>

section \<open>The module\<close>

record kprobe_toggle =
  probe_enabled :: int
  kp_registered :: bool
  kp_armed :: bool

definition kprobe_load :: kprobe_toggle where
  "kprobe_load = \<lparr>probe_enabled = 1, kp_registered = False, kp_armed = False\<rparr>"

text \<open>The kernel's side: the call changes the probe only when it returns 0.\<close>

definition enable_kprobe :: "int \<Rightarrow> kprobe_toggle \<Rightarrow> kprobe_toggle" where
  "enable_kprobe ret k = (if ret = 0 then k\<lparr>kp_armed := True\<rparr> else k)"

definition disable_kprobe :: "int \<Rightarrow> kprobe_toggle \<Rightarrow> kprobe_toggle" where
  "disable_kprobe ret k = (if ret = 0 then k\<lparr>kp_armed := False\<rparr> else k)"

definition set_probe_enabled :: "(string \<Rightarrow> int + int) \<Rightarrow> int \<Rightarrow> string \<Rightarrow> kprobe_toggle \<Rightarrow> int \<times> kprobe_toggle" where
  "set_probe_enabled kstrtoint sw val k =
    (case kstrtoint val of Inl ret \<Rightarrow> (ret, k)
     | Inr new_val \<Rightarrow>
         if new_val \<noteq> 0 \<and> new_val \<noteq> 1 then (- EINVAL, k)
         else if \<not> kp_registered k then (- EINVAL, k)
         else if new_val \<noteq> 0 \<and> probe_enabled k = 0 then (0, (enable_kprobe sw k)\<lparr>probe_enabled := 1\<rparr>)
         else if new_val = 0 \<and> probe_enabled k \<noteq> 0 then (0, (disable_kprobe sw k)\<lparr>probe_enabled := 0\<rparr>)
         else (0, k))"

definition get_probe_enabled :: "kprobe_toggle \<Rightarrow> string" where
  "get_probe_enabled k = print_d (probe_enabled k) @ [CHR 0x0A]"

text \<open>\<open>reg\<close> and \<open>sw\<close> are the results of \<open>register_kprobe\<close> and \<open>disable_kprobe\<close>; a registered probe starts armed.\<close>

definition kprobe_toggle_init :: "int \<Rightarrow> int \<Rightarrow> kprobe_toggle \<Rightarrow> int \<times> kprobe_toggle" where
  "kprobe_toggle_init reg sw k =
    (if reg < 0 then (reg, k)
     else let k1 = k\<lparr>kp_registered := True, kp_armed := True\<rparr>
          in (0, if probe_enabled k1 = 0 then disable_kprobe sw k1 else k1))"

definition kprobe_toggle_exit :: "kprobe_toggle \<Rightarrow> kprobe_toggle" where
  "kprobe_toggle_exit k = (if kp_registered k then k\<lparr>kp_registered := False, kp_armed := False\<rparr> else k)"

section \<open>Life of the module\<close>

text \<open>
  Parameters given on the command line are set before init runs, and a callback that fails
  makes the load fail; after init, writes to the parameter file and exit.
\<close>

datatype kp_phase = Loading | Running | Failed | Gone

inductive kp_reach :: "(string \<Rightarrow> int + int) \<Rightarrow> bool \<Rightarrow> kp_phase \<Rightarrow> kprobe_toggle \<Rightarrow> bool" for kstr where
  load: "kp_reach kstr True Loading kprobe_load"
| param: "kp_reach kstr w Loading k \<Longrightarrow> set_probe_enabled kstr sw val k = (ret, k') \<Longrightarrow>
    kp_reach kstr w (if ret = 0 then Loading else Failed) k'"
| init: "kp_reach kstr w Loading k \<Longrightarrow> kprobe_toggle_init reg sw k = (ret, k') \<Longrightarrow>
    kp_reach kstr w (if ret = 0 then Running else Failed) k'"
| sysfs: "kp_reach kstr w Running k \<Longrightarrow> set_probe_enabled kstr sw val k = (ret, k') \<Longrightarrow> kp_reach kstr (w \<and> sw = 0) Running k'"
| exit: "kp_reach kstr w Running k \<Longrightarrow> kp_reach kstr w Gone (kprobe_toggle_exit k)"

text \<open>
  The flag \<open>w\<close> of \<open>kp_reach\<close> records whether every switch so far worked. Before init the variable has its
  initial value, so the branch of init that starts the probe disabled is never taken.
\<close>

lemma kp_reach_inv:
  assumes "kp_reach kstr w ph k"
  shows "(probe_enabled k = 0 \<or> probe_enabled k = 1) \<and> (kp_registered k \<longleftrightarrow> ph = Running)
    \<and> (ph \<noteq> Running \<longrightarrow> \<not> kp_armed k) \<and> (ph \<in> {Loading, Failed} \<longrightarrow> probe_enabled k = 1)
    \<and> (w \<and> ph = Running \<longrightarrow> (kp_armed k \<longleftrightarrow> probe_enabled k = 1))"
  using assms
proof induction
  case load
  then show ?case by (simp add: kprobe_load_def)
next
  case (param w k sw val ret k')
  then have "k' = k" by (auto simp: set_probe_enabled_def split: sum.splits if_splits)
  with param show ?case by auto
next
  case (init w k reg sw ret k')
  then show ?case by (auto simp: kprobe_toggle_init_def Let_def split: if_splits)
next
  case (sysfs w k sw val ret k')
  then show ?case
    by (auto simp: set_probe_enabled_def enable_kprobe_def disable_kprobe_def split: sum.splits if_splits)
next
  case (exit w k)
  then show ?case by (simp add: kprobe_toggle_exit_def)
qed

lemma get_texts: "print_d 0 = ''0''" "print_d 1 = ''1''"
  by code_simp+

section \<open>Guarantees\<close>

text \<open>
  C35: in every state the module can reach, \<open>probe_enabled\<close> is 0 or 1 and the probe is registered
  exactly while the module runs; as long as every switch worked, the probe is armed exactly when the parameter reads 1.
  Writing 0 or 1 to a running module is read back. A parameter given when the module is loaded is
  refused whatever its value, so a load with \<open>probe_enabled=0\<close> always fails and init never starts the probe disabled.
\<close>

theorem kprobe_states:
  assumes "kp_reach kstr w ph k"
  shows "(probe_enabled k = 0 \<or> probe_enabled k = 1) \<and> (kp_registered k \<longleftrightarrow> ph = Running)
    \<and> (w \<and> ph = Running \<longrightarrow> (kp_armed k \<longleftrightarrow> get_probe_enabled k = ''1'' @ [CHR 0x0A]))
    \<and> (ph = Running \<and> kstr val = Inr v \<and> v \<in> {0, 1} \<longrightarrow> fst (set_probe_enabled kstr sw val k) = 0
         \<and> get_probe_enabled (snd (set_probe_enabled kstr sw val k)) = print_d v @ [CHR 0x0A])
    \<and> (ph = Loading \<and> (\<forall>e. kstr val = Inl e \<longrightarrow> e \<noteq> 0) \<longrightarrow> fst (set_probe_enabled kstr sw val k) \<noteq> 0)
    \<and> (ph = Loading \<and> kprobe_toggle_init reg sw k = (0, k') \<longrightarrow> kp_armed k')"
proof -
  note inv = kp_reach_inv [OF assms]
  have armed: "w \<and> ph = Running \<longrightarrow> (kp_armed k \<longleftrightarrow> get_probe_enabled k = ''1'' @ [CHR 0x0A])"
    using inv by (auto simp: get_probe_enabled_def get_texts)
  have wr: "fst (set_probe_enabled kstr sw val k) = 0 \<and> get_probe_enabled (snd (set_probe_enabled kstr sw val k)) = print_d v @ [CHR 0x0A]"
    if "ph = Running" "kstr val = Inr v" "v \<in> {0, 1}"
    using inv that by (auto simp: set_probe_enabled_def get_probe_enabled_def enable_kprobe_def disable_kprobe_def)
  have ld: "fst (set_probe_enabled kstr sw val k) \<noteq> 0" if "ph = Loading" "\<forall>e. kstr val = Inl e \<longrightarrow> e \<noteq> 0"
    using inv that by (auto simp: set_probe_enabled_def split: sum.splits)
  have "kp_armed k'" if "ph = Loading" "kprobe_toggle_init reg sw k = (0, k')"
    using inv that by (auto simp: kprobe_toggle_init_def Let_def split: if_splits)
  with inv armed wr ld show ?thesis by blast
qed

text \<open>A module that was loaded and is told to disable the probe.\<close>

theorem kprobe_states_witness:
  "get_probe_enabled (snd (set_probe_enabled (\<lambda>s. if s = ''0'' then Inr 0 else Inl (- EINVAL)) 0 ''0''
     \<lparr>probe_enabled = 1, kp_registered = True, kp_armed = True\<rparr>)) = ''0'' @ [CHR 0x0A]"
proof -
  let ?kstr = "\<lambda>s. if s = ''0'' then Inr 0 else Inl (- EINVAL) :: int + int"
  have "kp_reach ?kstr True (if (0::int) = 0 then Running else Failed) \<lparr>probe_enabled = 1, kp_registered = True, kp_armed = True\<rparr>"
    by (rule kp_reach.init [OF kp_reach.load, of 0 0]) (simp add: kprobe_toggle_init_def kprobe_load_def)
  then have r: "kp_reach ?kstr True Running \<lparr>probe_enabled = 1, kp_registered = True, kp_armed = True\<rparr>" by simp
  show ?thesis using kprobe_states [OF r, of "''0''" 0] by (simp add: get_texts)
qed

text \<open>When a switch fails the parameter and the probe part: enabling answers 0 and reads back 1 with the probe still disarmed.\<close>

lemma failed_switch_hidden:
  assumes "kstr val = Inr 1" "kp_registered k" "probe_enabled k = 0" "\<not> kp_armed k" "sw \<noteq> 0"
  shows "fst (set_probe_enabled kstr sw val k) = 0 \<and> probe_enabled (snd (set_probe_enabled kstr sw val k)) = 1
    \<and> \<not> kp_armed (snd (set_probe_enabled kstr sw val k))"
  using assms by (simp add: set_probe_enabled_def enable_kprobe_def)

end
