(* ===== verification/Nf_Hook.thy ===== *)
theory Nf_Hook
  imports Kernel_Resources
begin

text \<open>
  The netfilter hook \<open>mynfhook/nf_hook.c\<close>: IPv4 packets for one address that arrive on one
  interface are put into an Ethernet frame and sent out of another, all others pass. At the pre-routing hook the data of
  an \<open>sk_buff\<close> starts at the IP header. The kernel's answers (whether the header can be pulled, whether the
  output device exists, whether headroom can be made) and \<open>in_aton\<close> are parameters. \<open>dev_queue_xmit\<close>
  consumes the buffer in every case, as documented. The protocol field of a buffer is kept in host order.
\<close>

section \<open>The hook\<close>

datatype nf_verdict = NF_ACCEPT | NF_STOLEN
datatype pkt_type = PACKET_HOST | PACKET_OUTGOING

record sk_buff =
  skb_data :: "u8 list"
  skb_mac_header :: "nat option"
  skb_dev :: string
  skb_protocol :: u16
  skb_pkt_type :: pkt_type

definition in_ifname :: string where "in_ifname = ''veth_in_root''"
definition out_ifname :: string where "out_ifname = ''veth_out_root''"
definition src_mac :: "u8 list" where "src_mac = [0x02, 0x00, 0x00, 0x00, 0x00, 0x11]"
definition dst_mac :: "u8 list" where "dst_mac = [0x02, 0x00, 0x00, 0x00, 0x00, 0x22]"
definition ETH_HLEN :: nat where "ETH_HLEN = 14"
definition ETH_P_IP :: u16 where "ETH_P_IP = 0x0800"

definition ip_version :: "u8 list \<Rightarrow> u8" where "ip_version d = drop_bit 4 (d ! 0)"
definition ip_daddr :: "u8 list \<Rightarrow> u8 list" where "ip_daddr d = take 4 (drop 16 d)"

text \<open>A 16-bit field in network order.\<close>

definition htons_bytes :: "u16 \<Rightarrow> u8 list" where
  "htons_bytes w = [ucast (drop_bit 8 w), ucast w]"

record nf_env =
  ne_may_pull :: "nat \<Rightarrow> sk_buff \<Rightarrow> bool"
  ne_dev :: "string \<Rightarrow> bool"
  ne_cow :: int

text \<open>
  The arguments are the buffer, the name of \<open>state->in\<close> and whether there is a \<open>state\<close>; the
  results the verdict, the buffer where the caller keeps it, the buffers handed to \<open>dev_queue_xmit\<close> and the
  references taken and dropped on the output device.
\<close>

definition hook_func_tunnel_in ::
  "nf_env \<Rightarrow> u8 list \<Rightarrow> sk_buff option \<Rightarrow> bool \<Rightarrow> string option \<Rightarrow> nf_verdict \<times> sk_buff option \<times> sk_buff list \<times> kcall list" where
  "hook_func_tunnel_in e target_ip skb state sin =
    (case (skb, state, sin) of (Some b, True, Some ifname) \<Rightarrow>
       if \<not> ne_may_pull e 20 b then (NF_ACCEPT, Some b, [], [])
       else if ip_version (skb_data b) \<noteq> 4 then (NF_ACCEPT, Some b, [], [])
       else if ifname = in_ifname \<and> ip_daddr (skb_data b) = target_ip then
         (if \<not> ne_dev e out_ifname then (NF_ACCEPT, Some b, [], [])
          else if ne_cow e < 0 then (NF_ACCEPT, Some b, [], [Acq (Named ''netdev''), Rel (Named ''netdev'')])
          else let pushed = replicate ETH_HLEN 0 @ skb_data b;
                   d1 = memcpy_at pushed 0 dst_mac;
                   d2 = memcpy_at d1 6 src_mac;
                   d3 = memcpy_at d2 12 (htons_bytes ETH_P_IP)
               in (NF_STOLEN, None,
                   [b\<lparr>skb_data := d3, skb_mac_header := Some 0, skb_dev := out_ifname, skb_protocol := ETH_P_IP,
                      skb_pkt_type := PACKET_OUTGOING\<rparr>],
                   [Acq (Named ''netdev''), Rel (Named ''netdev'')]))
       else (NF_ACCEPT, Some b, [], [])
     | _ \<Rightarrow> (NF_ACCEPT, skb, [], []))"

text \<open>\<open>target_ip\<close> is set by init from \<open>in_aton\<close>; the result is what is returned, \<open>target_ip\<close> and the calls.\<close>

definition nf_hook_init :: "(string \<Rightarrow> u8 list) \<Rightarrow> int \<Rightarrow> int \<times> u8 list \<times> kcall list" where
  "nf_hook_init in_aton ret =
    (let target_ip = in_aton ''10.0.10.1''
     in if ret < 0 then (ret, target_ip, []) else (0, target_ip, [Acq (Named ''nf_hook'')]))"

definition nf_hook_exit :: "kcall list" where
  "nf_hook_exit = [Rel (Named ''nf_hook'')]"

section \<open>Guarantees\<close>

text \<open>
  An IPv4 packet as RFC 791 writes it: version and header length in one byte, the eleven bytes from the type
  of service to the header checksum, the source and the destination address, then options and payload.
\<close>

definition ipv4_wire :: "nat \<Rightarrow> nat \<Rightarrow> u8 list \<Rightarrow> u8 list \<Rightarrow> u8 list \<Rightarrow> u8 list \<Rightarrow> u8 list" where
  "ipv4_wire version ihl mid saddr daddr rest = of_nat (16 * version + ihl) # mid @ saddr @ daddr @ rest"

lemma ip_version_wire:
  assumes "version < 16" "ihl < 16"
  shows "ip_version (ipv4_wire version ihl mid saddr daddr rest) = of_nat version"
proof -
  have "16 * version + ihl < 256" using assms by simp
  then have u: "unat (of_nat (16 * version + ihl) :: u8) = 16 * version + ihl"
    by (subst unat_of_nat) simp
  have d: "drop_bit 4 (16 * version + ihl) = version" using assms by (simp add: drop_bit_eq_div)
  have "unat (drop_bit 4 (of_nat (16 * version + ihl) :: u8)) = version"
    unfolding unat_drop_bit_eq u by (rule d)
  then show ?thesis by (metis ip_version_def ipv4_wire_def nth_Cons_0 of_nat_unat ucast_id)
qed

lemma ip_version_4:
  assumes "version < 16" "ihl < 16"
  shows "ip_version (ipv4_wire version ihl mid saddr daddr rest) = 4 \<longleftrightarrow> version = 4"
proof -
  have "(of_nat version :: u8) = of_nat 4 \<longleftrightarrow> version = 4"
    using assms by (subst word_of_nat_eq_iff) (simp add: take_bit_nat_eq_self)
  then show ?thesis by (simp add: ip_version_wire [OF assms])
qed

lemma ip_daddr_wire:
  assumes "length mid = 11" "length saddr = 4" "length daddr = 4"
  shows "ip_daddr (ipv4_wire version ihl mid saddr daddr rest) = daddr"
  using assms by (simp add: ip_daddr_def ipv4_wire_def)

text \<open>Every packet with room for the header has this form.\<close>

lemma ipv4_wire_exhaust:
  assumes "20 \<le> length d"
  shows "\<exists>version ihl mid saddr daddr rest. version < 16 \<and> ihl < 16 \<and> length mid = 11 \<and> length saddr = 4 \<and> length daddr = 4
    \<and> d = ipv4_wire version ihl mid saddr daddr rest"
proof -
  have "unat (d ! 0) < 256" using unsigned_less [of "d ! 0"] by simp
  then have v: "unat (d ! 0) div 16 < 16" "unat (d ! 0) mod 16 < 16" by auto
  have "(of_nat (16 * (unat (d ! 0) div 16) + unat (d ! 0) mod 16) :: u8) = d ! 0" by simp
  moreover have "d = d ! 0 # take 11 (drop 1 d) @ take 4 (drop 12 d) @ take 4 (drop 16 d) @ drop 20 d"
  proof -
    have split: "drop n d = take k (drop n d) @ drop (n + k) d" for n k
      by (metis add.commute append_take_drop_id drop_drop)
    have "d = d ! 0 # drop 1 d" using assms by (cases d) auto
    also have "drop 1 d = take 11 (drop 1 d) @ drop 12 d" using split [of 1 11] by simp
    also have "drop 12 d = take 4 (drop 12 d) @ drop 16 d" using split [of 12 4] by simp
    also have "drop 16 d = take 4 (drop 16 d) @ drop 20 d" using split [of 16 4] by simp
    finally show ?thesis by simp
  qed
  ultimately have "d = ipv4_wire (unat (d ! 0) div 16) (unat (d ! 0) mod 16) (take 11 (drop 1 d)) (take 4 (drop 12 d)) (take 4 (drop 16 d)) (drop 20 d)"
    unfolding ipv4_wire_def by metis
  moreover have "length (take 11 (drop 1 d)) = 11" "length (take 4 (drop 12 d)) = 4" "length (take 4 (drop 16 d)) = 4"
    using assms by simp_all
  ultimately show ?thesis using v by blast
qed

lemma htons_ip: "htons_bytes 0x0800 = [0x08, 0x00]"
  by (simp add: htons_bytes_def)

lemma frame_bytes:
  "memcpy_at (memcpy_at (memcpy_at (replicate ETH_HLEN 0 @ d) 0 dst_mac) 6 src_mac) 12 (htons_bytes 0x0800)
   = [2, 0, 0, 0, 0, 0x22] @ [2, 0, 0, 0, 0, 0x11] @ [0x08, 0x00] @ d"
  by (simp add: memcpy_at_def dst_mac_def src_mac_def ETH_HLEN_def htons_ip)

text \<open>
  C36: with \<open>target_ip\<close> as init set it, a packet whose header can be read is stolen exactly when it is an
  IPv4 packet for 10.0.10.1 that came in on \<open>veth_in_root\<close>, and the output device \<open>veth_out_root\<close> exists
  and headroom could be made; then exactly one frame goes out of \<open>veth_out_root\<close>, the packet unchanged
  behind a 14-byte Ethernet header with the two configured addresses and type 0x0800, and nobody else keeps the buffer. Every
  other packet is accepted unchanged and nothing is sent, also one whose header cannot be read or that comes without
  state or input device. The reference to the output device is dropped on every path that took it, and unloading undoes
  loading.
\<close>

theorem hook_tunnels:
  assumes "nf_hook_init in_aton ret = (0, target_ip, calls)"
    and "skb_data b = ipv4_wire version ihl mid saddr daddr rest" "version < 16" "ihl < 16"
    and "length mid = 11" "length saddr = 4" "length daddr = 4"
  shows "hook_func_tunnel_in e target_ip (Some b) True (Some ifname) =
      (if ne_may_pull e 20 b \<and> version = 4 \<and> ifname = ''veth_in_root'' \<and> daddr = in_aton ''10.0.10.1'' \<and> ne_dev e ''veth_out_root''
       then (if 0 \<le> ne_cow e
             then (NF_STOLEN, None,
               [\<lparr>skb_data = [2, 0, 0, 0, 0, 0x22] @ [2, 0, 0, 0, 0, 0x11] @ [0x08, 0x00] @ skb_data b, skb_mac_header = Some 0,
                 skb_dev = ''veth_out_root'', skb_protocol = 0x0800, skb_pkt_type = PACKET_OUTGOING\<rparr>],
               [Acq (Named ''netdev''), Rel (Named ''netdev'')])
             else (NF_ACCEPT, Some b, [], [Acq (Named ''netdev''), Rel (Named ''netdev'')]))
       else (NF_ACCEPT, Some b, [], []))
    \<and> (\<forall>b'. \<not> ne_may_pull e 20 b' \<longrightarrow> hook_func_tunnel_in e target_ip (Some b') state sin = (NF_ACCEPT, Some b', [], []))
    \<and> hook_func_tunnel_in e target_ip None state sin = (NF_ACCEPT, None, [], [])
    \<and> hook_func_tunnel_in e target_ip skb False sin = (NF_ACCEPT, skb, [], [])
    \<and> hook_func_tunnel_in e target_ip skb state None = (NF_ACCEPT, skb, [], [])
    \<and> run_calls (calls @ nf_hook_exit) h = Some h"
proof -
  have t: "target_ip = in_aton ''10.0.10.1''" using assms(1) by (auto simp: nf_hook_init_def Let_def split: if_splits)
  have x: "run_calls (calls @ nf_hook_exit) h = Some h"
    using assms(1) by (auto simp: nf_hook_init_def nf_hook_exit_def Let_def split: if_splits)
  have v: "ip_version (skb_data b) = 4 \<longleftrightarrow> version = 4" and d: "ip_daddr (skb_data b) = daddr"
    using ip_version_4 [OF assms(3,4)] ip_daddr_wire [OF assms(5-7)] assms(2) by simp_all
  have steal: "b\<lparr>skb_data := y, skb_mac_header := Some 0, skb_dev := d, skb_protocol := p, skb_pkt_type := k\<rparr>
      = \<lparr>skb_data = y, skb_mac_header = Some 0, skb_dev = d, skb_protocol = p, skb_pkt_type = k\<rparr>" for y d p k
    by (cases b) simp
  have one: "hook_func_tunnel_in e target_ip (Some b) True (Some ifname) =
      (if ne_may_pull e 20 b \<and> version = 4 \<and> ifname = ''veth_in_root'' \<and> daddr = in_aton ''10.0.10.1'' \<and> ne_dev e ''veth_out_root''
       then (if 0 \<le> ne_cow e
             then (NF_STOLEN, None,
               [\<lparr>skb_data = [2, 0, 0, 0, 0, 0x22] @ [2, 0, 0, 0, 0, 0x11] @ [0x08, 0x00] @ skb_data b, skb_mac_header = Some 0,
                 skb_dev = ''veth_out_root'', skb_protocol = 0x0800, skb_pkt_type = PACKET_OUTGOING\<rparr>],
               [Acq (Named ''netdev''), Rel (Named ''netdev'')])
             else (NF_ACCEPT, Some b, [], [Acq (Named ''netdev''), Rel (Named ''netdev'')]))
       else (NF_ACCEPT, Some b, [], []))"
    by (simp add: hook_func_tunnel_in_def v d t steal frame_bytes in_ifname_def out_ifname_def ETH_P_IP_def Let_def)
  show ?thesis
    using x one by (simp add: hook_func_tunnel_in_def split: option.split bool.split)
qed

text \<open>
  A packet from 192.168.0.1 to 10.0.10.1, which is stolen and goes out framed, and one the other way round, which passes.
\<close>

theorem hook_tunnels_witness:
  "let e = \<lparr>ne_may_pull = \<lambda>n b. n \<le> length (skb_data b), ne_dev = \<lambda>n. True, ne_cow = 0\<rparr>;
       pkt = \<lambda>src dst. \<lparr>skb_data = [0x45, 0, 0, 20, 0, 0, 0, 0, 64, 17, 0, 0] @ src @ dst, skb_mac_header = None,
            skb_dev = ''veth_in_root'', skb_protocol = 0x0800, skb_pkt_type = PACKET_HOST\<rparr>
   in hook_func_tunnel_in e [10, 0, 10, 1] (Some (pkt [192, 168, 0, 1] [10, 0, 10, 1])) True (Some ''veth_in_root'') =
        (NF_STOLEN, None,
         [\<lparr>skb_data = [2, 0, 0, 0, 0, 0x22, 2, 0, 0, 0, 0, 0x11, 8, 0, 0x45, 0, 0, 20, 0, 0, 0, 0, 64, 17, 0, 0, 192, 168, 0, 1, 10, 0, 10, 1],
           skb_mac_header = Some 0, skb_dev = ''veth_out_root'', skb_protocol = 0x0800, skb_pkt_type = PACKET_OUTGOING\<rparr>],
         [Acq (Named ''netdev''), Rel (Named ''netdev'')])
      \<and> hook_func_tunnel_in e [10, 0, 10, 1] (Some (pkt [10, 0, 10, 1] [192, 168, 0, 1])) True (Some ''veth_in_root'') =
        (NF_ACCEPT, Some (pkt [10, 0, 10, 1] [192, 168, 0, 1]), [], [])"
proof -
  let ?e = "\<lparr>ne_may_pull = \<lambda>n b. n \<le> length (skb_data b), ne_dev = \<lambda>n. True, ne_cow = 0\<rparr>"
  let ?pkt = "\<lambda>src dst. \<lparr>skb_data = [0x45, 0, 0, 20, 0, 0, 0, 0, 64, 17, 0, 0] @ src @ dst, skb_mac_header = None,
            skb_dev = ''veth_in_root'', skb_protocol = 0x0800, skb_pkt_type = PACKET_HOST\<rparr>"
  have i: "nf_hook_init (\<lambda>s. [10, 0, 10, 1]) 0 = (0, [10, 0, 10, 1], [Acq (Named ''nf_hook'')])" by (simp add: nf_hook_init_def)
  have w: "skb_data (?pkt src dst) = ipv4_wire 4 5 [0, 0, 20, 0, 0, 0, 0, 64, 17, 0, 0] src dst []" for src dst
    by (simp add: ipv4_wire_def)
  note T = hook_tunnels [OF i w, where e = ?e and ifname = "''veth_in_root''" and skb = None and state = True and sin = None and h = "{#}"]
  show ?thesis
    using T [of "[192, 168, 0, 1]" "[10, 0, 10, 1]"] T [of "[10, 0, 10, 1]" "[192, 168, 0, 1]"] by simp
qed

end
