(* ===== verification/Procfs.thy ===== *)
theory Procfs
  imports Kernel_Resources C_Strings
begin

text \<open>
  The proc file \<open>procfs/procfs.c\<close>: one buffer shared by all openers, written whole from its start and
  read back once per pass. \<open>left\<close> is the number of bytes \<open>copy_to_user\<close> or \<open>copy_from_user\<close> could not
  copy; the latter clears the rest of its destination, as documented.
\<close>

definition PROCFS_MAX_SIZE :: nat where "PROCFS_MAX_SIZE = 2048"

record procfs =
  procfs_buffer :: string
  procfs_buffer_size :: nat

definition procfs_start :: procfs where
  "procfs_start = \<lparr>procfs_buffer = replicate PROCFS_MAX_SIZE CHR 0x00, procfs_buffer_size = 0\<rparr>"

text \<open>Result: return value, bytes that reached the user, new offset, state.\<close>

definition procfs_read :: "nat \<Rightarrow> nat \<Rightarrow> int \<Rightarrow> procfs \<Rightarrow> int \<times> string \<times> int \<times> procfs" where
  "procfs_read left len off p =
    (if off \<noteq> 0 \<or> procfs_buffer_size p = 0 then (0, [], 0, p)
     else let n = min (procfs_buffer_size p) len; p1 = p\<lparr>procfs_buffer_size := n\<rparr>
          in if left \<noteq> 0 then (- EFAULT, take (n - left) (procfs_buffer p1), off, p1)
             else (int n, take n (procfs_buffer p1), off + int n, p1))"

definition procfs_write :: "nat \<Rightarrow> string \<Rightarrow> nat \<Rightarrow> int \<Rightarrow> procfs \<Rightarrow> int \<times> int \<times> procfs" where
  "procfs_write left ubuf len off p =
    (let n = min PROCFS_MAX_SIZE len;
         copied = take (n - left) ubuf @ replicate (min left n) CHR 0x00;
         p1 = p\<lparr>procfs_buffer_size := n, procfs_buffer := memcpy_at (procfs_buffer p) 0 copied\<rparr>
     in if left \<noteq> 0 then (- EFAULT, off, p1) else (int n, off + int n, p1))"

text \<open>\<open>dir\<close> and \<open>file\<close> are whether \<open>proc_mkdir\<close> and \<open>proc_create\<close> succeed; removing the folder removes the file in it.\<close>

definition procfs_init :: "bool \<Rightarrow> bool \<Rightarrow> int \<times> kcall list" where
  "procfs_init dir file =
    (if \<not> dir then (- 1, [])
     else if \<not> file then (- ENOMEM, [Acq (Named ''bpb'')])
     else (0, [Acq (Named ''bpb''), Use (Named ''bpb'')]))"

definition procfs_exit :: "kcall list" where
  "procfs_exit = [Rel (Named ''bpb'')]"

section \<open>Invariant\<close>

definition procfs_inv :: "procfs \<Rightarrow> bool" where
  "procfs_inv p \<longleftrightarrow> length (procfs_buffer p) = 2048 \<and> procfs_buffer_size p \<le> 2048"

text \<open>What a reader would get.\<close>

definition procfs_text :: "procfs \<Rightarrow> string" where
  "procfs_text p = take (procfs_buffer_size p) (procfs_buffer p)"

inductive procfs_reach :: "procfs \<Rightarrow> bool" where
  start: "procfs_reach procfs_start"
| read: "procfs_reach p \<Longrightarrow> procfs_read left len off p = (ret, out, off', p') \<Longrightarrow> procfs_reach p'"
| written: "procfs_reach p \<Longrightarrow> len \<le> length ubuf \<Longrightarrow> procfs_write left ubuf len off p = (ret, off', p') \<Longrightarrow> procfs_reach p'"

lemma procfs_reach_inv: "procfs_reach p \<Longrightarrow> procfs_inv p"
proof (induction rule: procfs_reach.induct)
  case start
  then show ?case by (simp add: procfs_start_def procfs_inv_def PROCFS_MAX_SIZE_def)
next
  case (read p left len off ret out off' p')
  then show ?case by (auto simp: procfs_read_def procfs_inv_def Let_def split: if_splits)
next
  case (written p len ubuf left off ret off' p')
  then show ?case
    by (auto simp: procfs_write_def procfs_inv_def PROCFS_MAX_SIZE_def memcpy_at_def Let_def min_def split: if_splits)
qed

lemma write_text:
  assumes "procfs_inv p" "len \<le> length ubuf"
  shows "\<exists>p'. procfs_write 0 ubuf len off p = (int (min 2048 len), off + int (min 2048 len), p')
    \<and> procfs_text p' = take (min 2048 len) ubuf \<and> procfs_buffer_size p' = min 2048 len \<and> procfs_inv p'"
  using assms by (auto simp: procfs_write_def procfs_text_def procfs_inv_def PROCFS_MAX_SIZE_def memcpy_at_def Let_def min_def)

lemma read_text:
  assumes "procfs_inv p" "procfs_buffer_size p \<noteq> 0"
  shows "\<exists>p'. procfs_read 0 len 0 p = (int (length (take len (procfs_text p))), take len (procfs_text p), int (length (take len (procfs_text p))), p')
    \<and> procfs_text p' = take len (procfs_text p) \<and> procfs_inv p'"
  using assms by (auto simp: procfs_read_def procfs_text_def procfs_inv_def Let_def min_def)

section \<open>Guarantees\<close>

text \<open>
  C37: in every reachable state a write stores the first 2048 bytes it was given, and a read with a
  large enough buffer from offset 0 returns exactly those and then, at the new offset, the end of the file. A read with a
  smaller buffer cuts the file down for everybody: what it did not take is gone, even for a later read with
  a large buffer; a read of 0 bytes empties the file.
\<close>

theorem procfs_write_read:
  assumes "procfs_reach p" "len = length ubuf" "ubuf \<noteq> []" "small < min 2048 len" "2048 \<le> big"
  shows "\<exists>p1 p2 p3. procfs_write 0 ubuf len off p = (int (min 2048 len), off + int (min 2048 len), p1)
    \<and> procfs_read 0 big 0 p1 = (int (min 2048 len), take 2048 ubuf, int (min 2048 len), p2)
    \<and> procfs_read 0 big (int (min 2048 len)) p2 = (0, [], 0, p2)
    \<and> procfs_read 0 small 0 p2 = (int small, take small ubuf, int small, p3)
    \<and> fst (snd (procfs_read 0 big 0 p3)) = take small ubuf"
proof -
  let ?n = "min 2048 len"
  obtain p1 where p1: "procfs_write 0 ubuf len off p = (int ?n, off + int ?n, p1)" "procfs_text p1 = take ?n ubuf"
    "procfs_buffer_size p1 = ?n" "procfs_inv p1"
    using write_text [OF procfs_reach_inv [OF assms(1)]] assms(2) by blast
  have t: "take ?n ubuf = take 2048 ubuf" "?n \<noteq> 0" using assms(2,3) by (auto simp: min_def)
  obtain p2 where p2: "procfs_read 0 big 0 p1 = (int ?n, take 2048 ubuf, int ?n, p2)" "procfs_text p2 = take 2048 ubuf" "procfs_inv p2"
    using read_text [OF p1(4), of big] p1(2,3) t assms(2,5) by (auto simp: min_def)
  have s2: "procfs_buffer_size p2 = ?n"
    using arg_cong [OF p2(2), of length] p2(3) assms(2) by (simp add: procfs_text_def procfs_inv_def)
  have e: "procfs_read 0 big (int ?n) p2 = (0, [], 0, p2)" using t(2) by (simp add: procfs_read_def)
  have k: "take small (procfs_text p2) = take small ubuf" "length (take small ubuf) = small" using p2(2) assms(4,2) by auto
  obtain p3 where p3: "procfs_read 0 small 0 p2 = (int small, take small ubuf, int small, p3)" "procfs_text p3 = take small ubuf" "procfs_inv p3"
    using read_text [OF p2(3), of small] s2 t(2) k by auto
  have "fst (snd (procfs_read 0 big 0 p3)) = take small ubuf"
  proof (cases "procfs_buffer_size p3 = 0")
    case True
    then show ?thesis using p3(2) by (simp add: procfs_read_def procfs_text_def)
  next
    case False
    have "small \<le> big" using assms(4,5) by linarith
    then have "take big (take small ubuf) = take small ubuf" by (simp add: min.absorb2)
    with read_text [OF p3(3) False, of big] p3(2) show ?thesis by auto
  qed
  with p1(1) p2(1) e p3(1) show ?thesis by blast
qed

theorem procfs_write_read_witness:
  "\<exists>p1 p2 p3. procfs_write 0 ''hello'' 5 0 procfs_start = (5, 5, p1) \<and> procfs_read 0 4096 0 p1 = (5, ''hello'', 5, p2)
     \<and> procfs_read 0 2 0 p2 = (2, ''he'', 2, p3) \<and> fst (snd (procfs_read 0 4096 0 p3)) = ''he''"
  using procfs_write_read [OF procfs_reach.start, of 5 "''hello''" 2 4096 0] by auto

text \<open>When the file cannot be created, the module fails to load and leaves the folder behind.\<close>

lemma procfs_sessions:
  "run_calls (snd (procfs_init True True) @ procfs_exit) h = Some h"
  "fst (procfs_init True False) \<noteq> 0" "run_calls (snd (procfs_init True False)) h = Some (add_mset (Named ''bpb'') h)"
  by (simp_all add: procfs_init_def procfs_exit_def)

end
