(* ===== verification/Fuse_Fs.thy ===== *)
theory Fuse_Fs
  imports Text_Reader
begin

text \<open>
  The one-file FUSE filesystem \<open>myfuse/myfs.c\<close>. Sizes are 64-bit words and \<open>off_t\<close> is converted to
  \<open>size_t\<close> in its comparisons, as in C; the contract of \<open>pread\<close> is the reference.
\<close>

definition hello_str :: string where "hello_str = ''Hello, bpb!'' @ [CHR 0x0A]"
definition file_path :: string where "file_path = ''/hello.txt''"

record stat =
  st_mode :: u32
  st_nlink :: nat
  st_size :: nat

definition S_IFDIR :: u32 where "S_IFDIR = 0x4000"
definition S_IFREG :: u32 where "S_IFREG = 0x8000"

definition my_getattr :: "string \<Rightarrow> int \<times> stat" where
  "my_getattr path =
    (let zero = \<lparr>st_mode = 0, st_nlink = 0, st_size = 0\<rparr>
     in if path = ''/'' then (0, zero\<lparr>st_mode := S_IFDIR OR 0x1ed, st_nlink := 2\<rparr>)
        else if path = file_path then
          (0, zero\<lparr>st_mode := S_IFREG OR 0x124, st_nlink := 1, st_size := length hello_str\<rparr>)
        else (- ENOENT, zero))"

text \<open>
  Return value and the bytes stored at the start of \<open>buf\<close>; \<open>None\<close> when \<open>memcpy\<close> reads past the end of the
  string. The result is converted from \<open>size_t\<close> to \<open>int\<close>.
\<close>

definition my_read :: "string \<Rightarrow> u64 \<Rightarrow> int \<Rightarrow> (int \<times> string) option" where
  "my_read path sz off =
    (let len = of_nat (length hello_str) :: u64; offset = word_of_int off :: u64
     in if path \<noteq> file_path then Some (- ENOENT, [])
        else if offset < len then
          (let n = (if offset + sz > len then len - offset else sz)
           in if unat offset + unat n > length hello_str then None
              else Some (s32 (uint n), take (unat n) (drop (unat offset) hello_str)))
        else Some (0, []))"

section \<open>Guarantees\<close>

text \<open>The contract: the bytes of the file from \<open>off\<close> on, at most \<open>n\<close> of them.\<close>

definition pread_spec :: "string \<Rightarrow> nat \<Rightarrow> nat \<Rightarrow> string" where
  "pread_spec msg n off = take n (drop off msg)"

lemma length_hello [simp]: "length hello_str = 12"
  by (simp add: hello_str_def)

lemma my_read_pread:
  assumes "off < 2 ^ 63" "n < 2 ^ 63"
  shows "my_read file_path (of_nat n) (int off) = Some (int (length (pread_spec hello_str n off)), pread_spec hello_str n off)"
proof -
  have u: "unat (of_nat off :: u64) = off" "unat (of_nat n :: u64) = n"
    using assms by (simp_all add: unat_of_nat)
  have w: "(word_of_int (int off) :: u64) = of_nat off" by simp
  have lt: "(of_nat off :: u64) < 12 \<longleftrightarrow> off < 12" by (simp add: word_less_nat_alt u)
  have sum: "unat (of_nat off + of_nat n :: u64) = off + n"
    using assms by (simp add: unat_word_ariths u)
  then have gt: "(of_nat off + of_nat n :: u64) > 12 \<longleftrightarrow> off + n > 12" by (simp add: word_less_nat_alt)
  show ?thesis
  proof (cases "off < 12")
    case True
    then have d: "unat (12 - of_nat off :: u64) = 12 - off"
      using lt by (simp add: unat_sub_if' word_le_nat_alt u)
    have "uint (12 - of_nat off :: u64) = int (12 - off)" "uint (of_nat n :: u64) = int n"
      by (metis d uint_nat, metis u(2) uint_nat)
    then show ?thesis
      using True u d by (auto simp: my_read_def w lt gt pread_spec_def Let_def simp del: unsigned_of_nat)
  next
    case False
    then show ?thesis by (simp add: my_read_def w lt pread_spec_def Let_def)
  qed
qed

text \<open>
  A reader that goes on from the offset it was left at. The kernel asks for at most 128 KiB at a
  time; the file is shorter, so the cap does not show.
\<close>

definition fuse_step :: "nat \<Rightarrow> nat \<Rightarrow> string \<times> nat" where
  "fuse_step off cnt = (case my_read file_path (of_nat (min cnt 131072)) (int off) of
     Some (ret, bs) \<Rightarrow> (bs, off + nat ret) | None \<Rightarrow> ([], off))"

interpretation fuse: text_reader hello_str fuse_step
proof unfold_locales
  fix off cnt
  show "off < length hello_str \<Longrightarrow>
      fuse_step off cnt = (take cnt (drop off hello_str), off + min cnt (length hello_str - off))"
    using my_read_pread [of off "min cnt 131072"] by (auto simp: fuse_step_def pread_spec_def min_def)
  show "fst (fuse_step (length hello_str) cnt) = []"
    using my_read_pread [of 12 "min cnt 131072"] by (simp add: fuse_step_def pread_spec_def)
qed

text \<open>
  C38: \<open>my_read\<close> computes the same as \<open>pread\<close> on the text of the file for every offset and
  size below \<open>2^63\<close>, so that reading it in pieces of any sizes until the end gives the whole text, whose length is the size
  \<open>my_getattr\<close> reports; every path but the file's is refused by \<open>my_read\<close>. The sum in the bounds check does
  wrap for larger sizes: the copy then runs past the string.
\<close>

theorem my_read_is_pread:
  assumes "off < 2 ^ 63" "n < 2 ^ 63" "\<forall>c\<in>set cs. 0 < c" "st_size (snd (my_getattr file_path)) \<le> sum_list cs" "path \<noteq> file_path"
  shows "my_read file_path (of_nat n) (int off) = Some (int (length (pread_spec hello_str n off)), pread_spec hello_str n off)
    \<and> fuse.read_until cs 0 = hello_str \<and> st_size (snd (my_getattr file_path)) = length hello_str
    \<and> my_read path sz o' = Some (- ENOENT, [])
    \<and> my_read file_path (2 ^ 64 - 1) 2 = None"
proof -
  have g: "st_size (snd (my_getattr file_path)) = length hello_str"
    by (simp add: my_getattr_def file_path_def)
  have "my_read file_path (2 ^ 64 - 1) 2 = None" by (simp add: my_read_def Let_def)
  then show ?thesis
    using my_read_pread [OF assms(1,2)] fuse.read_until_all [OF assms(3)] assms(4,5) g by (simp add: my_read_def)
qed

theorem my_read_is_pread_witness:
  "my_read file_path 5 7 = Some (5, ''bpb!'' @ [CHR 0x0A]) \<and> fuse.read_until [5, 5, 5] 0 = hello_str"
  using my_read_is_pread [of 7 5 "[5, 5, 5]" "''/''" 0 0] by (simp add: pread_spec_def hello_str_def my_getattr_def file_path_def)

end
