(* ===== verification/Buses.thy ===== *)
theory Buses
  imports Kernel_Resources C_Strings "HOL-Library.Sublist"
begin

text \<open>
  The bus modules: \<open>mybus/my_bus.c\<close> (a bus with two attribute files), \<open>mybus/my_bus_raw.c\<close>, and
  the buses of \<open>mydevice\<close> and \<open>mydriver\<close> with the modules that put a device and a driver on them. The driver core's answers
  are parameters. Names are C strings without their terminator.
\<close>

section \<open>Matching\<close>

text \<open>\<open>strncmp\<close> of the C library.\<close>

fun strncmp :: "nat \<Rightarrow> string \<Rightarrow> string \<Rightarrow> int" where
  "strncmp 0 s t = 0"
| "strncmp (Suc n) [] [] = 0"
| "strncmp (Suc n) [] (b # t) = - of_char b"
| "strncmp (Suc n) (a # s) [] = of_char a"
| "strncmp (Suc n) (a # s) (b # t) = (if a = b then strncmp n s t else of_char a - of_char b)"

definition my_match :: "string \<Rightarrow> string \<Rightarrow> int" where
  "my_match dev drv = (if strncmp (length drv) dev drv = 0 then 1 else 0)"

text \<open>The variables of the event; what \<open>add_uevent_var\<close> returns is ignored.\<close>

definition my_uevent :: "int \<Rightarrow> string \<Rightarrow> string list \<Rightarrow> int \<times> string list" where
  "my_uevent added dev env = (0, if added = 0 then env @ [''DEV_NAME='' @ dev] else env)"

section \<open>Attributes of \<open>my_bus.c\<close>\<close>

text \<open>
  \<open>snprintf(a, n, "%s", s)\<close> into an array: nothing for \<open>n = 0\<close>, else at most \<open>n - 1\<close> characters and a
  terminator. It returns the length of the whole text.
\<close>

definition snprintf_s :: "string \<Rightarrow> nat \<Rightarrow> string \<Rightarrow> string \<times> int" where
  "snprintf_s a n s = (if n = 0 then a else memcpy_at a 0 (take (n - 1) s @ [CHR 0x00]), int (length s))"

definition PAGE_SIZE :: nat where "PAGE_SIZE = 4096"

definition descr_show :: "string \<Rightarrow> string \<times> int" where
  "descr_show buf = snprintf_s buf PAGE_SIZE (''BPB my bus'' @ [CHR 0x0A])"

definition scratch_pad_start :: string where
  "scratch_pad_start = (let s = ''Hello, this is scratch pad!'' @ [CHR 0x0A] in s @ replicate (256 - length s) CHR 0x00)"

definition pad_show :: "string \<Rightarrow> string \<Rightarrow> string \<times> int" where
  "pad_show scratch_pad buf = snprintf_s buf PAGE_SIZE (cstr scratch_pad @ [CHR 0x0A])"

text \<open>\<open>buf\<close> is the page sysfs passes, \<open>cnt\<close> bytes and a terminator.\<close>

definition pad_store :: "string \<Rightarrow> string \<Rightarrow> nat \<Rightarrow> string \<times> int" where
  "pad_store scratch_pad buf cnt =
    (let n = (if cnt > 256 then 256 else cnt) in snprintf_s scratch_pad n (cstr buf))"

definition my_bus_init :: "int \<Rightarrow> int \<Rightarrow> int \<Rightarrow> int \<times> kcall list" where
  "my_bus_init reg descr pad =
    (if reg \<noteq> 0 then (reg, [])
     else if descr \<noteq> 0 then (descr, [Acq (Named ''mybus'')])
     else (pad, [Acq (Named ''mybus''), Acq (Attr ''descr'' 0)] @ (if pad = 0 then [Acq (Attr ''pad'' 0)] else [])))"

definition my_bus_exit :: "kcall list" where
  "my_bus_exit = [Rel (Attr ''descr'' 0), Rel (Attr ''pad'' 0), Rel (Named ''mybus'')]"

section \<open>\<open>mybus/my_bus_raw.c\<close>\<close>

definition raw_bus_init :: "int \<Rightarrow> int \<times> kcall list" where
  "raw_bus_init reg = (reg, if reg = 0 then [Acq (Named ''mybus'')] else [])"

definition raw_bus_exit :: "kcall list" where
  "raw_bus_exit = [Rel (Named ''mybus'')]"

section \<open>The buses of \<open>mydevice\<close> and \<open>mydriver\<close>\<close>

text \<open>
  Both buses also register a device of their own; the two results are joined with \<open>|\<close>. The
  registered child device records its bus, its parent and its name.
\<close>

definition dev_bus_init :: "int \<Rightarrow> int \<Rightarrow> int \<times> kcall list" where
  "dev_bus_init bus dev = (bus OR dev, (if bus = 0 then [Acq (Named ''bus'')] else []) @ (if dev = 0 then [Acq (Named ''busdev'')] else []))"

definition dev_bus_exit :: "kcall list" where
  "dev_bus_exit = [Rel (Named ''bus''), Rel (Named ''busdev'')]"

record bus_device =
  d_init_name :: string
  d_bus :: string
  d_parent :: string
  d_name :: string

definition my_bus_register_device :: "string \<Rightarrow> string \<Rightarrow> int \<Rightarrow> bus_device \<Rightarrow> int \<times> bus_device \<times> kcall list" where
  "my_bus_register_device bus busdev reg dev =
    (reg, dev\<lparr>d_bus := bus, d_parent := busdev, d_name := d_init_name dev\<rparr>, if reg = 0 then [Use (Named ''bus''), Acq (Device 0)] else [Use (Named ''bus'')])"

definition my_bus_unregister_device :: "kcall list" where
  "my_bus_unregister_device = [Rel (Device 0)]"

definition my_bus_register_driver :: "int \<Rightarrow> int \<times> kcall list" where
  "my_bus_register_driver reg = (reg, if reg = 0 then [Use (Named ''bus''), Acq Driver] else [Use (Named ''bus'')])"

definition my_bus_unregister_driver :: "kcall list" where
  "my_bus_unregister_driver = [Rel Driver]"

text \<open>The module of \<open>mydevice\<close>: a device named \<open>xiaoyzh3\<close>.\<close>

definition blank_device :: bus_device where
  "blank_device = \<lparr>d_init_name = [], d_bus = [], d_parent = [], d_name = []\<rparr>"

definition mydev_init :: "int \<Rightarrow> int \<times> bus_device \<times> kcall list" where
  "mydev_init reg = my_bus_register_device ''mybus'' ''mybus0'' reg (blank_device\<lparr>d_init_name := ''xiaoyzh3''\<rparr>)"

definition mydev_exit :: "kcall list" where
  "mydev_exit = my_bus_unregister_device"

text \<open>The module of \<open>mydriver\<close>: a device \<open>drvmydev\<close> and a driver \<open>bpbdriver\<close>.\<close>

definition my_driver_name :: string where "my_driver_name = ''bpbdriver''"

definition drv_init :: "int \<Rightarrow> int \<Rightarrow> int \<times> bus_device \<times> kcall list" where
  "drv_init dreg rreg =
    (case my_bus_register_device ''drvmybus'' ''drvmybus'' dreg (blank_device\<lparr>d_init_name := ''drvmydev''\<rparr>) of (err, dev, c1) \<Rightarrow>
       case my_bus_register_driver rreg of (err', c2) \<Rightarrow> (err', dev, c1 @ c2))"

definition drv_exit :: "kcall list" where
  "drv_exit = my_bus_unregister_device @ my_bus_unregister_driver"

section \<open>Lemmas\<close>

lemma of_char_zero: "of_char c = (0 :: int) \<longleftrightarrow> c = CHR 0x00"
  using of_char_eq_iff [of c "CHR 0x00", where 'a = int] by simp

lemma strncmp_prefix: "CHR 0x00 \<notin> set s \<Longrightarrow> CHR 0x00 \<notin> set t \<Longrightarrow> strncmp (length t) s t = 0 \<longleftrightarrow> prefix t s"
  by (induction "length t" s t arbitrary: rule: strncmp.induct) (auto simp: of_char_zero)

lemma snprintf_cstr:
  assumes "CHR 0x00 \<notin> set s" "0 < n" "min (n - 1) (length s) < length a"
  shows "cstr (fst (snprintf_s a n s)) = take (n - 1) s" "length (fst (snprintf_s a n s)) = length a"
proof -
  have "CHR 0x00 \<notin> set (take (n - 1) s)" using assms(1) by (meson in_set_takeD)
  then show "cstr (fst (snprintf_s a n s)) = take (n - 1) s"
    using assms(2) by (simp add: snprintf_s_def memcpy_at_def)
  show "length (fst (snprintf_s a n s)) = length a"
    using assms(2,3) by (simp add: snprintf_s_def)
qed

section \<open>Guarantees\<close>

text \<open>
  C39: a write of \<open>w\<close> (up to a page, without NUL) to the pad is accepted whole and stores \<open>w\<close> without its
  last character, cut to 255 characters, inside the 256-byte array; the next read of the attribute shows that text and a newline. So a line
  written with its newline is read back as it was written, and any other text loses its last character.
\<close>

theorem pad_roundtrip:
  assumes "length scratch_pad = 256" "w \<noteq> []" "length w < PAGE_SIZE" "CHR 0x00 \<notin> set w" "length page = PAGE_SIZE"
  shows "snd (pad_store scratch_pad (w @ CHR 0x00 # rest) (length w)) = int (length w)
    \<and> length (fst (pad_store scratch_pad (w @ CHR 0x00 # rest) (length w))) = 256
    \<and> (let shown = pad_show (fst (pad_store scratch_pad (w @ CHR 0x00 # rest) (length w))) page
       in cstr (fst shown) = take 255 (butlast w) @ [CHR 0x0A] \<and> snd shown = int (length (take 255 (butlast w) @ [CHR 0x0A])))"
proof -
  let ?n = "if length w > 256 then 256 else length w"
  let ?p = "fst (pad_store scratch_pad (w @ CHR 0x00 # rest) (length w))"
  have st: "pad_store scratch_pad (w @ CHR 0x00 # rest) (length w) = snprintf_s scratch_pad ?n w"
    using assms(4) by (simp add: pad_store_def Let_def)
  have n: "0 < ?n" "min (?n - 1) (length w) < length scratch_pad" using assms(1,2) by auto
  have c: "cstr ?p = take (?n - 1) w" "length ?p = 256"
    unfolding st using snprintf_cstr [OF assms(4) n] assms(1) by auto
  have "?n - 1 = min 255 (length w - 1)" by auto
  then have "take (?n - 1) w = take 255 (butlast w)" by (simp only: butlast_conv_take take_take)
  with c(1) have t: "cstr ?p = take 255 (butlast w)" by simp
  have "CHR 0x00 \<notin> set (take 255 (butlast w) @ [CHR 0x0A])" using assms(4) by (auto dest: in_set_takeD in_set_butlastD)
  then have "cstr (fst (snprintf_s page PAGE_SIZE (take 255 (butlast w) @ [CHR 0x0A]))) = take 255 (butlast w) @ [CHR 0x0A]"
    using snprintf_cstr(1) [of "take 255 (butlast w) @ [CHR 0x0A]" PAGE_SIZE page] assms(5)
    by (simp add: PAGE_SIZE_def)
  then show ?thesis using c(2) t by (simp add: st pad_show_def snprintf_s_def)
qed

theorem pad_roundtrip_witness:
  "let shown = pad_show (fst (pad_store scratch_pad_start (''abc'' @ [CHR 0x0A] @ [CHR 0x00]) 4)) (replicate 4096 CHR 0x00)
   in cstr (fst shown) = ''abc'' @ [CHR 0x0A] \<and> snd shown = 4"
proof -
  let ?w = "''abc'' @ [CHR 0x0A]"
  have l: "length scratch_pad_start = 256" by (simp add: scratch_pad_start_def)
  have n: "length ?w = 4" by simp
  have "let shown = pad_show (fst (pad_store scratch_pad_start (?w @ CHR 0x00 # []) (length ?w))) (replicate 4096 CHR 0x00)
    in cstr (fst shown) = take 255 (butlast ?w) @ [CHR 0x0A] \<and> snd shown = int (length (take 255 (butlast ?w) @ [CHR 0x0A]))"
    using pad_roundtrip [OF l, of ?w "replicate 4096 CHR 0x00" "[]"] by (simp add: PAGE_SIZE_def)
  then show ?thesis unfolding n by (simp add: Let_def)
qed

text \<open>
  The match function is "the driver's name is a prefix of the device's name", so on the
  \<open>mydriver\<close> bus the device \<open>drvmydev\<close> and the driver \<open>bpbdriver\<close> never meet, and the device of \<open>mydevice\<close> carries the
  bus, the parent and the name it was registered with. Bus module and client module loaded and unloaded in
  order leave nothing behind. In \<open>mydriver\<close> a device that cannot be registered does not stop the load, and the
  unload then unregisters a device that is not there.
\<close>

theorem bus_match_and_sessions:
  assumes "CHR 0x00 \<notin> set dev" "CHR 0x00 \<notin> set drv"
  shows "(my_match dev drv = 1 \<longleftrightarrow> prefix drv dev) \<and> my_match ''drvmydev'' my_driver_name = 0
    \<and> fst (snd (mydev_init 0)) = \<lparr>d_init_name = ''xiaoyzh3'', d_bus = ''mybus'', d_parent = ''mybus0'', d_name = ''xiaoyzh3''\<rparr>
    \<and> run_calls (snd (dev_bus_init 0 0) @ snd (snd (mydev_init 0)) @ mydev_exit @ dev_bus_exit) h = Some h
    \<and> run_calls (snd (dev_bus_init 0 0) @ snd (snd (drv_init 0 0)) @ drv_exit @ dev_bus_exit) h = Some h
    \<and> (e < 0 \<and> Device 0 \<notin># h \<longrightarrow> fst (drv_init e 0) = 0 \<and> run_calls (snd (dev_bus_init 0 0) @ snd (snd (drv_init e 0)) @ drv_exit) h = None)"
proof -
  have m: "my_match dev drv = 1 \<longleftrightarrow> prefix drv dev" using strncmp_prefix [OF assms] by (simp add: my_match_def)
  have d: "my_match ''drvmydev'' my_driver_name = 0"
    using strncmp_prefix [of "''drvmydev''" "''bpbdriver''"] by (simp add: my_match_def my_driver_name_def)
  show ?thesis
    using m d by (simp add: mydev_init_def blank_device_def my_bus_register_device_def dev_bus_init_def mydev_exit_def
      my_bus_unregister_device_def dev_bus_exit_def drv_init_def drv_exit_def my_bus_register_driver_def my_bus_unregister_driver_def)
qed

theorem bus_match_and_sessions_witness:
  "my_match ''bpbdriver0'' ''bpbdriver'' = 1 \<and> run_calls (snd (dev_bus_init 0 0) @ snd (snd (drv_init (- 17) 0)) @ drv_exit) {#} = None"
  using bus_match_and_sessions [of "''bpbdriver0''" "''bpbdriver''" "{#}" "- 17"] by simp

text \<open>The first module unloads cleanly; when one of its files cannot be created it fails and leaves the bus registered.\<close>

lemma my_bus_sessions:
  "run_calls (snd (my_bus_init 0 0 0) @ my_bus_exit) h = Some h"
  "run_calls (snd (raw_bus_init 0) @ raw_bus_exit) h = Some h"
  "e \<noteq> 0 \<Longrightarrow> fst (my_bus_init 0 e pad) \<noteq> 0 \<and> run_calls (snd (my_bus_init 0 e pad)) h = Some (add_mset (Named ''mybus'') h)"
  by (simp_all add: my_bus_init_def my_bus_exit_def raw_bus_init_def raw_bus_exit_def)

text \<open>The joined result of two registrations is 0 exactly when both are.\<close>

lemma dev_bus_init_ok: "fst (dev_bus_init a b) = 0 \<longleftrightarrow> a = 0 \<and> b = 0"
  by (simp add: dev_bus_init_def or_eq_0_iff)

end
