(* ===== verification/Pci_Drivers.thy ===== *)
theory Pci_Drivers
  imports Kernel_Resources
begin

text \<open>
  The PCI drivers \<open>mydma/mydma.c\<close>, \<open>mynetcard/my_ethernet_driver.c\<close> and \<open>mypci/mypci.c\<close>: probe with its error
  paths, remove, init and exit. What the kernel answers is a parameter; a probe leaves the driver data its
  remove reads.
\<close>

section \<open>\<open>mydma\<close>\<close>

record dma_nic_device =
  tx_buffer :: bool
  dma_netdev :: bool

record dma_env =
  dma_alloc :: bool
  dma_enable :: int
  dma_mask :: "nat \<Rightarrow> int"
  dma_coherent :: bool
  dma_etherdev :: bool

definition dma_nic_probe :: "dma_env \<Rightarrow> int \<times> kcall list \<times> dma_nic_device option" where
  "dma_nic_probe e =
    (let err_free_dev = [Rel (Mem ''dev'')];
         err_disable_device = Rel (Named ''pci_enabled'') # err_free_dev;
         err_free_dma_buffer = Rel (Mem ''tx_buffer'') # err_disable_device;
         enabled = [Acq (Mem ''dev''), Acq (Named ''pci_enabled'')]
     in if \<not> dma_alloc e then (- ENOMEM, [], None)
        else if dma_enable e \<noteq> 0 then (dma_enable e, [Acq (Mem ''dev'')] @ err_free_dev, None)
        else if dma_mask e 64 \<noteq> 0 \<and> dma_mask e 32 \<noteq> 0 then (dma_mask e 32, enabled @ err_disable_device, None)
        else if \<not> dma_coherent e then (- ENOMEM, enabled @ err_disable_device, None)
        else if \<not> dma_etherdev e then (- ENOMEM, enabled @ [Acq (Mem ''tx_buffer'')] @ err_free_dma_buffer, None)
        else (0, enabled @ [Acq (Mem ''tx_buffer''), Acq (Named ''netdev'')], Some \<lparr>tx_buffer = True, dma_netdev = True\<rparr>))"

definition dma_nic_remove :: "dma_nic_device option \<Rightarrow> kcall list" where
  "dma_nic_remove drvdata = (case drvdata of None \<Rightarrow> []
     | Some dev \<Rightarrow> (if dma_netdev dev then [Rel (Named ''netdev'')] else [])
         @ (if tx_buffer dev then [Rel (Mem ''tx_buffer'')] else []) @ [Rel (Named ''pci_enabled''), Rel (Mem ''dev'')])"

definition dma_nic_init :: "int \<Rightarrow> int \<times> kcall list" where
  "dma_nic_init ret = register_driver ret"

definition dma_nic_exit :: "kcall list list \<Rightarrow> kcall list" where
  "dma_nic_exit removes = driver_unregister removes"

section \<open>\<open>mynetcard\<close>\<close>

record net_env =
  net_enable :: int
  net_alloc :: bool
  net_register :: int

definition my_probe :: "net_env \<Rightarrow> int \<times> kcall list" where
  "my_probe e =
    (let err_disable_dev = [Rel (Named ''pci_enabled'')];
         err_free_netdev = Rel (Named ''netdev'') # err_disable_dev
     in if net_enable e \<noteq> 0 then (- ENODEV, [])
        else if \<not> net_alloc e then (- ENODEV, [Acq (Named ''pci_enabled'')] @ err_disable_dev)
        else if net_register e \<noteq> 0 then
          (- ENODEV, [Acq (Named ''pci_enabled''), Acq (Named ''netdev''), Use (Named ''netdev'')] @ err_free_netdev)
        else (0, [Acq (Named ''pci_enabled''), Acq (Named ''netdev''), Use (Named ''netdev''), Acq (Named ''net_registered'')]))"

definition my_remove :: "kcall list" where
  "my_remove = [Rel (Named ''net_registered''), Rel (Named ''netdev''), Rel (Named ''pci_enabled'')]"

definition net_init :: "int \<Rightarrow> int \<times> kcall list" where
  "net_init ret = register_driver ret"

definition net_exit :: "kcall list list \<Rightarrow> kcall list" where
  "net_exit removes = driver_unregister removes"

section \<open>\<open>mypci\<close>\<close>

text \<open>\<open>alloc\<close> and \<open>enable\<close> are the outcomes of \<open>kzalloc\<close> and \<open>pci_enable_device\<close>.\<close>

definition simple_pci_probe :: "bool \<times> int \<Rightarrow> int \<times> kcall list" where
  "simple_pci_probe e = (case e of (alloc, enable) \<Rightarrow>
     if \<not> alloc then (- ENOMEM, [])
     else if enable \<noteq> 0 then (enable, [Acq (Mem ''dev''), Rel (Mem ''dev'')])
     else (0, [Acq (Mem ''dev''), Acq (Named ''pci_enabled'')]))"

definition simple_pci_remove :: "kcall list" where
  "simple_pci_remove = [Rel (Named ''pci_enabled''), Rel (Mem ''dev'')]"

definition simple_pci_init :: "int \<Rightarrow> int \<times> kcall list" where
  "simple_pci_init ret = register_driver ret"

definition simple_pci_exit :: "kcall list list \<Rightarrow> kcall list" where
  "simple_pci_exit removes = driver_unregister removes"

section \<open>The driver contract\<close>

text \<open>The calls of one probe of \<open>mydma\<close>, and the remove that follows it.\<close>

definition dma_probe_calls :: "dma_env \<Rightarrow> int \<times> kcall list" where
  "dma_probe_calls e = (case dma_nic_probe e of (ret, calls, dev) \<Rightarrow> (ret, calls))"

definition dma_remove_calls :: "dma_env \<Rightarrow> kcall list" where
  "dma_remove_calls e = dma_nic_remove (snd (snd (dma_nic_probe e)))"

interpretation dma: plain_driver dma_probe_calls dma_remove_calls
  "\<lambda>e. {#Mem ''dev'', Named ''pci_enabled'', Mem ''tx_buffer'', Named ''netdev''#}"
proof unfold_locales
  fix h :: "resource multiset" and e
  show "fst (dma_probe_calls e) = 0 \<Longrightarrow> run_calls (snd (dma_probe_calls e)) h
      = Some ({#Mem ''dev'', Named ''pci_enabled'', Mem ''tx_buffer'', Named ''netdev''#} + h)"
    by (auto simp: dma_probe_calls_def dma_nic_probe_def Let_def add_mset_commute split: if_splits)
  show "fst (dma_probe_calls e) \<noteq> 0 \<Longrightarrow> run_calls (snd (dma_probe_calls e)) h = Some h"
    by (auto simp: dma_probe_calls_def dma_nic_probe_def Let_def split: if_splits)
  show "fst (dma_probe_calls e) = 0 \<Longrightarrow>
      run_calls (dma_remove_calls e) ({#Mem ''dev'', Named ''pci_enabled'', Mem ''tx_buffer'', Named ''netdev''#} + h) = Some h"
    by (auto simp: dma_probe_calls_def dma_remove_calls_def dma_nic_probe_def dma_nic_remove_def Let_def split: if_splits)
qed

interpretation net: plain_driver my_probe "\<lambda>e. my_remove"
  "\<lambda>e. {#Named ''pci_enabled'', Named ''netdev'', Named ''net_registered''#}"
  by unfold_locales (auto simp: my_probe_def my_remove_def Let_def add_mset_commute split: if_splits)

interpretation spci: plain_driver simple_pci_probe "\<lambda>e. simple_pci_remove" "\<lambda>e. {#Mem ''dev'', Named ''pci_enabled''#}"
  by unfold_locales (auto simp: simple_pci_probe_def simple_pci_remove_def add_mset_commute split: prod.splits if_splits)

text \<open>The DMA driver falls back to a 32-bit mask and fails only if both masks are refused.\<close>

lemma dma_probe_ok:
  "fst (dma_nic_probe e) = 0 \<longleftrightarrow> dma_alloc e \<and> dma_enable e = 0 \<and> (dma_mask e 64 = 0 \<or> dma_mask e 32 = 0)
     \<and> dma_coherent e \<and> dma_etherdev e"
  by (auto simp: dma_nic_probe_def Let_def)

lemmas pci_modules = dma_nic_init_def dma_nic_exit_def net_init_def net_exit_def simple_pci_init_def simple_pci_exit_def

end
