(* ===== verification/Peripherals.thy ===== *)
theory Peripherals
  imports Kernel_Resources
begin

text \<open>
  The loopback SPI controller \<open>myspi/myspidevice/myspidev.c\<close> with its driver \<open>myspi/myspidriver/myspidrv.c\<close>, the
  serial port \<open>myserial/myserial.c\<close> and the OLED display \<open>myi2c/myi2c.c\<close>. The bus cores are parameters: what
  their calls return, and for SPI how a write followed by a read becomes transfers.
\<close>

section \<open>The fake SPI controller\<close>

text \<open>
  A transfer has an optional transmit and an optional receive buffer. \<open>None\<close> when the loop leaves a
  buffer; otherwise the receive buffer afterwards.
\<close>

record spi_transfer =
  tx_buf :: "u8 list option"
  rx_buf :: "u8 list option"
  xfer_len :: nat

fun copy_loop :: "u8 list \<Rightarrow> u8 list \<Rightarrow> nat \<Rightarrow> nat \<Rightarrow> u8 list option" where
  "copy_loop tx rx 0 i = Some rx"
| "copy_loop tx rx (Suc n) i =
    (if i < length tx \<and> i < length rx then copy_loop tx (rx[i := tx ! i]) n (Suc i) else None)"

definition fake_spi_transfer_one :: "spi_transfer \<Rightarrow> (int \<times> u8 list option) option" where
  "fake_spi_transfer_one xfer =
    (case (rx_buf xfer, tx_buf xfer) of
       (Some rx, Some tx) \<Rightarrow> (case copy_loop tx rx (xfer_len xfer) 0 of None \<Rightarrow> None | Some rx' \<Rightarrow> Some (0, Some rx'))
     | (Some rx, None) \<Rightarrow> if xfer_len xfer \<le> length rx then Some (0, Some (memcpy_at rx 0 (replicate (xfer_len xfer) 0x5A))) else None
     | (None, _) \<Rightarrow> Some (0, None))"

definition fake_spi_create_device :: "bool \<Rightarrow> int \<times> kcall list" where
  "fake_spi_create_device new_device =
    (if \<not> new_device then (- ENODEV, [Use (Named ''ctlr'')]) else (0, [Use (Named ''ctlr''), Acq (Named ''spi_dev'')]))"

record spi_env =
  spi_pdev :: int
  spi_alloc :: bool
  spi_register :: int
  spi_new :: bool

text \<open>The pointers the module keeps: which are set after init.\<close>

record spi_globals =
  g_spi_dev :: bool
  g_ctlr :: bool
  g_pdev :: bool

definition fake_spi_init :: "spi_env \<Rightarrow> int \<times> kcall list \<times> spi_globals" where
  "fake_spi_init e =
    (let none = \<lparr>g_spi_dev = False, g_ctlr = False, g_pdev = False\<rparr>;
         pdev = [Acq (Pdev ''fake-spi-parent'')]; undo_pdev = [Rel (Pdev ''fake-spi-parent'')]
     in if IS_ERR (spi_pdev e) then (PTR_ERR (spi_pdev e), [], none\<lparr>g_pdev := True\<rparr>)
        else if \<not> spi_alloc e then (- ENOMEM, pdev @ undo_pdev, none)
        else if spi_register e \<noteq> 0 then
          (spi_register e, pdev @ [Acq (Named ''ctlr''), Rel (Named ''ctlr'')] @ undo_pdev, none)
        else case fake_spi_create_device (spi_new e) of (ret, calls) \<Rightarrow>
               if ret \<noteq> 0 then (ret, pdev @ [Acq (Named ''ctlr'')] @ calls @ [Rel (Named ''ctlr'')] @ undo_pdev, none)
               else (0, pdev @ [Acq (Named ''ctlr'')] @ calls, \<lparr>g_spi_dev = True, g_ctlr = True, g_pdev = True\<rparr>))"

definition fake_spi_exit :: "spi_globals \<Rightarrow> kcall list" where
  "fake_spi_exit g =
    (if g_spi_dev g then [Rel (Named ''spi_dev'')] else []) @ (if g_ctlr g then [Rel (Named ''ctlr'')] else [])
    @ (if g_pdev g then [Rel (Pdev ''fake-spi-parent'')] else [])"

section \<open>The SPI driver\<close>

record spi_device =
  max_speed_hz :: nat
  spi_mode :: nat
  bits_per_word :: nat

text \<open>
  \<open>setup\<close> is what \<open>spi_setup\<close> returns, \<open>wr_rd\<close> is \<open>spi_write_then_read\<close>: its result and the bytes
  received. The result is the return value, the device and the received bytes.
\<close>

definition spi_device_probe ::
  "int \<Rightarrow> (u8 list \<Rightarrow> u8 list \<Rightarrow> int \<times> u8 list) \<Rightarrow> u8 list \<Rightarrow> spi_device \<Rightarrow> int \<times> spi_device \<times> u8 list" where
  "spi_device_probe setup wr_rd rx spi =
    (let tx = [0xAA]; spi1 = spi\<lparr>max_speed_hz := 1000000, spi_mode := 0, bits_per_word := 8\<rparr>
     in if setup \<noteq> 0 then (setup, spi1, rx)
        else case wr_rd tx rx of (ret, rx') \<Rightarrow> if ret \<noteq> 0 then (ret, spi1, rx') else (0, spi1, rx'))"

text \<open>
  What the documentation says of \<open>spi_write_then_read\<close> on a controller: one transfer that only sends, then one that
  only receives; when both succeed it returns 0 and the bytes received.
\<close>

definition spi_core_documented ::
  "(spi_transfer \<Rightarrow> (int \<times> u8 list option) option) \<Rightarrow> (u8 list \<Rightarrow> u8 list \<Rightarrow> int \<times> u8 list) \<Rightarrow> bool" where
  "spi_core_documented xfer wr_rd \<longleftrightarrow> (\<forall>tx rx r rx'.
     xfer \<lparr>tx_buf = Some tx, rx_buf = None, xfer_len = length tx\<rparr> = Some (0, r) \<longrightarrow>
     xfer \<lparr>tx_buf = None, rx_buf = Some rx, xfer_len = length rx\<rparr> = Some (0, Some rx') \<longrightarrow> wr_rd tx rx = (0, rx'))"

section \<open>The serial port\<close>

record uart_port =
  p_iotype :: nat
  p_iobase :: nat
  p_irq :: nat
  p_uartclk :: nat
  p_fifosize :: nat
  p_line :: nat
  p_type :: nat
  p_flags :: u32

definition simple_serial_tx_empty :: u32 where "simple_serial_tx_empty = 0x20"
definition simple_serial_get_mctrl :: u32 where "simple_serial_get_mctrl = 0x40 OR 0x100 OR 0x20"

text \<open>\<open>UPIO_PORT\<close> is 0, \<open>PORT_16550A\<close> 4 and \<open>UPF_BOOT_AUTOCONF\<close> bit 28. The pointers of the port (its parent, its operations) are left out.\<close>

definition simple_serial_config_port :: "uart_port \<Rightarrow> uart_port" where
  "simple_serial_config_port p = p\<lparr>p_type := 4\<rparr>"

definition simple_serial_init :: "int \<Rightarrow> int \<Rightarrow> int \<Rightarrow> uart_port \<Rightarrow> int \<times> kcall list \<times> uart_port \<times> bool" where
  "simple_serial_init pdev reg add port =
    (let p1 = port\<lparr>p_iotype := 0, p_iobase := 0x3F8, p_irq := 4, p_uartclk := 1843200, p_fifosize := 16, p_flags := 0x10000000, p_line := 0\<rparr>;
         got = [Acq (Pdev ''simple-serial-parent'')]; undo = [Rel (Pdev ''simple-serial-parent'')]
     in if IS_ERR pdev then (PTR_ERR pdev, [], port, True)
        else if reg \<noteq> 0 then (reg, got @ undo, p1, False)
        else if add \<noteq> 0 then (add, got @ [Acq Driver, Rel Driver] @ undo, p1, False)
        else (0, got @ [Acq Driver, Use Driver, Acq (Named ''uart_port'')], p1, True))"

definition simple_serial_exit :: "bool \<Rightarrow> kcall list" where
  "simple_serial_exit pdev_set = [Rel (Named ''uart_port''), Rel Driver] @ (if pdev_set then [Rel (Pdev ''simple-serial-parent'')] else [])"

section \<open>The display\<close>

text \<open>
  \<open>send\<close> and \<open>recv\<close> are \<open>i2c_master_send\<close> and \<open>i2c_master_recv\<close> on the module's client: they take the state of the bus and
  give a result and the new state. The results of sending are dropped by \<open>SSD1306_Write\<close>.
\<close>

definition I2C_Write :: "('s \<Rightarrow> u8 list \<Rightarrow> nat \<Rightarrow> int \<times> 's) \<Rightarrow> u8 list \<Rightarrow> nat \<Rightarrow> 's \<Rightarrow> int \<times> 's" where
  "I2C_Write send buf len s = (case send s buf len of (ret, s') \<Rightarrow> (ret, s'))"

definition I2C_Read :: "('s \<Rightarrow> nat \<Rightarrow> int \<times> u8 list \<times> 's) \<Rightarrow> nat \<Rightarrow> 's \<Rightarrow> int \<times> u8 list \<times> 's" where
  "I2C_Read recv len s = (case recv s len of (ret, out_buf, s') \<Rightarrow> (ret, out_buf, s'))"

definition SSD1306_Write :: "('s \<Rightarrow> u8 list \<Rightarrow> nat \<Rightarrow> int \<times> 's) \<Rightarrow> bool \<Rightarrow> u8 \<Rightarrow> 's \<Rightarrow> 's" where
  "SSD1306_Write send is_cmd d s =
    (let buf = [0, 0]; buf = (if is_cmd = True then buf[0 := 0x00] else buf[0 := 0x40]); buf = buf[1 := d]
     in case I2C_Write send buf 2 s of (ret, s') \<Rightarrow> s')"

definition SSD1306_commands :: "u8 list" where
  "SSD1306_commands = [0xAE, 0xD5, 0x80, 0xA8, 0x3F, 0xD3, 0x00, 0x40, 0x8D, 0x80, 0x80, 0x80, 0x80, 0x80, 0x80, 0x80,
     0x80, 0x80, 0x80, 0x80, 0x80, 0x80, 0x80, 0x80, 0x80]"

definition SSD1306_DisplayInit :: "('s \<Rightarrow> u8 list \<Rightarrow> nat \<Rightarrow> int \<times> 's) \<Rightarrow> 's \<Rightarrow> int \<times> 's" where
  "SSD1306_DisplayInit send s = (0, fold (SSD1306_Write send True) SSD1306_commands s)"

fun fill_loop :: "('s \<Rightarrow> u8 list \<Rightarrow> nat \<Rightarrow> int \<times> 's) \<Rightarrow> u8 \<Rightarrow> nat \<Rightarrow> 's \<Rightarrow> 's" where
  "fill_loop send d 0 s = s"
| "fill_loop send d (Suc n) s = fill_loop send d n (SSD1306_Write send False d s)"

definition SSD1306_Fill :: "('s \<Rightarrow> u8 list \<Rightarrow> nat \<Rightarrow> int \<times> 's) \<Rightarrow> u8 \<Rightarrow> 's \<Rightarrow> 's" where
  "SSD1306_Fill send d s = fill_loop send d (128 * 8) s"

definition etx_oled_probe :: "('s \<Rightarrow> u8 list \<Rightarrow> nat \<Rightarrow> int \<times> 's) \<Rightarrow> 's \<Rightarrow> int \<times> 's" where
  "etx_oled_probe send s = (case SSD1306_DisplayInit send s of (ret, s1) \<Rightarrow> (0, SSD1306_Fill send 0xFF s1))"

text \<open>
  \<open>client\<close> is the pointer \<open>i2c_new_client_device\<close> returns: an error pointer, never NULL. Pointers
  are integers, 0 being NULL. The result is the return value, the calls and the client pointer.
\<close>

definition etx_driver_init :: "bool \<Rightarrow> int \<Rightarrow> int \<Rightarrow> int \<times> kcall list \<times> int" where
  "etx_driver_init adapter client add =
    (if \<not> adapter then (0, [], 0)
     else (0, [Acq (Named ''adapter'')] @ (if client > 0 then [Acq (Named ''client'')] else [])
              @ (if client \<noteq> 0 then (if add = 0 then [Acq Driver] else []) @ [Rel (Named ''adapter'')] else []), client))"

text \<open>Unregistering a NULL or error pointer does nothing, as documented.\<close>

definition etx_driver_exit :: "int \<Rightarrow> kcall list" where
  "etx_driver_exit client = (if client \<le> 0 then [] else [Rel (Named ''client'')]) @ [Rel Driver]"

section \<open>Lemmas\<close>

lemma copy_loop_copies:
  "i + n \<le> length tx \<Longrightarrow> i + n \<le> length rx \<Longrightarrow> copy_loop tx rx n i = Some (memcpy_at rx i (take n (drop i tx)))"
proof (induction n arbitrary: i rx)
  case 0
  then show ?case by simp
next
  case (Suc n)
  have "memcpy_at (rx[i := tx ! i]) (Suc i) (take n (drop (Suc i) tx)) = memcpy_at rx i (take (Suc n) (drop i tx))"
    using Suc.prems by (intro nth_equalityI) (auto simp: nth_memcpy_at nth_list_update)
  with Suc show ?case by simp
qed

lemma SSD1306_Write_sends: "SSD1306_Write send c d s = snd (send s [if c then 0x00 else 0x40, d] 2)"
  by (simp add: SSD1306_Write_def I2C_Write_def Let_def split: prod.splits)

lemma fill_loop_fold: "fill_loop send d n s = fold (SSD1306_Write send False) (replicate n d) s"
  by (induction n arbitrary: s) simp_all

section \<open>Guarantees\<close>

text \<open>
  The fake controller is a loopback. A full-duplex transfer whose buffers hold its length returns the
  sent bytes in the receive buffer, a receive-only transfer returns \<open>0x5A\<close> bytes, and no transfer within its buffers
  leaves them; the driver's probe on it succeeds with the one byte \<open>0x5A\<close> and 8-bit words in mode 0 at 1 MHz. A failed
  load of the controller module leaves nothing registered and an unload undoes a successful one.
\<close>

theorem spi_loopback:
  assumes "n \<le> length tx" "n \<le> length rx" and core: "spi_core_documented fake_spi_transfer_one wr_rd"
  shows "fake_spi_transfer_one \<lparr>tx_buf = Some tx, rx_buf = Some rx, xfer_len = n\<rparr> = Some (0, Some (take n tx @ drop n rx))
    \<and> fake_spi_transfer_one \<lparr>tx_buf = None, rx_buf = Some rx, xfer_len = n\<rparr> = Some (0, Some (replicate n 0x5A @ drop n rx))
    \<and> spi_device_probe 0 wr_rd [junk] spi = (0, spi\<lparr>max_speed_hz := 1000000, spi_mode := 0, bits_per_word := 8\<rparr>, [0x5A])
    \<and> run_calls (case fake_spi_init e of (ret, calls, g) \<Rightarrow> calls @ (if ret = 0 then fake_spi_exit g else [])) h = Some h"
proof -
  have l: "fake_spi_transfer_one \<lparr>tx_buf = Some tx, rx_buf = Some rx, xfer_len = n\<rparr> = Some (0, Some (take n tx @ drop n rx))"
    using assms copy_loop_copies [of 0 n tx rx] by (simp add: fake_spi_transfer_one_def memcpy_at_def)
  have r: "fake_spi_transfer_one \<lparr>tx_buf = None, rx_buf = Some rx, xfer_len = n\<rparr> = Some (0, Some (replicate n 0x5A @ drop n rx))"
    using assms by (simp add: fake_spi_transfer_one_def memcpy_at_def)
  have p: "spi_device_probe 0 wr_rd [junk] spi = (0, spi\<lparr>max_speed_hz := 1000000, spi_mode := 0, bits_per_word := 8\<rparr>, [0x5A])"
    using core by (simp add: spi_core_documented_def spi_device_probe_def fake_spi_transfer_one_def memcpy_at_def)
  have "run_calls (case fake_spi_init e of (ret, calls, g) \<Rightarrow> calls @ (if ret = 0 then fake_spi_exit g else [])) h = Some h"
    using IS_ERR_PTR_ERR [of "spi_pdev e"]
    by (auto simp: fake_spi_init_def fake_spi_create_device_def fake_spi_exit_def Let_def)
  with l r p show ?thesis by blast
qed

theorem spi_loopback_witness:
  "fake_spi_transfer_one \<lparr>tx_buf = Some [1, 2], rx_buf = Some [0, 0, 9], xfer_len = 2\<rparr> = Some (0, Some [1, 2, 9])"
proof -
  have "spi_core_documented fake_spi_transfer_one (\<lambda>tx rx. (0, replicate (length rx) 0x5A))"
    by (auto simp: spi_core_documented_def fake_spi_transfer_one_def memcpy_at_def)
  from spi_loopback [OF _ _ this, of 2 "[1, 2]" "[0, 0, 9]"] show ?thesis by simp
qed

text \<open>The serial module: a failed load leaves nothing, unloading undoes loading, and the port is COM1 at 1.8432 MHz.\<close>

lemma serial_session:
  "run_calls (case simple_serial_init pdev reg add port of (ret, calls, p, set_) \<Rightarrow>
     calls @ (if ret = 0 then simple_serial_exit set_ else [])) h = Some h"
  using IS_ERR_PTR_ERR [of pdev] by (auto simp: simple_serial_init_def simple_serial_exit_def Let_def)

text \<open>
  What the display's probe puts on the bus, whatever the bus answers: 25 commands and a screen of \<open>0xFF\<close>, each message two bytes
  long. The command that switches the display on, \<open>0xAF\<close>, is not among them, and the probe succeeds on a bus that fails.
\<close>

definition oled_messages :: "u8 list list" where
  "oled_messages = map (\<lambda>c. [0x00, c]) SSD1306_commands @ replicate 1024 [0x40, 0xFF]"

lemma oled_stream:
  "etx_oled_probe send s = (0, fold (\<lambda>m s. snd (send s m 2)) oled_messages s)"
proof -
  have "SSD1306_Write send c = (\<lambda>d s. snd (send s [if c then 0x00 else 0x40, d] 2))" for c
    by (simp add: fun_eq_iff SSD1306_Write_sends)
  then show ?thesis
    by (simp add: etx_oled_probe_def SSD1306_DisplayInit_def SSD1306_Fill_def fill_loop_fold oled_messages_def fold_map comp_def)
qed

lemma oled_log:
  "snd (etx_oled_probe (\<lambda>s m n. (ret m, s @ [m])) []) = oled_messages"
proof -
  have "fold (\<lambda>m s. s @ [m]) ms s = s @ ms" for ms s :: "u8 list list"
    by (induction ms arbitrary: s) simp_all
  then show ?thesis by (simp add: oled_stream)
qed

lemma oled_commands:
  "length SSD1306_commands = 25" "0xAF \<notin> set SSD1306_commands" "hd SSD1306_commands = 0xAE"
  by (simp_all add: SSD1306_commands_def)

text \<open>
  The display module unloads cleanly whenever it found the adapter, also when the client could not be
  created: the error pointer passes the NULL check and the driver is added without its device. Without the adapter the load
  still reports success, and the unload deletes a driver that was never added.
\<close>

lemma oled_sessions:
  "client \<noteq> 0 \<Longrightarrow> run_calls (fst (snd (etx_driver_init True client 0)) @ etx_driver_exit client) h = Some h"
  "Driver \<notin># h \<Longrightarrow> fst (etx_driver_init False client add) = 0
     \<and> run_calls (fst (snd (etx_driver_init False client add)) @ etx_driver_exit (snd (snd (etx_driver_init False client add)))) h = None"
  by (auto simp: etx_driver_init_def etx_driver_exit_def)

end
