(* ===== verification/Small_Modules.thy ===== *)
theory Small_Modules
  imports Kernel_Resources C_Strings
begin

text \<open>
  The one-purpose modules: the kernel thread \<open>mykthread\<close>, the work queue \<open>myworkqueue\<close>, the allocator
  example \<open>mymem\<close>, the device class \<open>myclass\<close>, the security hooks \<open>mysecure\<close>, the parameters of \<open>modparam\<close>
  and the exported function of \<open>eximport\<close>. Lines they log are strings without the log prefix.
\<close>

section \<open>Kernel thread\<close>

text \<open>
  The loop of the thread: \<open>stop i\<close> is what \<open>kthread_should_stop\<close> answers the \<open>i\<close>-th time. It may
  run for ever, so the result is optional: the lines logged and the value returned.
\<close>

partial_function (option) my_thread_loop :: "(nat \<Rightarrow> bool) \<Rightarrow> nat \<Rightarrow> (string list \<times> int) option" where
  "my_thread_loop stop i =
    (if \<not> stop i
     then Option.bind (my_thread_loop stop (Suc i)) (\<lambda>(ls, r). Some (''Kernel Thread: Running'' # ls, r))
     else Some ([''Kernel Thread: Stopping''], 0))"

definition my_thread_function :: "(nat \<Rightarrow> bool) \<Rightarrow> (string list \<times> int) option" where
  "my_thread_function stop = my_thread_loop stop 0"

definition kthread_init :: "int \<Rightarrow> int \<times> kcall list" where
  "kthread_init thread = (if IS_ERR thread then (PTR_ERR thread, []) else (0, [Acq (Named ''kthread'')]))"

definition kthread_exit :: "kcall list" where
  "kthread_exit = [Rel (Named ''kthread'')]"

section \<open>Work queue\<close>

text \<open>\<open>created\<close> is whether \<open>create_workqueue\<close> succeeds; the work refers to the queue while it is pending.\<close>

definition workqueue_init :: "bool \<Rightarrow> int \<times> kcall list" where
  "workqueue_init created = (if \<not> created then (- ENOMEM, []) else (0, [Acq (Named ''my_wq''), Use (Named ''my_wq'')]))"

definition workqueue_exit :: "kcall list" where
  "workqueue_exit = [Rel (Named ''my_wq'')]"

section \<open>Allocations\<close>

record mem_env =
  me_drv :: bool
  me_kmalloc :: bool
  me_vmalloc :: bool
  me_pages :: bool
  me_free_pages :: bool

definition mem_alloc_init :: "mem_env \<Rightarrow> int \<times> kcall list" where
  "mem_alloc_init e =
    (let fail = [Rel (Mem ''drv'')]; fail_kmalloc = Rel (Mem ''kmalloc'') # fail;
         fail_vmalloc = Rel (Mem ''vmalloc'') # fail_kmalloc; fail_alloc_pages = Rel (Mem ''pages'') # fail_vmalloc;
         a1 = [Acq (Mem ''drv'')]; a2 = a1 @ [Acq (Mem ''kmalloc'')]; a3 = a2 @ [Acq (Mem ''vmalloc'')]; a4 = a3 @ [Acq (Mem ''pages'')]
     in if \<not> me_drv e then (- ENOMEM, [])
        else if \<not> me_kmalloc e then (- ENOMEM, a1 @ fail)
        else if \<not> me_vmalloc e then (- ENOMEM, a2 @ fail_kmalloc)
        else if \<not> me_pages e then (- ENOMEM, a3 @ fail_vmalloc)
        else if \<not> me_free_pages e then (- ENOMEM, a4 @ fail_alloc_pages)
        else (0, a4 @ [Acq (Mem ''free_pages'')]))"

text \<open>Exit starts from a local NULL pointer: \<open>drv\<close> is \<open>None\<close>.\<close>

definition mem_alloc_exit :: "kcall list" where
  "mem_alloc_exit = (let drv = (None :: unit option) in case drv of None \<Rightarrow> []
     | Some _ \<Rightarrow> [Rel (Mem ''pages''), Rel (Mem ''vmalloc''), Rel (Mem ''kmalloc''), Rel (Mem ''drv'')])"

section \<open>Class\<close>

text \<open>The result of \<open>class_register\<close> is only logged and that of \<open>device_create\<close> only stored.\<close>

definition class_init :: "int \<Rightarrow> int \<Rightarrow> int \<Rightarrow> int \<times> kcall list" where
  "class_init cls region dev =
    (let c = (if cls = 0 then [Acq Class] else [])
     in if region < 0 then (region, c)
        else (region, c @ [Acq Region] @ (if IS_ERR dev then [] else [Use Class, Acq (Device 0)])))"

definition class_cleanup :: "kcall list" where
  "class_cleanup = [Use Class, Rel (Device 0), Rel Class, Rel Region]"

section \<open>Security hooks\<close>

definition my_task_is_allowed :: "int \<Rightarrow> int \<Rightarrow> bool" where
  "my_task_is_allowed pid msk = True"

definition MAY_WRITE :: int where "MAY_WRITE = 2"

definition my_lsm_inode_permission :: "int \<Rightarrow> int \<Rightarrow> int" where
  "my_lsm_inode_permission pid msk = (if \<not> my_task_is_allowed pid msk then - EACCES else 0)"

definition my_lsm_inode_create :: "int \<Rightarrow> int" where
  "my_lsm_inode_create pid = (if \<not> my_task_is_allowed pid MAY_WRITE then - EACCES else 0)"

definition my_lsm_inode_unlink :: "int \<Rightarrow> int" where
  "my_lsm_inode_unlink pid = (if \<not> my_task_is_allowed pid MAY_WRITE then - EACCES else 0)"

section \<open>Parameters and exported functions\<close>

function param_loop :: "int \<Rightarrow> string \<Rightarrow> int \<Rightarrow> string list" where
  "param_loop howmany whom i =
    (if i < howmany then (''('' @ print_d i @ '') Hello, '' @ whom) # param_loop howmany whom (i + 1) else [])"
  by auto
termination by (relation "measure (\<lambda>(h, w, i). nat (h - i))") auto

declare param_loop.simps [simp del]

definition param_init :: "int \<Rightarrow> string \<Rightarrow> int \<times> string list" where
  "param_init howmany whom = (0, param_loop howmany whom 0)"

definition fonction_hello :: "int \<Rightarrow> string" where
  "fonction_hello numero = ''Hello, le numero est '' @ print_d numero"

definition import_chargement :: "int \<times> string list" where
  "import_chargement = (0, [''Hello, world'', fonction_hello 10])"

definition import_dechargement :: "string list" where
  "import_dechargement = [fonction_hello 20, ''Goodbye, cruel world'']"

section \<open>Lemmas\<close>

lemma thread_runs:
  assumes "\<forall>j<k. \<not> stop (i + j)" "stop (i + k)"
  shows "my_thread_loop stop i = Some (replicate k ''Kernel Thread: Running'' @ [''Kernel Thread: Stopping''], 0)"
  using assms
proof (induction k arbitrary: i)
  case 0
  then show ?case by (simp add: my_thread_loop.simps)
next
  case (Suc k)
  have "\<not> stop (Suc i + j)" if "j < k" for j using Suc.prems(1)[rule_format, of "Suc j"] that by simp
  then have "my_thread_loop stop (Suc i) = Some (replicate k ''Kernel Thread: Running'' @ [''Kernel Thread: Stopping''], 0)"
    using Suc.prems(2) by (intro Suc.IH) auto
  moreover have "\<not> stop i" using Suc.prems(1)[rule_format, of 0] by simp
  ultimately show ?case by (subst my_thread_loop.simps) simp
qed

lemma thread_returns_only_if_stopped:
  assumes "my_thread_loop stop i = Some r"
  shows "\<exists>k\<ge>i. stop k"
proof (rule my_thread_loop.raw_induct [OF _ assms, where P = "\<lambda>stop i r. \<exists>k\<ge>i. stop k"])
  fix loop :: "(nat \<Rightarrow> bool) \<Rightarrow> nat \<Rightarrow> (string list \<times> int) option" and stop i r
  assume IH: "\<And>stop i r. loop stop i = Some r \<Longrightarrow> \<exists>k\<ge>i. stop k"
    and step: "(if \<not> stop i then Option.bind (loop stop (Suc i)) (\<lambda>(ls, r). Some (''Kernel Thread: Running'' # ls, r))
      else Some ([''Kernel Thread: Stopping''], 0)) = Some r"
  show "\<exists>k\<ge>i. stop k"
  proof (cases "stop i")
    case False
    with step obtain r' where "loop stop (Suc i) = Some r'" by (auto simp: bind_eq_Some_conv)
    with IH show ?thesis using Suc_leD by blast
  qed auto
qed

section \<open>Guarantees\<close>

text \<open>
  The thread function returns exactly when it is told to stop: once \<open>kthread_should_stop\<close> has answered
  true it returns 0 after one line per earlier round and a last one, so that the unload, which asks it to stop and
  waits, comes to an end; if it is never told to stop it never returns. Loading and unloading are balanced.
\<close>

theorem kthread_stops:
  "((\<exists>k. stop k) \<longleftrightarrow> my_thread_function stop \<noteq> None)
   \<and> (stop n \<and> (\<forall>j<n. \<not> stop j) \<longrightarrow> my_thread_function stop
        = Some (replicate n ''Kernel Thread: Running'' @ [''Kernel Thread: Stopping''], 0))
   \<and> run_calls (snd (kthread_init t) @ (if fst (kthread_init t) = 0 then kthread_exit else [])) h = Some h"
proof -
  have run: "my_thread_function stop = Some (replicate k ''Kernel Thread: Running'' @ [''Kernel Thread: Stopping''], 0)"
    if "stop k" "\<forall>j<k. \<not> stop j" for k
    using thread_runs [of k stop 0] that by (simp add: my_thread_function_def)
  have only: "\<exists>k. stop k" if "my_thread_function stop \<noteq> None"
    using thread_returns_only_if_stopped that unfolding my_thread_function_def by blast
  have ends: "my_thread_function stop \<noteq> None" if ex: "\<exists>k. stop k"
  proof -
    obtain k where "stop k" "\<forall>j<k. \<not> stop j" using exists_least_iff [of stop] ex by blast
    with run show ?thesis by auto
  qed
  have "run_calls (snd (kthread_init t) @ (if fst (kthread_init t) = 0 then kthread_exit else [])) h = Some h"
    using IS_ERR_PTR_ERR [of t] by (auto simp: kthread_init_def kthread_exit_def)
  with run only ends show ?thesis by blast
qed

text \<open>A thread told to stop at its third check.\<close>

theorem kthread_stops_witness:
  "my_thread_function (\<lambda>k. 2 \<le> k)
     = Some ([''Kernel Thread: Running'', ''Kernel Thread: Running'', ''Kernel Thread: Stopping''], 0)"
  using kthread_stops [of "\<lambda>k. 2 \<le> k" 2] by (simp add: numeral_2_eq_2)

text \<open>
  The other modules. Unloading \<open>mymem\<close> frees nothing: its five allocations are lost. \<open>myclass\<close> is
  balanced when every call worked; when the class cannot be registered it still goes on, and a device number
  that cannot be had leaves the class registered. The security hooks grant everything.
\<close>

lemma small_sessions:
  "run_calls (snd (workqueue_init True) @ workqueue_exit) h = Some h"
  "fst (mem_alloc_init e) \<noteq> 0 \<Longrightarrow> run_calls (snd (mem_alloc_init e)) h = Some h"
  "fst (mem_alloc_init e) = 0 \<Longrightarrow> run_calls (snd (mem_alloc_init e) @ mem_alloc_exit) h
     = Some ({#Mem ''drv'', Mem ''kmalloc'', Mem ''vmalloc'', Mem ''pages'', Mem ''free_pages''#} + h)"
  "run_calls (snd (class_init 0 0 1) @ class_cleanup) h = Some h"
  "region < 0 \<Longrightarrow> run_calls (snd (class_init 0 region dev)) h = Some (add_mset Class h)"
  by (auto simp: workqueue_init_def workqueue_exit_def mem_alloc_init_def mem_alloc_exit_def class_init_def class_cleanup_def
      IS_ERR_def Let_def add_mset_commute split: if_splits)

lemma lsm_grants: "my_lsm_inode_permission pid msk = 0" "my_lsm_inode_create pid = 0" "my_lsm_inode_unlink pid = 0"
  by (simp_all add: my_lsm_inode_permission_def my_lsm_inode_create_def my_lsm_inode_unlink_def my_task_is_allowed_def)

text \<open>One greeting per unit of \<open>howmany\<close>, none when it is not positive.\<close>

lemma param_loop_length: "length (param_loop n w i) = nat (n - i)"
proof (induction n w i rule: param_loop.induct)
  case (1 n w i)
  then show ?case by (subst param_loop.simps) (simp, arith)
qed

end
