(* ===== verification/Open_Files.thy ===== *)
theory Open_Files
  imports Kernel_Prelude
begin

text \<open>
  The open and release functions of the drivers. Open finds the device of the inode (\<open>container_of\<close>) and stores it in
  the file, where read, write, ioctl, poll, mmap and release find it. A device is known by its number.
\<close>

section \<open>Open and release\<close>

record kfile =
  private_data :: "nat option"

definition myfbopen :: "nat \<Rightarrow> kfile \<Rightarrow> int \<times> kfile" where
  "myfbopen mydev fp = (0, fp\<lparr>private_data := Some mydev\<rparr>)"

definition myfbrelease :: "kfile \<Rightarrow> int \<times> kfile" where
  "myfbrelease fp = (0, fp)"

definition mysensor_open :: "nat \<Rightarrow> kfile \<Rightarrow> int \<times> kfile" where
  "mysensor_open mydev fp = (0, fp\<lparr>private_data := Some mydev\<rparr>)"

definition mysensor_release :: "kfile \<Rightarrow> int \<times> kfile" where
  "mysensor_release fp = (0, fp)"

definition myblkopen :: "nat \<Rightarrow> kfile \<Rightarrow> int \<times> kfile" where
  "myblkopen mydev fp = (0, fp\<lparr>private_data := Some mydev\<rparr>)"

definition myblkrelease :: "kfile \<Rightarrow> int \<times> kfile" where
  "myblkrelease fp = (0, fp)"

definition configopen :: "nat \<Rightarrow> kfile \<Rightarrow> int \<times> kfile" where
  "configopen mydev fp = (0, fp\<lparr>private_data := Some mydev\<rparr>)"

definition configrelease :: "kfile \<Rightarrow> int \<times> kfile" where
  "configrelease fp = (0, fp)"

text \<open>\<open>myproject\<close>: close also clears the pointer.\<close>

definition sensor_device_open :: "nat \<Rightarrow> kfile \<Rightarrow> int \<times> kfile" where
  "sensor_device_open mysensor fp = (0, fp\<lparr>private_data := Some mysensor\<rparr>)"

definition sensor_device_close :: "kfile \<Rightarrow> int \<times> kfile" where
  "sensor_device_close fp = (0, fp\<lparr>private_data := None\<rparr>)"

text \<open>The alarm's close does not touch the device.\<close>

definition malm_open :: "nat \<Rightarrow> kfile \<Rightarrow> int \<times> kfile" where
  "malm_open malm fp = (0, fp\<lparr>private_data := Some malm\<rparr>)"

definition malm_close :: "kfile \<Rightarrow> int \<times> kfile" where
  "malm_close fp = (0, fp)"

text \<open>
  The ioctl device and the proc file count the users of the module. \<open>got\<close> is what \<open>try_module_get\<close> returned, which
  both ignore: it fails once the module is on its way out. \<open>module_put\<close> stops at zero.
\<close>

definition ioctl_device_open :: "bool \<Rightarrow> nat \<Rightarrow> int \<times> nat" where
  "ioctl_device_open got users = (0, if got then users + 1 else users)"

definition ioctl_device_release :: "nat \<Rightarrow> int \<times> nat" where
  "ioctl_device_release users = (0, users - 1)"

definition procfs_open :: "bool \<Rightarrow> nat \<Rightarrow> int \<times> nat" where
  "procfs_open got users = (0, if got then users + 1 else users)"

definition procfs_close :: "nat \<Rightarrow> int \<times> nat" where
  "procfs_close users = (0, users - 1)"

section \<open>What they leave in the file\<close>

lemmas file_functions = myfbopen_def myfbrelease_def mysensor_open_def mysensor_release_def myblkopen_def myblkrelease_def
  configopen_def configrelease_def sensor_device_open_def sensor_device_close_def malm_open_def malm_close_def

text \<open>Only \<open>myproject\<close> leaves no pointer to the device behind in a closed file.\<close>

lemma closed_file:
  "private_data (snd (myfbrelease (snd (myfbopen d fp)))) = Some d"
  "private_data (snd (mysensor_release (snd (mysensor_open d fp)))) = Some d"
  "private_data (snd (myblkrelease (snd (myblkopen d fp)))) = Some d"
  "private_data (snd (configrelease (snd (configopen d fp)))) = Some d"
  "private_data (snd (malm_close (snd (malm_open d fp)))) = Some d"
  "private_data (snd (sensor_device_close (snd (sensor_device_open d fp)))) = None"
  by (simp_all add: file_functions)

text \<open>Opening and closing the counted files leaves the count as it was when the reference was got.\<close>

lemma users_balanced:
  "snd (ioctl_device_release (snd (ioctl_device_open True n))) = n" "snd (procfs_close (snd (procfs_open True n))) = n"
  by (simp_all add: ioctl_device_open_def ioctl_device_release_def procfs_open_def procfs_close_def)

end
