(* ===== verification/Ring_TSO.thy ===== *)
theory Ring_TSO
  imports Blkdev
begin

text \<open>
  The mapped ring of \<open>practice/myblkdev\<close> on a machine with store buffers. Neither \<open>myblkdev.c\<close> nor
  \<open>app/main.c\<close> has a memory barrier: the producer's stores to the data area, to \<open>head\<close> and to
  \<open>overflow\<close>, and the program's stores to \<open>tail\<close>, become visible to the other side some time after
  they are executed. Here each side has a buffer of pending stores, a load sees the newest pending store of its own
  side or else the memory, and pending stores reach the memory in steps of their own: in the order they were
  executed (total store order, x86), or in any order that respects single cells (partial store
  order). The copying of bytes into the ring and out of it is split into single bytes.
\<close>

section \<open>Stores of the producer\<close>

datatype bstore = St_data nat char | St_head u32 | St_overflow u32

datatype bcell = Cell_data nat | Cell_head | Cell_overflow

fun store_cell :: "bstore \<Rightarrow> bcell" where
  "store_cell (St_data a b) = Cell_data a"
| "store_cell (St_head h) = Cell_head"
| "store_cell (St_overflow n) = Cell_overflow"

fun apply_store :: "bstore \<Rightarrow> blkmem \<Rightarrow> blkmem" where
  "apply_store (St_data a b) m = m\<lparr>bdata := (bdata m)[a := b]\<rparr>"
| "apply_store (St_head h) m = set_head h m"
| "apply_store (St_overflow n) m = m\<lparr>ctrl := (ctrl m)\<lparr>bc_overflow := n\<rparr>\<rparr>"

text \<open>A \<open>memcpy\<close> into the data area, byte by byte, and the one or two of them a call makes.\<close>

definition copy_stores :: "nat \<Rightarrow> string \<Rightarrow> bstore list" where
  "copy_stores off bs = map (\<lambda>i. St_data (off + i) (bs ! i)) [0..<length bs]"

definition write_stores :: "u32 \<Rightarrow> u32 \<Rightarrow> string \<Rightarrow> nat \<Rightarrow> bstore list" where
  "write_stores head sz src len =
    (if unat head + len \<le> unat sz then copy_stores (unat head) (take len src)
     else let first = unat (sz - head)
          in copy_stores (unat head) (take first src) @ copy_stores 0 (take (len - first) (drop first src)))"

definition produce_len :: "u32 \<Rightarrow> u32 \<Rightarrow> u32 \<Rightarrow> nat \<Rightarrow> nat" where
  "produce_len head tail sz len = min len (unat (free_space head tail sz))"

definition overflow_stores :: "u32 \<Rightarrow> u32 \<Rightarrow> u32 \<Rightarrow> nat \<Rightarrow> u32 \<Rightarrow> bstore list" where
  "overflow_stores head tail sz len ov =
    (if len > unat (free_space head tail sz) then [St_overflow (ov + 1)] else [])"

definition head_stores :: "u32 \<Rightarrow> u32 \<Rightarrow> nat \<Rightarrow> bstore list" where
  "head_stores head sz len = (if len > 0 then [St_head (of_nat ((unat head + len) mod unat sz))] else [])"

section \<open>The machine\<close>

text \<open>The consumer reads \<open>tail\<close> and \<open>head\<close>, hands the bytes to \<open>fwrite\<close> one by one and then stores the
  tail.\<close>

definition chunk_len :: "u32 \<Rightarrow> u32 \<Rightarrow> u32 \<Rightarrow> nat" where
  "chunk_len sz t h = (if t < h then unat (h - t) else unat (sz - t))"

definition chunk_tail :: "u32 \<Rightarrow> u32 \<Rightarrow> u32" where
  "chunk_tail t h = (if t < h then h else 0)"

datatype prod_pc = P_idle | P_loaded string nat u32 u32
datatype cons_pc = C_idle | C_checked | C_copying u32 u32 string

record tso =
  tmem :: blkmem
  pbuf :: "bstore list"
  cbuf :: "u32 list"
  ppc :: prod_pc
  cpc :: cons_pc
  tproduced :: string
  tconsumed :: string

definition prod_view :: "tso \<Rightarrow> blkmem" where
  "prod_view s = fold apply_store (pbuf s) (tmem s)"

definition cons_tail :: "tso \<Rightarrow> u32" where
  "cons_tail s = last (bc_tail (ctrl (tmem s)) # cbuf s)"

text \<open>Which pending store may reach the memory next.\<close>

definition may_drain :: "bool \<Rightarrow> bstore list \<Rightarrow> nat \<Rightarrow> bool" where
  "may_drain fifo buf i \<longleftrightarrow> i < length buf
     \<and> (if fifo then i = 0 else \<forall>j < i. store_cell (buf ! j) \<noteq> store_cell (buf ! i))"

text \<open>
  The steps. \<open>p_store\<close> leaves the order of the bytes within a call open, as \<open>memcpy\<close> does; the store to
  \<open>overflow\<close> is executed before them and the one to \<open>head\<close> after them.
\<close>

inductive tso_step :: "bool \<Rightarrow> tso \<Rightarrow> tso \<Rightarrow> bool" for fifo where
  p_load: "ppc s = P_idle \<Longrightarrow> len \<le> length src \<Longrightarrow>
    tso_step fifo s (s\<lparr>ppc := P_loaded src len (bc_head (ctrl (prod_view s))) (bc_tail (ctrl (tmem s)))\<rparr>)"
| p_store: "ppc s = P_loaded src len head tail \<Longrightarrow> sz = bc_size (ctrl (tmem s)) \<Longrightarrow>
    k = produce_len head tail sz len \<Longrightarrow> mset ds = mset (write_stores head sz src k) \<Longrightarrow>
    tso_step fifo s (s\<lparr>ppc := P_idle,
      pbuf := pbuf s @ overflow_stores head tail sz len (bc_overflow (ctrl (prod_view s))) @ ds @ head_stores head sz k,
      tproduced := tproduced s @ take k src\<rparr>)"
| p_drain: "may_drain fifo (pbuf s) i \<Longrightarrow>
    tso_step fifo s (s\<lparr>tmem := apply_store (pbuf s ! i) (tmem s), pbuf := take i (pbuf s) @ drop (Suc i) (pbuf s)\<rparr>)"
| c_check: "cpc s = C_idle \<Longrightarrow> cons_tail s \<noteq> bc_head (ctrl (tmem s)) \<Longrightarrow> tso_step fifo s (s\<lparr>cpc := C_checked\<rparr>)"
| c_snap: "cpc s = C_checked \<Longrightarrow>
    tso_step fifo s (s\<lparr>cpc := C_copying (cons_tail s) (bc_head (ctrl (tmem s))) []\<rparr>)"
| c_copy: "cpc s = C_copying t h out \<Longrightarrow> length out < chunk_len (bc_size (ctrl (tmem s))) t h \<Longrightarrow>
    tso_step fifo s (s\<lparr>cpc := C_copying t h (out @ [bdata (tmem s) ! (unat t + length out)])\<rparr>)"
| c_store: "cpc s = C_copying t h out \<Longrightarrow> length out = chunk_len (bc_size (ctrl (tmem s))) t h \<Longrightarrow>
    tso_step fifo s (s\<lparr>cpc := C_idle, cbuf := cbuf s @ [chunk_tail t h], tconsumed := tconsumed s @ out\<rparr>)"
| c_drain: "cbuf s = t # ts \<Longrightarrow> tso_step fifo s (s\<lparr>tmem := set_tail t (tmem s), cbuf := ts\<rparr>)"

definition tso_start :: tso where
  "tso_start = \<lparr>tmem = blk_area, pbuf = [], cbuf = [], ppc = P_idle, cpc = C_idle, tproduced = [], tconsumed = []\<rparr>"

inductive tso_reach :: "bool \<Rightarrow> tso \<Rightarrow> bool" for fifo where
  start: "tso_reach fifo tso_start"
| step: "tso_reach fifo s \<Longrightarrow> tso_step fifo s t \<Longrightarrow> tso_reach fifo t"

text \<open>The memory once everything pending has arrived.\<close>

definition drained :: "tso \<Rightarrow> blkmem" where
  "drained s = set_tail (cons_tail s) (prod_view s)"

section \<open>The buffered stores are those of the sequential functions\<close>

lemma fold_copy_stores:
  "off + length bs \<le> length (bdata m) \<Longrightarrow>
   fold apply_store (copy_stores off bs) m = m\<lparr>bdata := memcpy_at (bdata m) off bs\<rparr>"
proof (induction bs arbitrary: off m)
  case Nil
  then show ?case by (simp add: copy_stores_def memcpy_at_def)
next
  case (Cons b bs)
  have "copy_stores off (b # bs) = St_data off b # copy_stores (Suc off) bs"
    by (simp add: copy_stores_def upt_conv_Cons map_Suc_upt [symmetric] del: upt_Suc)
  moreover have "memcpy_at ((bdata m)[off := b]) (Suc off) bs = memcpy_at (bdata m) off (b # bs)"
    using Cons.prems by (intro nth_equalityI) (auto simp: nth_memcpy_at nth_list_update nth_Cons')
  ultimately show ?case using Cons.IH [of "Suc off" "m\<lparr>bdata := (bdata m)[off := b]\<rparr>"] Cons.prems by simp
qed

lemma write_stores_run:
  assumes "ring_write head sz src len (bdata m) = Some d"
  shows "fold apply_store (write_stores head sz src len) m = m\<lparr>bdata := d\<rparr>"
  using assms fold_copy_stores [of "unat head" "take len src" m]
    fold_copy_stores [of "unat head" "take (unat (sz - head)) src" m]
    fold_copy_stores [of 0 "take (len - unat (sz - head)) (drop (unat (sz - head)) src)"
      "m\<lparr>bdata := memcpy_at (bdata m) (unat head) (take (unat (sz - head)) src)\<rparr>"]
  by (auto simp: ring_write_def write_stores_def memcpy_chk_def Let_def split: if_splits option.splits)

text \<open>Executing the stores of a call at once is \<open>myblk_produce_data\<close>.\<close>

lemma produce_stores_run:
  assumes "blk_inv m" "len \<le> length src"
  defines "head \<equiv> bc_head (ctrl m)" and "tail \<equiv> bc_tail (ctrl m)" and "sz \<equiv> bc_size (ctrl m)"
  defines "k \<equiv> produce_len head tail sz len"
  shows "myblk_produce_data src len m = Some (k > 0,
    fold apply_store (overflow_stores head tail sz len (bc_overflow (ctrl m)) @ write_stores head sz src k @ head_stores head sz k) m)"
proof -
  define m1 where "m1 = fold apply_store (overflow_stores head tail sz len (bc_overflow (ctrl m))) m"
  have m1: "m1 = (if len > unat (free_space head tail sz) then count_overflow m else m)"
    by (simp add: m1_def overflow_stores_def count_overflow_def)
  have k: "(if len > unat (free_space head tail sz) then unat (free_space head tail sz) else len) = k"
    by (simp add: k_def produce_len_def)
  obtain w m' where run: "myblk_produce_data src len m = Some (w, m')"
    using produce_cases [OF assms(1,2)] by blast
  show ?thesis
  proof (cases "0 < k")
    case True
    with run obtain d where d: "ring_write head sz src k (bdata m1) = Some d" "sz \<noteq> 0"
      "m' = set_head (of_nat ((unat head + k) mod unat sz)) (m1\<lparr>bdata := d\<rparr>)" "w"
      by (auto simp: myblk_produce_data_def Let_def k m1 [symmetric] head_def [symmetric] tail_def [symmetric] sz_def [symmetric]
          split: option.splits if_splits)
    with run True write_stores_run [OF d(1)] show ?thesis by (simp add: m1_def head_stores_def)
  next
    case False
    have "copy_stores 0 [] = []" "copy_stores (unat head) [] = []" by (simp_all add: copy_stores_def)
    moreover have "unat head \<le> unat sz"
      using assms(1) by (simp add: blk_inv_def head_def sz_def word_less_nat_alt)
    ultimately have "write_stores head sz src 0 = []" by (simp add: write_stores_def)
    with False show ?thesis
      by (simp add: myblk_produce_data_def Let_def k m1 [symmetric] m1_def head_stores_def
          head_def [symmetric] tail_def [symmetric] sz_def [symmetric])
  qed
qed

text \<open>Reading a chunk byte by byte from an unchanging memory and storing the tail is \<open>consume_chunk\<close>.\<close>

lemma chunk_run:
  "consume_chunk t h m = (take (chunk_len (bc_size (ctrl m)) t h) (drop (unat t) (bdata m)), set_tail (chunk_tail t h) m)"
  by (simp add: consume_chunk_def chunk_len_def chunk_tail_def)

section \<open>Invariant\<close>

lemma mod_once: "a < 2 * N \<Longrightarrow> a mod N = (if a < N then a else a - N)" for a N :: nat
  by (simp add: mod_if)

lemma take_same_append: "take (length out) xs = out \<Longrightarrow> take (length out) (xs @ ys) = out"
  by (metis append.assoc append_eq_conv_conj append_take_drop_id)

text \<open>
  Positions count bytes from the start of the stream and meet the indices modulo \<open>N\<close>. \<open>C\<close> is the number of
  bytes consumed, \<open>H\<close> the position of the memory's head. Whatever prefix of the pending stores has
  arrived, the memory holds the stream between \<open>C\<close> and the head it shows.
\<close>

definition stream_at :: "nat \<Rightarrow> string \<Rightarrow> nat \<Rightarrow> string \<Rightarrow> nat \<Rightarrow> bool" where
  "stream_at N pr C d H \<longleftrightarrow> length d = N \<and> H \<le> length pr \<and> (\<forall>i. C \<le> i \<and> i < H \<longrightarrow> d ! (i mod N) = pr ! i)"

fun pending_ok :: "nat \<Rightarrow> string \<Rightarrow> nat \<Rightarrow> string \<Rightarrow> nat \<Rightarrow> bstore list \<Rightarrow> bool" where
  "pending_ok N pr C d H [] \<longleftrightarrow> stream_at N pr C d H \<and> H = length pr"
| "pending_ok N pr C d H (St_data a b # ss) \<longleftrightarrow> stream_at N pr C d H \<and> a < N \<and> pending_ok N pr C (d[a := b]) H ss"
| "pending_ok N pr C d H (St_head w # ss) \<longleftrightarrow>
    stream_at N pr C d H \<and> (\<exists>H' \<ge> H. unat w = H' mod N \<and> pending_ok N pr C d H' ss)"
| "pending_ok N pr C d H (St_overflow n # ss) \<longleftrightarrow> stream_at N pr C d H \<and> pending_ok N pr C d H ss"

fun tails_ok :: "nat \<Rightarrow> nat \<Rightarrow> u32 list \<Rightarrow> nat \<Rightarrow> bool" where
  "tails_ok N T [] C \<longleftrightarrow> T = C"
| "tails_ok N T (w # ws) C \<longleftrightarrow> (\<exists>T' \<ge> T. unat w = T' mod N \<and> tails_ok N T' ws C)"

definition ppc_ok :: "nat \<Rightarrow> string \<Rightarrow> nat \<Rightarrow> prod_pc \<Rightarrow> bool" where
  "ppc_ok N pr T pc \<longleftrightarrow> (case pc of P_idle \<Rightarrow> True
     | P_loaded src len head tail \<Rightarrow> len \<le> length src \<and> unat head = length pr mod N
         \<and> (\<exists>T' \<le> T. unat tail = T' mod N \<and> T' \<le> length pr \<and> length pr < T' + N))"

definition cpc_ok :: "nat \<Rightarrow> string \<Rightarrow> nat \<Rightarrow> nat \<Rightarrow> cons_pc \<Rightarrow> bool" where
  "cpc_ok N pr C H pc \<longleftrightarrow> (case pc of C_idle \<Rightarrow> True | C_checked \<Rightarrow> C < H
     | C_copying t h out \<Rightarrow> unat t = C mod N
         \<and> (\<exists>h'. C < h' \<and> h' \<le> H \<and> unat h = h' mod N) \<and> take (length out) (drop C pr) = out)"

definition tso_at :: "nat \<Rightarrow> nat \<Rightarrow> nat \<Rightarrow> nat \<Rightarrow> tso \<Rightarrow> bool" where
  "tso_at N T C H s \<longleftrightarrow> unat (bc_size (ctrl (tmem s))) = N \<and> 0 < N
     \<and> T \<le> C \<and> C \<le> H \<and> length (tproduced s) < T + N
     \<and> unat (bc_tail (ctrl (tmem s))) = T mod N \<and> unat (bc_head (ctrl (tmem s))) = H mod N
     \<and> length (tconsumed s) = C \<and> take C (tproduced s) = tconsumed s
     \<and> pending_ok N (tproduced s) C (bdata (tmem s)) H (pbuf s)
     \<and> tails_ok N T (cbuf s) C \<and> ppc_ok N (tproduced s) T (ppc s) \<and> cpc_ok N (tproduced s) C H (cpc s)"

definition tso_inv :: "tso \<Rightarrow> bool" where
  "tso_inv s \<longleftrightarrow> (\<exists>N T C H. tso_at N T C H s)"

lemma stream_at_nth: "stream_at N pr C d H \<Longrightarrow> C \<le> i \<Longrightarrow> i < H \<Longrightarrow> d ! (i mod N) = pr ! i"
  by (simp add: stream_at_def)

lemma pending_okD: "pending_ok N pr C d H ss \<Longrightarrow> stream_at N pr C d H"
  by (cases "(N, pr, C, d, H, ss)" rule: pending_ok.cases) auto

lemma pending_ok_consume:
  "pending_ok N pr C d H ss \<Longrightarrow> C \<le> C' \<Longrightarrow> pending_ok N pr C' d H ss"
  by (induction N pr C d H ss rule: pending_ok.induct) (auto simp: stream_at_def)

lemma pending_ok_view:
  "pending_ok N pr C (bdata m) H ss \<Longrightarrow> unat (bc_head (ctrl m)) = H mod N \<Longrightarrow>
   unat (bc_head (ctrl (fold apply_store ss m))) = length pr mod N
   \<and> stream_at N pr C (bdata (fold apply_store ss m)) (length pr)
   \<and> bc_size (ctrl (fold apply_store ss m)) = bc_size (ctrl m) \<and> bc_tail (ctrl (fold apply_store ss m)) = bc_tail (ctrl m)"
proof (induction ss arbitrary: m H)
  case Nil
  then show ?case by auto
next
  case (Cons st ss)
  show ?case
  proof (cases st)
    case (St_data a b)
    with Cons.prems Cons.IH [of "m\<lparr>bdata := (bdata m)[a := b]\<rparr>" H] show ?thesis by simp
  next
    case (St_head w)
    with Cons.prems obtain H' where "unat w = H' mod N" "pending_ok N pr C (bdata m) H' ss" by auto
    with St_head Cons.IH [of "set_head w m" H'] show ?thesis by (simp add: set_head_def)
  next
    case (St_overflow n)
    with Cons.prems Cons.IH [of "m\<lparr>ctrl := (ctrl m)\<lparr>bc_overflow := n\<rparr>\<rparr>" H] show ?thesis by simp
  qed
qed

lemma pending_ok_cells: "pending_ok N pr C d H ss \<Longrightarrow> St_data a b \<in> set ss \<Longrightarrow> a < N"
  by (induction N pr C d H ss rule: pending_ok.induct) auto

lemma tails_ok_last: "tails_ok N T ws C \<Longrightarrow> unat w = T mod N \<Longrightarrow> unat (last (w # ws)) = C mod N"
  by (induction N T ws C arbitrary: w rule: tails_ok.induct) (auto split: if_splits)

lemma tails_ok_snoc: "tails_ok N T ws C \<Longrightarrow> C \<le> C' \<Longrightarrow> unat w = C' mod N \<Longrightarrow> tails_ok N T (ws @ [w]) C'"
  by (induction N T ws C rule: tails_ok.induct) auto

lemma tails_ok_le: "tails_ok N T ws C \<Longrightarrow> T \<le> C"
  by (induction N T ws C rule: tails_ok.induct) (auto intro: order_trans)

lemma ring_dist_pos:
  assumes "T \<le> P" "P < T + N"
  shows "ring_dist N (T mod N) (P mod N) = P - T"
proof -
  have "(T mod N + (P - T)) mod N = P mod N" using assms(1) by (metis le_add_diff_inverse mod_add_left_eq)
  then show ?thesis using ring_dist_unique [of "T mod N" N "P - T"] assms by simp
qed

section \<open>The producer's stores keep the pending stream\<close>

text \<open>The stores of a call, in any order: the cells behind the stream, each once.\<close>

lemma write_stores_set:
  assumes "unat head = P mod N" "unat sz = N" "0 < N" "k < N" "k \<le> length src"
  shows "write_stores head sz src k = map (\<lambda>i. St_data ((P + i) mod N) (src ! i)) [0..<k]"
proof -
  define p where "p = P mod N"
  have p: "p < N" "unat head = p" using assms(1,3) by (simp_all add: p_def)
  have pos: "(P + i) mod N = (if p + i < N then p + i else p + i - N)" if "i < k" for i
  proof -
    have "(P + i) mod N = (p + i) mod N" by (simp add: p_def mod_simps)
    then show ?thesis using that p(1) assms(4) by (simp add: mod_once)
  qed
  have f: "unat (sz - head) = N - p" using p assms(2) by (simp add: unat_sub word_le_nat_alt)
  show ?thesis
  proof (cases "p + k \<le> N")
    case True
    then show ?thesis using p assms(2,5) pos
      by (auto simp: write_stores_def copy_stores_def intro!: nth_equalityI)
  next
    case False
    then show ?thesis using p assms(2,4,5) pos f
      by (auto simp: write_stores_def copy_stores_def Let_def nth_append intro!: nth_equalityI)
  qed
qed

lemma pending_ok_extend:
  "pending_ok N pr C d H ss \<Longrightarrow>
   (\<And>d'. stream_at N (pr @ bs) C d' (length pr) \<Longrightarrow> pending_ok N (pr @ bs) C d' (length pr) qs) \<Longrightarrow>
   pending_ok N (pr @ bs) C d H (ss @ qs)"
proof (induction N pr C d H ss rule: pending_ok.induct)
  case (1 N pr C d H)
  then show ?case by (auto simp: stream_at_def nth_append)
qed (auto simp: stream_at_def nth_append)

text \<open>
  The cells of a call lie behind the stream and the values they get depend on the cell alone, so that the order of the
  stores does not matter.
\<close>

lemma pending_ok_write:
  fixes N :: nat and pr bs :: string
  defines "P \<equiv> length pr" and "k \<equiv> length bs"
  defines "cell \<equiv> \<lambda>i. St_data ((P + i) mod N) (bs ! i)"
  assumes "stream_at N (pr @ bs) C d P" "C \<le> P" "P + k < C + N"
    and "set ds \<subseteq> cell ` {..<k}" and "\<And>i. i < k \<Longrightarrow> cell i \<in> set ds \<or> d ! ((P + i) mod N) = bs ! i"
    and w: "unat w = (P + k) mod N"
  shows "pending_ok N (pr @ bs) C d P (ds @ [St_head w])"
  using assms(4,7,8)
proof (induction ds arbitrary: d)
  case Nil
  have "stream_at N (pr @ bs) C d (P + k)"
    unfolding stream_at_def
  proof (intro conjI allI impI)
    fix i assume i: "C \<le> i \<and> i < P + k"
    show "d ! (i mod N) = (pr @ bs) ! i"
    proof (cases "i < P")
      case True
      with Nil(1) i show ?thesis by (simp add: stream_at_def)
    next
      case False
      then obtain j where "i = P + j" "j < k" using i by (metis add_less_cancel_left le_Suc_ex not_less)
      with Nil(3) [of j] show ?thesis by (simp add: P_def)
    qed
  qed (use Nil(1) in \<open>simp_all add: stream_at_def P_def k_def\<close>)
  with Nil(1) w show ?case by (auto simp: P_def k_def)
next
  case (Cons st ds)
  then obtain i where i: "i < k" "st = cell i" by auto
  let ?a = "(P + i) mod N"
  have N: "0 < N" "length d = N" using assms(5,6) Cons.prems(1) by (auto simp: stream_at_def)
  have same: "j = i" if "j < k" "(P + j) mod N = ?a" for j
    using ring_index_inj [of j N i P] that i(1) assms(5,6) by simp
  have old: "?a \<noteq> j mod N" if "C \<le> j" "j < P" for j
  proof
    assume "?a = j mod N"
    then have b: "j - C < N" "P + i - C < N" "(C + (j - C)) mod N = (C + (P + i - C)) mod N"
      using that i(1) assms(6) by simp_all
    from ring_index_inj [OF b] show False using that by linarith
  qed
  have "stream_at N (pr @ bs) C (d[?a := bs ! i]) P"
    using Cons.prems(1) old by (auto simp: stream_at_def)
  moreover have "cell j \<in> set ds \<or> d[?a := bs ! i] ! ((P + j) mod N) = bs ! j" if "j < k" for j
  proof (cases "(P + j) mod N = ?a")
    case True
    with same [OF that] N show ?thesis by simp
  next
    case False
    then have "cell j \<noteq> st" using i by (simp add: cell_def)
    with Cons.prems(3) [OF that] False show ?thesis by auto
  qed
  ultimately show ?case
    using Cons.IH [of "d[?a := bs ! i]"] Cons.prems(1,2) N i by (simp add: cell_def)
qed

text \<open>A whole call.\<close>

lemma pending_ok_produce:
  assumes pend: "pending_ok N pr C d H ss" and "C \<le> length pr" "0 < N" "unat sz = N"
    and ld: "unat head = length pr mod N" "unat tail = T mod N" "T \<le> C" "T \<le> length pr" "length pr < T + N" "len \<le> length src"
    and k: "k = produce_len head tail sz len" and ds: "mset ds = mset (write_stores head sz src k)"
  shows "pending_ok N (pr @ take k src) C d H (ss @ overflow_stores head tail sz len ov @ ds @ head_stores head sz k)
    \<and> length pr + k < T + N"
proof -
  let ?P = "length pr" and ?bs = "take k src"
  have "head < sz" "tail < sz" using ld assms(3,4) by (simp_all add: word_less_nat_alt)
  then have "unat (free_space head tail sz) = N - 1 - (?P - T)"
    using ld assms(4) by (simp add: free_space_nat ring_dist_pos)
  then have k_le: "k \<le> len" "?P + k < T + N" using k ld by (auto simp: produce_len_def)
  then have len_bs: "length ?bs = k" using ld by simp
  have "k < N" using k_le ld by linarith
  then have "write_stores head sz src k = map (\<lambda>i. St_data ((?P + i) mod N) (src ! i)) [0..<k]"
    using write_stores_set ld assms(3,4) k_le by auto
  with mset_eq_setD [OF ds] have set_ds: "set ds = (\<lambda>i. St_data ((?P + i) mod N) (?bs ! i)) ` {..<k}"
    by (auto simp: atLeast0LessThan)
  have uh: "unat (of_nat ((unat head + k) mod unat sz) :: u32) = (?P + k) mod N"
  proof -
    have "(unat head + k) mod N < N" using assms(3) by simp
    moreover have "N < 2 ^ 32" using unsigned_less [of sz, where ?'a = nat] assms(4) by simp
    ultimately show ?thesis using ld(1) assms(4) by (simp add: unat_of_nat mod_simps)
  qed
  have body: "pending_ok N (pr @ ?bs) C d' ?P (ds @ head_stores head sz k)" if st: "stream_at N (pr @ ?bs) C d' ?P" for d'
  proof (cases "k = 0")
    case True
    with set_ds st show ?thesis by (simp add: head_stores_def)
  next
    case False
    then show ?thesis
      using pending_ok_write [of N pr ?bs C d' ds] st assms(2) k_le ld uh set_ds len_bs by (auto simp: head_stores_def)
  qed
  have "pending_ok N (pr @ ?bs) C d H (ss @ overflow_stores head tail sz len ov @ ds @ head_stores head sz k)"
    by (rule pending_ok_extend [OF pend]) (auto simp: overflow_stores_def body)
  with k_le show ?thesis by simp
qed

section \<open>Steps\<close>

text \<open>The chunk between the consumer's position and the head it read ends at a position up to that head.\<close>

lemma chunk_pos:
  assumes "unat t = C mod N" "unat h = h' mod N" "unat sz = N" "0 < N" "C < h'" "h' < C + N"
  shows "0 < chunk_len sz t h" "C + chunk_len sz t h \<le> h'" "unat (chunk_tail t h) = (C + chunk_len sz t h) mod N"
    "C mod N + chunk_len sz t h \<le> N"
proof -
  define c where "c = C mod N"
  have c: "c < N" "unat t = c" using assms(1,4) by (simp_all add: c_def)
  have "h' mod N = (c + (h' - C)) mod N" using assms(5) by (metis c_def le_add_diff_inverse less_imp_le mod_add_left_eq)
  then have h: "unat h = (if c + (h' - C) < N then c + (h' - C) else c + (h' - C) - N)"
    using assms(2,5,6) c by (simp add: mod_once)
  have len: "chunk_len sz t h = (if c + (h' - C) < N then h' - C else N - c)"
    using h c assms(3,5,6) by (auto simp: chunk_len_def word_less_nat_alt unat_sub word_le_nat_alt)
  show "0 < chunk_len sz t h" "C + chunk_len sz t h \<le> h'" "C mod N + chunk_len sz t h \<le> N"
    using len c assms(5) by (auto simp: c_def [symmetric])
  have "(C + chunk_len sz t h) mod N = (c + chunk_len sz t h) mod N" by (simp add: c_def mod_simps)
  then show "unat (chunk_tail t h) = (C + chunk_len sz t h) mod N"
    using h len c assms(5,6) by (auto simp: chunk_tail_def word_less_nat_alt)
qed

lemma tso_at_facts:
  assumes "tso_at N T C H s"
  shows "H \<le> length (tproduced s)" "length (bdata (tmem s)) = N" "unat (cons_tail s) = C mod N"
    "unat (bc_head (ctrl (prod_view s))) = length (tproduced s) mod N"
    "stream_at N (tproduced s) C (bdata (tmem s)) H"
    "stream_at N (tproduced s) C (bdata (prod_view s)) (length (tproduced s))"
    "bc_size (ctrl (prod_view s)) = bc_size (ctrl (tmem s))"
proof -
  have pend: "pending_ok N (tproduced s) C (bdata (tmem s)) H (pbuf s)" "unat (bc_head (ctrl (tmem s))) = H mod N"
    and cb: "tails_ok N T (cbuf s) C" "unat (bc_tail (ctrl (tmem s))) = T mod N"
    using assms by (simp_all add: tso_at_def)
  show "stream_at N (tproduced s) C (bdata (tmem s)) H" using pend(1) by (rule pending_okD)
  then show "H \<le> length (tproduced s)" "length (bdata (tmem s)) = N" by (simp_all add: stream_at_def)
  show "unat (cons_tail s) = C mod N" unfolding cons_tail_def using cb by (rule tails_ok_last)
  show "unat (bc_head (ctrl (prod_view s))) = length (tproduced s) mod N"
    "stream_at N (tproduced s) C (bdata (prod_view s)) (length (tproduced s))"
    "bc_size (ctrl (prod_view s)) = bc_size (ctrl (tmem s))"
    using pending_ok_view [OF pend] by (simp_all add: prod_view_def)
qed

lemma tso_at_load:
  "tso_at N T C H s \<Longrightarrow> len \<le> length src \<Longrightarrow>
   tso_at N T C H (s\<lparr>ppc := P_loaded src len (bc_head (ctrl (prod_view s))) (bc_tail (ctrl (tmem s)))\<rparr>)"
  by (frule tso_at_facts(1), frule tso_at_facts(4)) (auto simp: tso_at_def ppc_ok_def)

lemma tso_at_store:
  assumes at: "tso_at N T C H s" and pc: "ppc s = P_loaded src len head tail" and sz: "sz = bc_size (ctrl (tmem s))"
    and k: "k = produce_len head tail sz len" "mset ds = mset (write_stores head sz src k)"
  shows "tso_at N T C H (s\<lparr>ppc := P_idle,
     pbuf := pbuf s @ overflow_stores head tail sz len ov @ ds @ head_stores head sz k, tproduced := tproduced s @ take k src\<rparr>)"
proof -
  let ?pr = "tproduced s"
  have C: "T \<le> C" "C \<le> length ?pr" using at tso_at_facts(1) [OF at] by (auto simp: tso_at_def)
  from at pc obtain T' where "len \<le> length src" "unat head = length ?pr mod N" "T' \<le> T" "unat tail = T' mod N" "T' \<le> length ?pr"
    "length ?pr < T' + N" by (auto simp: tso_at_def ppc_ok_def)
  moreover have "pending_ok N ?pr C (bdata (tmem s)) H (pbuf s)" "0 < N" "unat sz = N"
    using at sz by (auto simp: tso_at_def)
  ultimately have "pending_ok N (?pr @ take k src) C (bdata (tmem s)) H
      (pbuf s @ overflow_stores head tail sz len ov @ ds @ head_stores head sz k)" "length ?pr + k < T + N"
    using pending_ok_produce [of N ?pr C "bdata (tmem s)" H "pbuf s" sz head tail T' len src k ds ov] k C by auto
  moreover have "cpc_ok N (?pr @ take k src) C H (cpc s)"
    using at C(2) take_same_append [of _ "drop C ?pr" "take k src"]
    by (auto simp: tso_at_def cpc_ok_def simp del: take_append split: cons_pc.splits)
  ultimately show ?thesis using at C by (auto simp: tso_at_def ppc_ok_def)
qed

lemma tso_at_drain:
  assumes at: "tso_at N T C H s" and buf: "pbuf s = st # ss"
  shows "\<exists>H'. tso_at N T C H' (s\<lparr>tmem := apply_store st (tmem s), pbuf := ss\<rparr>)"
proof (cases st)
  case (St_head w)
  with at buf obtain H' where "H \<le> H'" "unat w = H' mod N" "pending_ok N (tproduced s) C (bdata (tmem s)) H' ss"
    by (auto simp: tso_at_def)
  moreover from this have "cpc_ok N (tproduced s) C H' (cpc s)"
    using at by (auto simp: tso_at_def cpc_ok_def split: cons_pc.splits intro: order_trans less_le_trans)
  ultimately show ?thesis using at St_head by (auto simp: tso_at_def set_head_def intro!: exI [of _ H'])
qed (use at buf in \<open>auto simp: tso_at_def intro!: exI [of _ H]\<close>)

lemma tso_at_consumer:
  assumes at: "tso_at N T C H s"
  shows "cons_tail s \<noteq> bc_head (ctrl (tmem s)) \<Longrightarrow> tso_at N T C H (s\<lparr>cpc := C_checked\<rparr>)"
    and "cpc s = C_checked \<Longrightarrow> tso_at N T C H (s\<lparr>cpc := C_copying (cons_tail s) (bc_head (ctrl (tmem s))) []\<rparr>)"
    and "cbuf s = t # ts \<Longrightarrow> \<exists>T'. tso_at N T' C H (s\<lparr>tmem := set_tail t (tmem s), cbuf := ts\<rparr>)"
proof -
  note facts = tso_at_facts [OF at]
  show "tso_at N T C H (s\<lparr>cpc := C_checked\<rparr>)" if "cons_tail s \<noteq> bc_head (ctrl (tmem s))"
  proof -
    have "C mod N \<noteq> H mod N" using that facts(3) at by (metis tso_at_def word_unat_eq_iff)
    then have "C < H" using at by (auto simp: tso_at_def order.order_iff_strict)
    with at show ?thesis by (auto simp: tso_at_def cpc_ok_def)
  qed
  show "tso_at N T C H (s\<lparr>cpc := C_copying (cons_tail s) (bc_head (ctrl (tmem s))) []\<rparr>)" if "cpc s = C_checked"
    using at that facts(3) by (auto simp: tso_at_def cpc_ok_def)
  show "\<exists>T'. tso_at N T' C H (s\<lparr>tmem := set_tail t (tmem s), cbuf := ts\<rparr>)" if "cbuf s = t # ts"
  proof -
    from at that obtain T' where T': "T \<le> T'" "unat t = T' mod N" "tails_ok N T' ts C" by (auto simp: tso_at_def)
    moreover have "ppc_ok N (tproduced s) T' (ppc s)"
      using at T'(1) by (auto simp: tso_at_def ppc_ok_def split: prod_pc.splits intro: order_trans)
    ultimately show ?thesis using at tails_ok_le [OF T'(3)]
      by (auto simp: tso_at_def set_tail_def intro!: exI [of _ T'])
  qed
qed

text \<open>A byte of the chunk is the next byte of the stream, and the whole chunk can be handed over.\<close>

lemma tso_at_copy:
  assumes at: "tso_at N T C H s" and pc: "cpc s = C_copying t h out"
  shows "length out < chunk_len (bc_size (ctrl (tmem s))) t h \<Longrightarrow>
      tso_at N T C H (s\<lparr>cpc := C_copying t h (out @ [bdata (tmem s) ! (unat t + length out)])\<rparr>)"
    and "length out = chunk_len (bc_size (ctrl (tmem s))) t h \<Longrightarrow>
      \<exists>C'. tso_at N T C' H (s\<lparr>cpc := C_idle, cbuf := cbuf s @ [chunk_tail t h], tconsumed := tconsumed s @ out\<rparr>)"
proof -
  let ?pr = "tproduced s" and ?sz = "bc_size (ctrl (tmem s))"
  note facts = tso_at_facts [OF at]
  from at pc obtain h' where t: "unat t = C mod N" and h': "C < h'" "h' \<le> H" "unat h = h' mod N"
    and out: "take (length out) (drop C ?pr) = out" by (auto simp: tso_at_def cpc_ok_def)
  have N: "unat ?sz = N" "0 < N" and b: "h' < C + N" using at h' facts(1) by (auto simp: tso_at_def)
  note chunk = chunk_pos [OF t h'(3) N h'(1) b]
  show "tso_at N T C H (s\<lparr>cpc := C_copying t h (out @ [bdata (tmem s) ! (unat t + length out)])\<rparr>)"
    if len: "length out < chunk_len ?sz t h"
  proof -
    let ?i = "C + length out"
    have i: "?i < H" "?i < length ?pr" using len chunk(2) h'(2) facts(1) by linarith+
    have "?i mod N = C mod N + length out"
      using len chunk(4) by (metis add.commute add_less_le_mono mod_add_left_eq mod_less nat_add_left_cancel_less order_less_le_trans)
    then have "bdata (tmem s) ! (unat t + length out) = ?pr ! ?i"
      using stream_at_nth [OF facts(5), of ?i] i by (simp add: t)
    then have "take (Suc (length out)) (drop C ?pr) = out @ [bdata (tmem s) ! (unat t + length out)]"
      using i out by (simp add: take_Suc_conv_app_nth)
    with at t h' show ?thesis by (auto simp: tso_at_def cpc_ok_def)
  qed
  show "\<exists>C'. tso_at N T C' H (s\<lparr>cpc := C_idle, cbuf := cbuf s @ [chunk_tail t h], tconsumed := tconsumed s @ out\<rparr>)"
    if len: "length out = chunk_len ?sz t h"
  proof -
    let ?C = "C + length out"
    have C: "?C \<le> H" using len chunk(2) h'(2) by linarith
    have "take ?C ?pr = tconsumed s @ out" "length (tconsumed s @ out) = ?C"
      using at out by (auto simp: tso_at_def take_add)
    moreover have "pending_ok N ?pr ?C (bdata (tmem s)) H (pbuf s)"
      using at by (auto simp: tso_at_def intro: pending_ok_consume)
    moreover have "tails_ok N T (cbuf s @ [chunk_tail t h]) ?C"
      using at chunk(3) len by (intro tails_ok_snoc [of N T "cbuf s" C]) (auto simp: tso_at_def)
    ultimately have "tso_at N T ?C H (s\<lparr>cpc := C_idle, cbuf := cbuf s @ [chunk_tail t h], tconsumed := tconsumed s @ out\<rparr>)"
      using at C by (auto simp: tso_at_def cpc_ok_def)
    then show ?thesis ..
  qed
qed

lemma tso_inv_step: "tso_step True s t \<Longrightarrow> tso_inv s \<Longrightarrow> tso_inv t"
proof (induction rule: tso_step.induct)
  case (p_drain s i)
  then obtain st ss where "i = 0" "pbuf s = st # ss" by (cases "pbuf s") (auto simp: may_drain_def)
  with p_drain(2) tso_at_drain show ?case unfolding tso_inv_def by fastforce
next
  case (c_store s t h out)
  then show ?case unfolding tso_inv_def using tso_at_copy(2) [OF _ c_store(1,2)] by blast
next
  case (c_drain s t ts)
  then show ?case unfolding tso_inv_def using tso_at_consumer(3) by blast
qed (unfold tso_inv_def, (blast intro: tso_at_load tso_at_store tso_at_consumer(1,2) tso_at_copy(1))+)

lemma tso_inv_start: "tso_inv tso_start"
proof -
  have "tso_at MYBLK_DATA_SIZE 0 0 0 tso_start"
    by (simp add: tso_at_def tso_start_def blk_area_def blk_sizes ppc_ok_def cpc_ok_def stream_at_def)
  then show ?thesis by (auto simp: tso_inv_def)
qed

lemma tso_reach_inv: "tso_reach True s \<Longrightarrow> tso_inv s"
  by (induction rule: tso_reach.induct) (auto intro: tso_inv_step tso_inv_start)

section \<open>Guarantees\<close>

text \<open>With everything pending arrived, the ring holds the produced bytes that were not consumed.\<close>

lemma drained_stream:
  assumes at: "tso_at N T C H s"
  shows "blk_inv (drained s) \<and> blk_list (drained s) = drop C (tproduced s)"
proof -
  let ?pr = "tproduced s" and ?m = "drained s"
  note facts = tso_at_facts [OF at]
  have m: "unat (bc_size (ctrl ?m)) = N" "unat (bc_tail (ctrl ?m)) = C mod N" "unat (bc_head (ctrl ?m)) = length ?pr mod N"
    "bdata ?m = bdata (prod_view s)" "0 < N"
    using at facts by (simp_all add: drained_def set_tail_def tso_at_def)
  have C: "C \<le> length ?pr" "length ?pr < C + N" using at facts(1) by (auto simp: tso_at_def)
  have "blk_inv ?m" using m facts(6) by (simp add: blk_inv_def word_less_nat_alt stream_at_def)
  moreover have "blk_fill ?m = length ?pr - C" using C by (simp add: blk_fill_def m ring_dist_pos)
  then have "blk_list ?m = drop C ?pr"
    using stream_at_nth [OF facts(6)] C by (intro nth_equalityI) (simp_all add: blk_list_def m mod_simps)
  ultimately show ?thesis ..
qed

text \<open>One call of the producer, with all its stores pending.\<close>

lemma reach_pending:
  "tso_reach fifo (tso_start\<lparr>pbuf := [St_data 0 CHR ''a'', St_data 1 CHR ''b'', St_head 2], tproduced := ''ab''\<rparr>)"
proof -
  have area: "bc_head (ctrl blk_area) = 0" "bc_tail (ctrl blk_area) = 0" "bc_size (ctrl blk_area) = 65536"
    by (simp_all add: blk_area_def blk_sizes)
  have k: "produce_len 0 0 65536 2 = 2" "overflow_stores 0 0 65536 2 ov = []" "head_stores 0 65536 2 = [St_head 2]" for ov
    by (simp_all add: produce_len_def overflow_stores_def free_space_def head_stores_def)
  have w: "write_stores 0 65536 ''ab'' 2 = [St_data 0 CHR ''a'', St_data 1 CHR ''b'']"
    by (simp add: write_stores_def copy_stores_def upt_rec)
  let ?s = "tso_start\<lparr>ppc := P_loaded ''ab'' 2 0 0\<rparr>"
  have "tso_reach fifo ?s"
    using tso_reach.step [OF tso_reach.start tso_step.p_load [of tso_start 2 "''ab''" fifo]]
    by (simp add: tso_start_def prod_view_def area)
  then show ?thesis
    using tso_reach.step [OF _ tso_step.p_store [of ?s "''ab''" 2 0 0 65536 2 "[St_data 0 CHR ''a'', St_data 1 CHR ''b'']" fifo]]
    by (simp add: tso_start_def area k w)
qed

text \<open>
  On a machine that lets the store to \<open>head\<close> pass the stores to the data area, as
  the code without barriers permits, the program reads the new head, writes a byte that was never produced and
  releases the cell: the stream is broken.
\<close>

lemma pso_tears_stream:
  "\<exists>s. tso_reach False s \<and> tproduced s = ''ab'' \<and> tconsumed s = [CHR 0x00, CHR 0x00] \<and> cons_tail s = 2"
proof -
  let ?m = "set_head 2 blk_area"
  let ?s = "\<lambda>pc out. \<lparr>tmem = ?m, pbuf = [St_data 0 CHR ''a'', St_data 1 CHR ''b''], cbuf = [], ppc = P_idle, cpc = pc,
     tproduced = ''ab'', tconsumed = out\<rparr>"
  have area: "bc_head (ctrl ?m) = 2" "bc_tail (ctrl ?m) = 0" "bc_size (ctrl ?m) = 65536"
    "bdata ?m ! 0 = CHR 0x00" "bdata ?m ! Suc 0 = CHR 0x00" by (simp_all add: blk_area_def blk_sizes set_head_def)
  have len: "chunk_len 65536 0 2 = 2" "chunk_tail 0 2 = 2" by (simp_all add: chunk_len_def chunk_tail_def)
  let ?p = "tso_start\<lparr>pbuf := [St_data 0 CHR ''a'', St_data 1 CHR ''b'', St_head 2], tproduced := ''ab''\<rparr>"
  have "may_drain False (pbuf ?p) 2" by (simp add: may_drain_def less_Suc_eq numeral_2_eq_2)
  from tso_reach.step [OF reach_pending tso_step.p_drain [OF this]]
  have "tso_reach False (?s C_idle [])" by (simp add: tso_start_def)
  from tso_reach.step [OF this tso_step.c_check] have "tso_reach False (?s C_checked [])" by (simp add: cons_tail_def area)
  from tso_reach.step [OF this tso_step.c_snap] have "tso_reach False (?s (C_copying 0 2 []) [])" by (simp add: cons_tail_def area)
  from tso_reach.step [OF this tso_step.c_copy] have "tso_reach False (?s (C_copying 0 2 [CHR 0x00]) [])" by (simp add: area len)
  from tso_reach.step [OF this tso_step.c_copy] have "tso_reach False (?s (C_copying 0 2 [CHR 0x00, CHR 0x00]) [])" by (simp add: area len)
  from tso_reach.step [OF this tso_step.c_store]
  have "tso_reach False ((?s C_idle [CHR 0x00, CHR 0x00])\<lparr>cbuf := [2]\<rparr>)" by (simp add: area len)
  then show ?thesis by (intro exI conjI) (assumption, simp_all add: cons_tail_def)
qed

text \<open>
  C18: on a machine with total store order, where the stores of each side become visible late but in order and every
  byte is copied on its own, the mapped ring is still a stream: the program has written a prefix of the bytes the
  producer accepted, the rest is what the ring holds once all pending stores have arrived, and no pending store lies
  outside the data area. On a machine that lets the store to \<open>head\<close> pass those to the data area this fails, since the code has no
  barrier between them: the program can write bytes that were never produced.
\<close>

theorem tso_stream:
  assumes "tso_reach True s"
  shows "tproduced s = tconsumed s @ blk_list (drained s) \<and> blk_inv (drained s)
     \<and> (\<forall>a b. St_data a b \<in> set (pbuf s) \<longrightarrow> a < length (bdata (tmem s)))
     \<and> (\<exists>t. tso_reach False t \<and> tproduced t = ''ab'' \<and> tconsumed t = [CHR 0x00, CHR 0x00])"
proof -
  from assms obtain N T C H where at: "tso_at N T C H s" using tso_reach_inv [OF assms] by (auto simp: tso_inv_def)
  have "\<forall>a b. St_data a b \<in> set (pbuf s) \<longrightarrow> a < length (bdata (tmem s))"
    using at pending_ok_cells tso_at_facts(2) [OF at] by (fastforce simp: tso_at_def)
  moreover have "tproduced s = tconsumed s @ drop C (tproduced s)"
    using at by (metis append_take_drop_id tso_at_def)
  moreover have "\<exists>t. tso_reach False t \<and> tproduced t = ''ab'' \<and> tconsumed t = [CHR 0x00, CHR 0x00]"
    using pso_tears_stream by blast
  ultimately show ?thesis using drained_stream [OF at] by simp
qed

theorem tso_stream_witness:
  "blk_list (drained (tso_start\<lparr>pbuf := [St_data 0 CHR ''a'', St_data 1 CHR ''b'', St_head 2], tproduced := ''ab''\<rparr>)) = ''ab''"
  using tso_stream [OF reach_pending] by (auto simp: tso_start_def)

end
