(* ===== verification/Refdev_Remove.thy ===== *)
theory Refdev_Remove
  imports Refdev
begin

text \<open>
  Unbinding \<open>practice/mydevice/mydevice.c\<close> while files are open. \<open>mydevremove\<close> sleeps until the reference
  count is zero and then takes the device down; its steps are interleaved here with the critical sections of any number of opens, writes and
  releases. A release goes on using the device after it has dropped its reference (it wakes the
  sleeper and logs), so this tail is a step of its own. The memory of the device goes with the return of \<open>mydevremove\<close>; the
  module itself cannot be unloaded meanwhile (\<open>fops.owner\<close>).
\<close>

section \<open>Removal as steps\<close>

text \<open>\<open>Passed\<close>: the wait returned. \<open>Node_gone\<close>: after \<open>device_destroy\<close>. \<open>Freed\<close>: after \<open>cdev_del\<close> and \<open>ida_free\<close>.\<close>

datatype rm_phase = Bound | Waiting | Asleep | Passed | Node_gone | Freed

text \<open>What can have gone wrong: a signal ended the wait, a file was between the two sections of its open or in the tail of its release
  when the wait returned, a file was opened after that.\<close>

datatype hazard = Signalled | Mid_open | Mid_release | Late_open

record rmsys =
  rm_ref :: refsys
  rm_tail :: "(nat \<times> int) list"
  rm_phase :: rm_phase
  rm_hazards :: "hazard set"

text \<open>The second section of a release, and its tail with the result of \<open>relref\<close>; together they are \<open>drop_section\<close>.\<close>

definition drop_ref :: "refsys \<Rightarrow> (nat \<times> phase \<times> mycontext) list \<Rightarrow> int \<times> refsys" where
  "drop_ref r fs = (case relref (rdev r) of (ref, d) \<Rightarrow> (ref, \<lparr>rdev = d, rfiles = fs\<rparr>))"

definition release_tail :: "int \<Rightarrow> refsys \<Rightarrow> refsys" where
  "release_tail ref r = (if ref = 0 then r\<lparr>rdev := (rdev r)\<lparr>md_wakes := Suc (md_wakes (rdev r))\<rparr>\<rparr> else r)"

definition woken :: "int \<Rightarrow> rm_phase \<Rightarrow> rm_phase" where
  "woken ref p = (if ref = 0 \<and> p = Asleep then Waiting else p)"

definition pass_hazards :: "rmsys \<Rightarrow> hazard set" where
  "pass_hazards s = (if \<exists>f \<in> set (rfiles (rm_ref s)). fst (snd f) = Opening then {Mid_open} else {})
     \<union> (if rm_tail s = [] then {} else {Mid_release})"

definition open_hazards :: "rm_phase \<Rightarrow> hazard set" where
  "open_hazards p = (if p \<in> {Passed, Node_gone} then {Late_open} else {})"

inductive rm_step :: "rmsys \<Rightarrow> rmsys \<Rightarrow> bool" where
  file_op: "rm_phase s \<noteq> Freed \<Longrightarrow> ref_step (rm_ref s) r \<Longrightarrow> map fst (rfiles r) = map fst (rfiles (rm_ref s)) \<Longrightarrow>
    rm_step s (s\<lparr>rm_ref := r\<rparr>)"
| file_open: "rm_phase s \<noteq> Freed \<Longrightarrow> ref_step (rm_ref s) r \<Longrightarrow> map fst (rfiles r) = f # map fst (rfiles (rm_ref s)) \<Longrightarrow>
    rm_step s (s\<lparr>rm_ref := r, rm_hazards := rm_hazards s \<union> open_hazards (rm_phase s)\<rparr>)"
| file_drop: "rm_phase s \<noteq> Freed \<Longrightarrow> rfiles (rm_ref s) = xs @ (f, Closing, ctx) # ys \<Longrightarrow>
    drop_ref (rm_ref s) (xs @ ys) = (ref, r) \<Longrightarrow>
    rm_step s (s\<lparr>rm_ref := r, rm_tail := (f, ref) # rm_tail s\<rparr>)"
| file_done: "rm_phase s \<noteq> Freed \<Longrightarrow> rm_tail s = xs @ (f, ref) # ys \<Longrightarrow>
    rm_step s (s\<lparr>rm_ref := release_tail ref (rm_ref s), rm_tail := xs @ ys, rm_phase := woken ref (rm_phase s)\<rparr>)"
| unbind: "rm_phase s = Bound \<Longrightarrow> rm_step s (s\<lparr>rm_phase := Waiting\<rparr>)"
| sleep: "rm_phase s = Waiting \<Longrightarrow> getref (rdev (rm_ref s)) \<noteq> 0 \<Longrightarrow> rm_step s (s\<lparr>rm_phase := Asleep\<rparr>)"
| pass: "rm_phase s = Waiting \<Longrightarrow> getref (rdev (rm_ref s)) = 0 \<Longrightarrow>
    rm_step s (s\<lparr>rm_phase := Passed, rm_hazards := pass_hazards s\<rparr>)"
| signal: "rm_phase s = Asleep \<Longrightarrow> rm_step s (s\<lparr>rm_phase := Passed, rm_hazards := {Signalled}\<rparr>)"
| destroy: "rm_phase s = Passed \<Longrightarrow> rm_step s (s\<lparr>rm_phase := Node_gone\<rparr>)"
| del: "rm_phase s = Node_gone \<Longrightarrow> rm_step s (s\<lparr>rm_phase := Freed\<rparr>)"

definition rm_start :: rmsys where
  "rm_start = \<lparr>rm_ref = \<lparr>rdev = \<lparr>md_reference = 0, md_config = 0, md_config_opened = False, md_wakes = 0\<rparr>, rfiles = []\<rparr>,
     rm_tail = [], rm_phase = Bound, rm_hazards = {}\<rparr>"

inductive rm_reach :: "rmsys \<Rightarrow> bool" where
  start: "rm_reach rm_start"
| step: "rm_reach s \<Longrightarrow> rm_step s t \<Longrightarrow> rm_reach t"

section \<open>Invariant\<close>

definition removing :: "rm_phase \<Rightarrow> bool" where
  "removing p \<longleftrightarrow> p \<in> {Passed, Node_gone, Freed}"

definition rm_inv :: "rmsys \<Rightarrow> bool" where
  "rm_inv s \<longleftrightarrow> ref_inv (rm_ref s)
     \<and> (rm_phase s = Asleep \<longrightarrow> getref (rdev (rm_ref s)) \<noteq> 0 \<or> 0 \<in> snd ` set (rm_tail s))
     \<and> (removing (rm_phase s) \<and> rm_hazards s = {} \<longrightarrow> rfiles (rm_ref s) = [] \<and> rm_tail s = [])
     \<and> (\<not> removing (rm_phase s) \<longrightarrow> rm_hazards s = {})"

text \<open>The two steps of a release make its section.\<close>

lemma drop_ref_release:
  "ref_step \<lparr>rdev = rdev r, rfiles = xs @ (f, Closing, ctx) # ys\<rparr>
     (case drop_ref r (xs @ ys) of (ref, r') \<Rightarrow> release_tail ref r')"
  using ref_step.release_ref [of "\<lparr>rdev = rdev r, rfiles = xs @ (f, Closing, ctx) # ys\<rparr>" xs f ctx ys]
  by (auto simp: drop_ref_def release_tail_def drop_section_def split: prod.splits if_splits)

lemma ref_inv_tail [simp]: "ref_inv (release_tail ref r) = ref_inv r"
  by (simp add: release_tail_def ref_inv_def)

lemma release_tail_simps [simp]:
  "rfiles (release_tail ref r) = rfiles r" "getref (rdev (release_tail ref r)) = getref (rdev r)"
  by (simp_all add: release_tail_def getref_def)

lemma no_refs_opening:
  "ref_inv r \<Longrightarrow> getref (rdev r) = 0 \<longleftrightarrow> (\<forall>f \<in> set (rfiles r). fst (snd f) = Opening)"
  by (auto simp: ref_inv_def getref_def holds_ref_def filter_empty_conv)

lemma ref_inv_drop:
  assumes "ref_inv r" "rfiles r = xs @ (f, Closing, ctx) # ys" "drop_ref r (xs @ ys) = (ref, r')"
  shows "ref_inv r' \<and> rfiles r' = xs @ ys \<and> getref (rdev r') = ref"
proof -
  have "\<lparr>rdev = rdev r, rfiles = xs @ (f, Closing, ctx) # ys\<rparr> = r" using assms(2) by (cases r) simp
  with ref_inv_step [OF drop_ref_release [of r xs f ctx ys]] assms(1,3) have "ref_inv r'" by simp
  moreover have "getref (rdev r) \<noteq> 0" using no_refs_opening [OF assms(1)] assms(2) by auto
  then have "relref (rdev r) = (s32 (md_reference (rdev r) - 1), (rdev r)\<lparr>md_reference := s32 (md_reference (rdev r) - 1)\<rparr>)"
    by (simp add: relref_def getref_def Let_def)
  with assms(3) have "rfiles r' = xs @ ys" "getref (rdev r') = ref" by (auto simp: drop_ref_def getref_def)
  ultimately show ?thesis by simp
qed

lemma same_files:
  assumes "map fst (rfiles r) = map fst (rfiles r')"
  shows "rfiles r = [] \<longleftrightarrow> rfiles r' = []"
  using assms by (metis map_is_Nil_conv)

text \<open>A step that keeps the files keeps a positive count.\<close>

lemma file_op_count:
  assumes "ref_step r r'" "map fst (rfiles r') = map fst (rfiles r)" "ref_inv r"
  shows "getref (rdev r) \<le> getref (rdev r')"
  using assms
proof (induction rule: ref_step.induct)
  case (open_ref s xs f ctx ys)
  then have "ref_inv (s\<lparr>rdev := addref (rdev s), rfiles := xs @ (f, Open, ctx) # ys\<rparr>)"
    using ref_step.open_ref ref_inv_step by blast
  with open_ref show ?case by (auto simp: ref_inv_def getref_def holds_ref_def)
qed (auto simp: getref_def open_section_def mydevwrite_def release_section_def Let_def split: if_splits option.splits)

lemma file_open_count:
  assumes "ref_step r r'" "map fst (rfiles r') = f # map fst (rfiles r)"
  shows "getref (rdev r') = getref (rdev r)"
  using assms
  by (induction rule: ref_step.induct)
    (auto simp: getref_def open_section_def Let_def dest: arg_cong [where f = length] split: if_splits)

lemma ref_count_nonneg: "ref_inv r \<Longrightarrow> 0 \<le> getref (rdev r)"
  by (simp add: ref_inv_def getref_def)

lemma rm_inv_step: "rm_step s t \<Longrightarrow> rm_inv s \<Longrightarrow> rm_inv t"
proof (induction rule: rm_step.induct)
  case (file_op s r)
  then have inv: "ref_inv (rm_ref s)" "ref_inv r" using ref_inv_step by (auto simp: rm_inv_def)
  moreover have "getref (rdev (rm_ref s)) \<le> getref (rdev r)" using file_op(2,3) inv(1) by (rule file_op_count)
  ultimately show ?case
    using file_op(4) same_files [OF file_op(3)] ref_count_nonneg [OF inv(1)] by (auto simp: rm_inv_def)
next
  case (file_open s r f)
  then have "ref_inv r" using ref_inv_step by (auto simp: rm_inv_def)
  with file_open(1,4) file_open_count [OF file_open(2,3)] show ?case
    by (auto simp: rm_inv_def open_hazards_def removing_def)
next
  case (file_drop s xs f ctx ys ref r)
  then have "ref_inv r \<and> rfiles r = xs @ ys \<and> getref (rdev r) = ref"
    using ref_inv_drop [of "rm_ref s" xs f ctx ys ref r] by (simp add: rm_inv_def)
  with file_drop(2,4) show ?case by (auto simp: rm_inv_def)
next
  case (file_done s xs f ref ys)
  then show ?case by (auto simp: rm_inv_def woken_def removing_def)
next
  case (pass s)
  then have "\<forall>f \<in> set (rfiles (rm_ref s)). fst (snd f) = Opening"
    using no_refs_opening [of "rm_ref s"] by (simp add: rm_inv_def)
  then have "pass_hazards s = {} \<longrightarrow> rfiles (rm_ref s) = [] \<and> rm_tail s = []"
    by (cases "rfiles (rm_ref s)") (auto simp: pass_hazards_def split: if_splits)
  with pass show ?case by (simp add: rm_inv_def removing_def)
qed (auto simp: rm_inv_def removing_def)

lemma rm_reach_inv: "rm_reach s \<Longrightarrow> rm_inv s"
proof (induction rule: rm_reach.induct)
  case start
  then show ?case by (simp add: rm_inv_def rm_start_def ref_inv_def removing_def)
next
  case (step s t)
  show ?case using step.hyps(2) step.IH by (rule rm_inv_step)
qed

section \<open>Runs that free the device too early\<close>

text \<open>Runs with one file, opened for reading.\<close>

definition one_ref :: "int \<Rightarrow> (nat \<times> phase \<times> mycontext) list \<Rightarrow> refsys" where
  "one_ref n fs = \<lparr>rdev = \<lparr>md_reference = n, md_config = 0, md_config_opened = False, md_wakes = 0\<rparr>, rfiles = fs\<rparr>"

abbreviation reader :: "phase \<Rightarrow> nat \<times> phase \<times> mycontext" where
  "reader p \<equiv> (3, p, \<lparr>mc_is_config = False, mc_privinfo = 0\<rparr>)"

lemma reader_steps:
  "ref_step (one_ref 0 []) (one_ref 0 [reader Opening])"
  "ref_step (one_ref 0 [reader Opening]) (one_ref 1 [reader Open])"
  "ref_step (one_ref 1 [reader Open]) (one_ref 1 [reader Closing])"
  using ref_step.open_config [of False "one_ref 0 []" "\<lparr>mc_is_config = False, mc_privinfo = 0\<rparr>" "rdev (one_ref 0 [])" 3]
    ref_step.open_ref [of "one_ref 0 [reader Opening]" "[]" 3 "\<lparr>mc_is_config = False, mc_privinfo = 0\<rparr>" "[]"]
    ref_step.release_config [of "one_ref 1 [reader Open]" "[]" 3 "\<lparr>mc_is_config = False, mc_privinfo = 0\<rparr>" "[]"]
  by (simp_all add: one_ref_def open_section_def addref_def release_section_def)

lemma rm_runs:
  assumes "rm_reach s"
  shows "rm_phase s \<noteq> Freed \<Longrightarrow> ref_step (rm_ref s) r \<Longrightarrow> map fst (rfiles r) = map fst (rfiles (rm_ref s)) \<Longrightarrow> rm_reach (s\<lparr>rm_ref := r\<rparr>)"
    and "rm_phase s = Bound \<Longrightarrow> rm_reach (s\<lparr>rm_phase := Waiting\<rparr>)"
    and "rm_phase s = Waiting \<Longrightarrow> getref (rdev (rm_ref s)) = 0 \<Longrightarrow> rm_reach (s\<lparr>rm_phase := Passed, rm_hazards := pass_hazards s\<rparr>)"
    and "rm_phase s = Waiting \<Longrightarrow> getref (rdev (rm_ref s)) \<noteq> 0 \<Longrightarrow> rm_reach (s\<lparr>rm_phase := Passed, rm_hazards := {Signalled}\<rparr>)"
    and "rm_phase s = Passed \<Longrightarrow> rm_reach (s\<lparr>rm_phase := Freed\<rparr>)"
proof -
  show "rm_reach (s\<lparr>rm_phase := Passed, rm_hazards := {Signalled}\<rparr>)" if "rm_phase s = Waiting" "getref (rdev (rm_ref s)) \<noteq> 0"
    using rm_reach.step [OF rm_reach.step [OF assms rm_step.sleep [OF that]] rm_step.signal] by simp
  show "rm_reach (s\<lparr>rm_phase := Freed\<rparr>)" if "rm_phase s = Passed"
    using rm_reach.step [OF rm_reach.step [OF assms rm_step.destroy [OF that]] rm_step.del] by simp
qed (use assms in \<open>auto intro: rm_reach.step rm_step.intros\<close>)

lemma reach_reader:
  "rm_reach (rm_start\<lparr>rm_ref := one_ref 0 [reader Opening]\<rparr>)"
  "rm_reach (rm_start\<lparr>rm_ref := one_ref 1 [reader Open]\<rparr>)"
  "rm_reach (rm_start\<lparr>rm_tail := [(3, 0)]\<rparr>)"
proof -
  have s0: "rm_ref rm_start = one_ref 0 []" by (simp add: rm_start_def one_ref_def)
  show a: "rm_reach (rm_start\<lparr>rm_ref := one_ref 0 [reader Opening]\<rparr>)"
    using rm_reach.step [OF rm_reach.start rm_step.file_open [of rm_start "one_ref 0 [reader Opening]" 3]] reader_steps(1)
    by (simp add: s0) (simp add: rm_start_def one_ref_def open_hazards_def)
  show b: "rm_reach (rm_start\<lparr>rm_ref := one_ref 1 [reader Open]\<rparr>)"
    using rm_runs(1) [OF a, of "one_ref 1 [reader Open]"] reader_steps(2) by (simp add: rm_start_def one_ref_def)
  have "rm_reach (rm_start\<lparr>rm_ref := one_ref 1 [reader Closing]\<rparr>)"
    using rm_runs(1) [OF b, of "one_ref 1 [reader Closing]"] reader_steps(3) by (simp add: rm_start_def one_ref_def)
  from rm_reach.step [OF this rm_step.file_drop [of _ "[]" 3 "\<lparr>mc_is_config = False, mc_privinfo = 0\<rparr>" "[]" 0 "one_ref 0 []"]]
  show "rm_reach (rm_start\<lparr>rm_tail := [(3, 0)]\<rparr>)"
    by (simp add: rm_start_def one_ref_def drop_ref_def relref_def)
qed

text \<open>
  None of the four conditions is enforced. For each of them there is a run in which it alone fails and the device is
  freed while a file is open on it or still inside its release.
\<close>

lemma removal_hazards:
  "\<exists>s. rm_reach s \<and> rm_phase s = Freed \<and> rm_hazards s = {h} \<and> (rfiles (rm_ref s) \<noteq> [] \<or> rm_tail s \<noteq> [])"
proof -
  have take_down: "\<exists>t. rm_reach t \<and> rm_phase t = Freed \<and> rm_hazards t = {h} \<and> (rfiles (rm_ref t) \<noteq> [] \<or> rm_tail t \<noteq> [])"
    if "rm_reach s" "rm_phase s = Passed" "rm_hazards s = {h}" "rfiles (rm_ref s) \<noteq> [] \<or> rm_tail s \<noteq> []" for s
    using rm_runs(5) [OF that(1,2)] that by (intro exI [of _ "s\<lparr>rm_phase := Freed\<rparr>"]) simp
  show ?thesis
  proof (cases h)
    case Signalled
    from rm_runs(2) [OF reach_reader(2)] have "rm_reach (rm_start\<lparr>rm_ref := one_ref 1 [reader Open], rm_phase := Waiting\<rparr>)"
      by (simp add: rm_start_def)
    from rm_runs(4) [OF this] show ?thesis
      using Signalled by (intro take_down) (auto simp: rm_start_def one_ref_def getref_def)
  next
    case Mid_open
    from rm_runs(2) [OF reach_reader(1)] have "rm_reach (rm_start\<lparr>rm_ref := one_ref 0 [reader Opening], rm_phase := Waiting\<rparr>)"
      by (simp add: rm_start_def)
    from rm_runs(3) [OF this] show ?thesis
      using Mid_open by (intro take_down) (auto simp: rm_start_def one_ref_def getref_def pass_hazards_def)
  next
    case Mid_release
    from rm_runs(2) [OF reach_reader(3)] have "rm_reach (rm_start\<lparr>rm_tail := [(3, 0)], rm_phase := Waiting\<rparr>)"
      by (simp add: rm_start_def)
    from rm_runs(3) [OF this] show ?thesis
      using Mid_release by (intro take_down) (auto simp: rm_start_def getref_def pass_hazards_def)
  next
    case Late_open
    from rm_runs(2) [OF rm_reach.start] have "rm_reach (rm_start\<lparr>rm_phase := Waiting\<rparr>)" by (simp add: rm_start_def)
    from rm_runs(3) [OF this] have p: "rm_reach (rm_start\<lparr>rm_phase := Passed\<rparr>)"
      by (simp add: rm_start_def getref_def pass_hazards_def)
    have "ref_step (rm_ref rm_start) (one_ref 0 [reader Opening])"
      using reader_steps(1) by (simp add: rm_start_def one_ref_def)
    then show ?thesis
      using rm_reach.step [OF p rm_step.file_open [of _ "one_ref 0 [reader Opening]" 3]] Late_open
      by (intro take_down) (auto simp: rm_start_def one_ref_def open_hazards_def)
  qed
qed

section \<open>Guarantees\<close>

text \<open>
  C23: over every interleaving of \<open>mydevremove\<close> with opens, writes and releases, the sleeper is never left alone (while it sleeps
  a reference is held or the wake-up of the last release is still to come), and when the device is freed no file
  is open on it or still inside its release, provided that no signal ended the wait, that no file was between
  the two sections of its open or in the tail of its release when the wait returned, and that none was opened after it. The code enforces none of these: for each of them there is a run in which it
  alone fails and the device is freed under a file.
\<close>

theorem removal_waits:
  assumes "rm_reach s"
  shows "(rm_phase s = Asleep \<longrightarrow> (\<exists>f \<in> set (rfiles (rm_ref s)). holds_ref f) \<or> (\<exists>f. (f, 0) \<in> set (rm_tail s)))
    \<and> (rm_phase s = Freed \<and> rm_hazards s = {} \<longrightarrow> rfiles (rm_ref s) = [] \<and> rm_tail s = [])
    \<and> (\<forall>h. \<exists>t. rm_reach t \<and> rm_phase t = Freed \<and> rm_hazards t = {h} \<and> (rfiles (rm_ref t) \<noteq> [] \<or> rm_tail t \<noteq> []))"
proof -
  from assms have inv: "rm_inv s" by (rule rm_reach_inv)
  then have "getref (rdev (rm_ref s)) \<noteq> 0 \<longrightarrow> (\<exists>f \<in> set (rfiles (rm_ref s)). holds_ref f)"
    using no_refs_opening [of "rm_ref s"] by (auto simp: rm_inv_def holds_ref_def)
  then have "rm_phase s = Asleep \<longrightarrow> (\<exists>f \<in> set (rfiles (rm_ref s)). holds_ref f) \<or> (\<exists>f. (f, 0) \<in> set (rm_tail s))"
    using inv by (force simp: rm_inv_def)
  with inv removal_hazards show ?thesis by (simp add: rm_inv_def removing_def)
qed

text \<open>Bound, opened, closed and unbound: the device goes with no file on it.\<close>

theorem removal_waits_witness:
  "rm_reach (rm_start\<lparr>rm_phase := Freed\<rparr>) \<and> rfiles (rm_ref (rm_start\<lparr>rm_phase := Freed\<rparr>)) = []
   \<and> (\<exists>f \<in> set (rfiles (one_ref 1 [reader Open])). holds_ref f)"
proof -
  have w: "rm_reach (rm_start\<lparr>rm_phase := Waiting\<rparr>)"
    using rm_runs(2) [OF rm_reach.start] by (simp add: rm_start_def)
  from rm_runs(3) [OF w] have "rm_reach (rm_start\<lparr>rm_phase := Passed\<rparr>)"
    by (simp add: rm_start_def getref_def pass_hazards_def)
  from rm_runs(5) [OF this] have f: "rm_reach (rm_start\<lparr>rm_phase := Freed\<rparr>)" by simp
  have "rm_reach (rm_start\<lparr>rm_ref := one_ref 1 [reader Open], rm_phase := Waiting\<rparr>)"
    using rm_runs(2) [OF reach_reader(2)] by (simp add: rm_start_def)
  from rm_reach.step [OF this rm_step.sleep]
  have a: "rm_reach (rm_start\<lparr>rm_ref := one_ref 1 [reader Open], rm_phase := Asleep\<rparr>)"
    by (simp add: rm_start_def one_ref_def getref_def)
  from removal_waits [OF a] removal_waits [OF f] f show ?thesis by (simp add: rm_start_def)
qed

end
