(* ===== verification/Driver_Tables.thy ===== *)
theory Driver_Tables
  imports Open_Files Chardev Sensor_Tool Alarm
begin

text \<open>
  What the drivers register: their \<open>file_operations\<close>, the names and compatible strings they claim on the platform bus, and the
  devices their test builds create. On top of the tables: which modules keep their code loaded while a file
  on them is open, over every interleaving of opens, closes and an unload.
\<close>

section \<open>File operations\<close>

text \<open>An absent member is NULL; \<open>owner\<close> says whether it is \<open>THIS_MODULE\<close>.\<close>

record file_operations =
  fo_owner :: bool
  fo_open :: "string option"
  fo_release :: "string option"
  fo_read :: "string option"
  fo_write :: "string option"
  fo_ioctl :: "string option"
  fo_poll :: "string option"
  fo_mmap :: "string option"

definition no_ops :: file_operations where
  "no_ops = \<lparr>fo_owner = False, fo_open = None, fo_release = None, fo_read = None, fo_write = None, fo_ioctl = None,
     fo_poll = None, fo_mmap = None\<rparr>"

definition myfakebell_fops :: file_operations where
  "myfakebell_fops = no_ops\<lparr>fo_open := Some ''myfbopen'', fo_release := Some ''myfbrelease'', fo_read := Some ''myfbread'',
     fo_poll := Some ''myfbpoll'', fo_ioctl := Some ''myfbioctl'', fo_owner := True\<rparr>"

definition mysensor_fops :: file_operations where
  "mysensor_fops = no_ops\<lparr>fo_open := Some ''mysensor_open'', fo_release := Some ''mysensor_release'',
     fo_read := Some ''mysensor_read'', fo_poll := Some ''mysensor_poll''\<rparr>"

definition myblkdev_fops :: file_operations where
  "myblkdev_fops = no_ops\<lparr>fo_open := Some ''myblkopen'', fo_release := Some ''myblkrelease'', fo_mmap := Some ''myblkmmap'',
     fo_poll := Some ''myblkpoll'', fo_owner := True\<rparr>"

definition myconfig_fops :: file_operations where
  "myconfig_fops = no_ops\<lparr>fo_owner := True, fo_open := Some ''configopen'', fo_release := Some ''configrelease'',
     fo_read := Some ''configread'', fo_write := Some ''configwrite''\<rparr>"

definition mydevice_fops :: file_operations where
  "mydevice_fops = no_ops\<lparr>fo_open := Some ''mydevopen'', fo_read := Some ''mydevread'', fo_write := Some ''mydevwrite'',
     fo_release := Some ''mydevrelease'', fo_owner := True\<rparr>"

definition mysensordrv_fops :: file_operations where
  "mysensordrv_fops = no_ops\<lparr>fo_open := Some ''device_open'', fo_release := Some ''device_close'', fo_read := Some ''device_read'',
     fo_ioctl := Some ''device_unlocked_ioctl'', fo_poll := Some ''device_poll''\<rparr>"

definition myalarm_fops :: file_operations where
  "myalarm_fops = no_ops\<lparr>fo_open := Some ''malm_open'', fo_release := Some ''malm_close'', fo_poll := Some ''malm_poll'',
     fo_read := Some ''malm_read'', fo_write := Some ''malm_write''\<rparr>"

definition rdonly_fops :: file_operations where
  "rdonly_fops = no_ops\<lparr>fo_read := Some ''device_read'', fo_write := Some ''device_write'', fo_open := Some ''device_open'',
     fo_release := Some ''device_release''\<rparr>"

definition charrw_fops :: file_operations where
  "charrw_fops = no_ops\<lparr>fo_owner := True, fo_read := Some ''mycdev_read'', fo_write := Some ''mycdev_write'',
     fo_open := Some ''mycdev_open'', fo_release := Some ''mycdev_release''\<rparr>"

definition charioctl_fops :: file_operations where
  "charioctl_fops = no_ops\<lparr>fo_read := Some ''device_read'', fo_write := Some ''device_write'', fo_ioctl := Some ''device_ioctl'',
     fo_open := Some ''device_open'', fo_release := Some ''device_release''\<rparr>"

definition panicb_fops :: file_operations where
  "panicb_fops = no_ops\<lparr>fo_owner := True, fo_open := Some ''panicb_open'', fo_release := Some ''panicb_release'',
     fo_ioctl := Some ''panicb_ioctl''\<rparr>"

text \<open>The open and release functions of \<open>charrw.c\<close>, which has one buffer for all files.\<close>

definition mycdev_open :: int where "mycdev_open = 0"
definition mycdev_release :: int where "mycdev_release = 0"

section \<open>What is claimed on the platform bus\<close>

record platform_driver =
  pd_probe :: string
  pd_remove :: string
  pd_name :: string
  pd_ids :: "string list"
  pd_compatible :: "string list"

definition myfbdrv :: platform_driver where
  "myfbdrv = \<lparr>pd_probe = ''myfbprobe'', pd_remove = ''myfbremove'', pd_name = ''myfakebelldriver'', pd_ids = [], pd_compatible = [''zxy,fakebell'']\<rparr>"
definition mysensordrv :: platform_driver where
  "mysensordrv = \<lparr>pd_probe = ''mysensor_probe'', pd_remove = ''mysensor_remove'', pd_name = ''mysensor_driver'', pd_ids = [], pd_compatible = [''zxy,fakebell'']\<rparr>"
definition mybell_driver :: platform_driver where
  "mybell_driver = \<lparr>pd_probe = ''mybell_probe'', pd_remove = ''mybell_remove'', pd_name = ''mybell_driver'', pd_ids = [], pd_compatible = [''zxy,fakebell'']\<rparr>"
definition myalarmdrv :: platform_driver where
  "myalarmdrv = \<lparr>pd_probe = ''alarm_probe'', pd_remove = ''alarm_remove'', pd_name = ''my_alarm_driver'', pd_ids = [''fakebell@1f000000''], pd_compatible = [''zxy,fakebell'']\<rparr>"
definition myconfigdrv :: platform_driver where
  "myconfigdrv = \<lparr>pd_probe = ''myconfigprobe'', pd_remove = ''myconfigremove'', pd_name = ''myconfig'', pd_ids = [''testdev''], pd_compatible = [''zxy,fakebell'']\<rparr>"
definition myblkdrv :: platform_driver where
  "myblkdrv = \<lparr>pd_probe = ''myblkprobe'', pd_remove = ''myblkremove'', pd_name = ''myblkdrv'', pd_ids = [''testdev''], pd_compatible = []\<rparr>"
definition mydevdrv :: platform_driver where
  "mydevdrv = \<lparr>pd_probe = ''mydevprobe'', pd_remove = ''mydevremove'', pd_name = ''mydevdrv'', pd_ids = [''testdev''], pd_compatible = []\<rparr>"
definition mysensor_driver :: platform_driver where
  "mysensor_driver = \<lparr>pd_probe = ''myssdrv_probe'', pd_remove = ''myssdrv_remove'', pd_name = ''mysensordrv'', pd_ids = [''zxyfakesensor''], pd_compatible = [''zxy,fakesensor'']\<rparr>"

definition platform_drivers :: "platform_driver list" where
  "platform_drivers = [myfbdrv, mysensordrv, mybell_driver, myalarmdrv, myconfigdrv, myblkdrv, mydevdrv, mysensor_driver]"

text \<open>
  The devices that test builds create: name and instance. \<open>platform_device_alloc\<close> and \<open>platform_device_register_simple\<close>
  give the device the name \<open>name.instance\<close>, which must be free.
\<close>

definition test_devices :: "(platform_driver \<times> (string \<times> nat) list) list" where
  "test_devices = [(myblkdrv, [(''testdev'', 0)]), (myconfigdrv, [(''testdev'', 0), (''testdev'', 1)]),
     (mydevdrv, [(''testdev'', 0), (''testdev'', 2)]), (mysensor_driver, [(''zxyfakesensor'', 0), (''zxyfakesensor'', 1)]),
     (myalarmdrv, [(''fakebell@1f000000'', 0)])]"

definition claimants :: "string \<Rightarrow> string list" where
  "claimants k = map pd_name (filter (\<lambda>d. k \<in> set (pd_ids d) \<or> k \<in> set (pd_compatible d)) platform_drivers)"

text \<open>
  Every test device is claimed by its own driver, but not by it alone: three drivers claim \<open>testdev\<close> (and make a
  device of the same name) and five claim the bell.
\<close>

lemma test_devices_claimed:
  "\<forall>(d, devs) \<in> set test_devices. \<forall>(n, i) \<in> set devs. pd_name d \<in> set (claimants n)"
  by (simp add: test_devices_def claimants_def platform_drivers_def myfbdrv_def mysensordrv_def mybell_driver_def myalarmdrv_def
      myconfigdrv_def myblkdrv_def mydevdrv_def mysensor_driver_def)

lemma contended:
  "claimants ''zxy,fakebell'' = [''myfakebelldriver'', ''mysensor_driver'', ''mybell_driver'', ''my_alarm_driver'', ''myconfig'']"
  "claimants ''testdev'' = [''myconfig'', ''myblkdrv'', ''mydevdrv'']"
  by (simp_all add: claimants_def platform_drivers_def myfbdrv_def mysensordrv_def mybell_driver_def myalarmdrv_def
      myconfigdrv_def myblkdrv_def mydevdrv_def mysensor_driver_def)

section \<open>The test builds\<close>

text \<open>
  \<open>mysensordrv.c\<close> with \<open>DRIVER_TEST\<close>: \<open>p1\<close> and \<open>p2\<close> are what registering the devices returned, which is not checked;
  unregistering ignores NULL and error pointers. Registering a device probes it, the driver being there already, and unregistering it
  removes it first if it is bound.
\<close>

definition valid_ptr :: "int \<Rightarrow> bool" where
  "valid_ptr p \<longleftrightarrow> p \<noteq> 0 \<and> \<not> IS_ERR p"

definition pdev_register :: "int \<Rightarrow> string \<Rightarrow> kcall list \<Rightarrow> kcall list" where
  "pdev_register p name probe = (if valid_ptr p then Acq (Pdev name) # probe else [])"

definition pdev_unregister :: "int \<Rightarrow> string \<Rightarrow> kcall list \<Rightarrow> kcall list" where
  "pdev_unregister p name rm = (if valid_ptr p then rm @ [Rel (Pdev name)] else [])"

definition test_init :: "int \<Rightarrow> kcall list \<Rightarrow> int \<Rightarrow> kcall list \<Rightarrow> kcall list" where
  "test_init p1 probe1 p2 probe2 =
    pdev_register p1 ''zxyfakesensor.0'' probe1 @ pdev_register p2 ''zxyfakesensor.1'' probe2"

definition test_exit :: "int \<Rightarrow> kcall list \<Rightarrow> int \<Rightarrow> kcall list \<Rightarrow> kcall list" where
  "test_exit p1 rm1 p2 rm2 =
    pdev_unregister p1 ''zxyfakesensor.0'' rm1 @ pdev_unregister p2 ''zxyfakesensor.1'' rm2"

text \<open>The mode of the device nodes of the class (octal 666) and no name of their own.\<close>

definition mysscls_devnode :: "u32 option \<Rightarrow> u32 option \<times> string option" where
  "mysscls_devnode mode = (map_option (\<lambda>_. 438) mode, None)"

definition sensor_owned :: "mysensor_t option \<Rightarrow> resource multiset" where
  "sensor_owned d = (case d of None \<Rightarrow> {#}
     | Some d \<Rightarrow> {#Minor (sn_minor d), Mem ''sensor'', Cdev (sn_minor d), Device (sn_minor d)#})"

definition sensor_removed :: "mysensor_t option \<Rightarrow> kcall list" where
  "sensor_removed d = (case d of None \<Rightarrow> [] | Some d \<Rightarrow> fst (myssdrv_remove d \<lparr>avaliable_minor = [], devcount = 0\<rparr>))"

lemma sensor_probe_calls:
  assumes "myssdrv_probe e s = (ret, calls, s', d)" "Class \<in># h"
  shows "run_calls calls h = Some (sensor_owned d + h)"
  using assms by (auto simp: myssdrv_probe_def sensor_owned_def add_mset_commute split: prod.splits if_splits)

lemma sensor_remove_calls:
  "Class \<in># h \<Longrightarrow> run_calls (sensor_removed d) (sensor_owned d + h) = Some h"
  by (auto simp: sensor_removed_def sensor_owned_def myssdrv_remove_def split: option.splits)

definition test_owned :: "int \<Rightarrow> string \<Rightarrow> mysensor_t option \<Rightarrow> resource multiset" where
  "test_owned p n d = (if valid_ptr p then sensor_owned d + {#Pdev n#} else {#})"

lemma test_device_calls:
  assumes "Class \<in># h"
  shows "myssdrv_probe e s = (ret, calls, s', d) \<Longrightarrow> run_calls (pdev_register p n calls) h = Some (test_owned p n d + h)"
    and "run_calls (pdev_unregister p n (sensor_removed d)) (test_owned p n d + h) = Some h"
proof -
  have c: "Class \<in># add_mset (Pdev n) h" using assms by simp
  show "run_calls (pdev_register p n calls) h = Some (test_owned p n d + h)" if "myssdrv_probe e s = (ret, calls, s', d)"
    using sensor_probe_calls [OF that c] by (simp add: pdev_register_def test_owned_def)
  show "run_calls (pdev_unregister p n (sensor_removed d)) (test_owned p n d + h) = Some h"
    using sensor_remove_calls [OF c, of d] by (simp add: pdev_unregister_def test_owned_def run_calls_append)
qed

text \<open>
  The test build: loading, the two test devices with any outcomes of their registration and probe, and unloading are
  balanced. (With another device bound they are not: the class is destroyed before the driver is unregistered.)
\<close>

lemma sensor_test_session:
  assumes "fst (myssdrv_init i) = 0" "myssdrv_probe e1 s1 = (ret1, c1, s1', d1)" "myssdrv_probe e2 s2 = (ret2, c2, s2', d2)"
  shows "run_calls (snd (myssdrv_init i) @ test_init p1 c1 p2 c2 @ test_exit p1 (sensor_removed d1) p2 (sensor_removed d2)
      @ myssdrv_exit []) h = Some h"
proof -
  let ?b = "{#Region, Class, Driver#} + h"
  let ?t1 = "test_owned p1 ''zxyfakesensor.0'' d1" and ?t2 = "test_owned p2 ''zxyfakesensor.1'' d2"
  have "run_calls (snd (myssdrv_init i)) h = Some ?b"
    using assms(1) by (auto simp: myssdrv_init_def Let_def add_mset_commute split: if_splits)
  moreover have "run_calls (test_init p1 c1 p2 c2) ?b = Some (?t2 + (?t1 + ?b))"
    using test_device_calls(1) [OF _ assms(2), of ?b p1 "''zxyfakesensor.0''"]
      test_device_calls(1) [OF _ assms(3), of "?t1 + ?b" p2 "''zxyfakesensor.1''"]
    by (simp add: test_init_def run_calls_append)
  moreover have "run_calls (test_exit p1 (sensor_removed d1) p2 (sensor_removed d2)) (?t1 + (?t2 + ?b)) = Some ?b"
    using test_device_calls(2) [of "?t2 + ?b" p1 "''zxyfakesensor.0''" d1] test_device_calls(2) [of ?b p2 "''zxyfakesensor.1''" d2]
    by (simp add: test_exit_def run_calls_append)
  moreover have "run_calls (myssdrv_exit []) ?b = Some h" by (simp add: myssdrv_exit_def driver_unregister_def)
  ultimately show ?thesis by (simp add: run_calls_append add.left_commute)
qed

section \<open>The module under its open files\<close>

text \<open>
  A character driver for the module loader: its table and what its open and release functions do to the use count of the
  module; the argument of \<open>cm_get\<close> is whether a reference can be had. With \<open>owner\<close> set the kernel counts a file from before its open is called until after its release has
  returned. Two of them call \<open>try_module_get\<close> and \<open>module_put\<close> themselves. (The proc file is left out: removing a proc
  entry waits for its users.)
\<close>

record chr_module =
  cm_fops :: file_operations
  cm_get :: "bool \<Rightarrow> nat \<Rightarrow> nat"
  cm_put :: "nat \<Rightarrow> nat"

definition plain_module :: "file_operations \<Rightarrow> chr_module" where
  "plain_module fo = \<lparr>cm_fops = fo, cm_get = (\<lambda>got n. n), cm_put = (\<lambda>n. n)\<rparr>"

definition rdonly_module :: chr_module where
  "rdonly_module = \<lparr>cm_fops = rdonly_fops,
     cm_get = (\<lambda>got n. case ro_device_open got (ro_boot\<lparr>ro_users := n\<rparr>) of None \<Rightarrow> n | Some (ret, s) \<Rightarrow> ro_users s),
     cm_put = (\<lambda>n. ro_users (snd (ro_device_release (ro_boot\<lparr>ro_open := True, ro_users := n\<rparr>))))\<rparr>"

definition charioctl_module :: chr_module where
  "charioctl_module = \<lparr>cm_fops = charioctl_fops, cm_get = (\<lambda>got n. snd (ioctl_device_open got n)),
     cm_put = (\<lambda>n. snd (ioctl_device_release n))\<rparr>"

definition chr_modules :: "chr_module list" where
  "chr_modules = map plain_module [myfakebell_fops, mysensor_fops, myblkdev_fops, myconfig_fops, mydevice_fops, mysensordrv_fops,
     myalarm_fops, charrw_fops, panicb_fops] @ [rdonly_module, charioctl_module]"

text \<open>
  A module is unloaded in two steps, as the kernel documents it: with no references left it starts going, from when on no reference to
  it can be had, and when its exit function has returned its code is freed. A task is inside the open function, has
  the file open, or is inside release after what that does to the count. An open can fail. A task that looked the device up before the exit function removed
  it can be inside open, and finish it, while the module is going.
\<close>

datatype mod_phase = Live | Going | Gone
datatype task_stage = In_open | Has_file | In_release

record modsys =
  mo_phase :: mod_phase
  mo_refs :: nat
  mo_tasks :: "(nat \<times> task_stage) list"

definition owner_refs :: "chr_module \<Rightarrow> nat" where
  "owner_refs m = (if fo_owner (cm_fops m) then 1 else 0)"

inductive mod_step :: "chr_module \<Rightarrow> modsys \<Rightarrow> modsys \<Rightarrow> bool" for m where
  enter: "mo_phase s = Live \<or> mo_phase s = Going \<and> \<not> fo_owner (cm_fops m) \<Longrightarrow>
    mod_step m s (s\<lparr>mo_refs := mo_refs s + owner_refs m, mo_tasks := (f, In_open) # mo_tasks s\<rparr>)"
| opened: "mo_phase s \<noteq> Gone \<Longrightarrow> mo_tasks s = xs @ (f, In_open) # ys \<Longrightarrow>
    mod_step m s (s\<lparr>mo_refs := cm_get m (mo_phase s = Live) (mo_refs s), mo_tasks := xs @ (f, Has_file) # ys\<rparr>)"
| refused: "mo_phase s \<noteq> Gone \<Longrightarrow> mo_tasks s = xs @ (f, In_open) # ys \<Longrightarrow>
    mod_step m s (s\<lparr>mo_refs := mo_refs s - owner_refs m, mo_tasks := xs @ ys\<rparr>)"
| release: "mo_phase s \<noteq> Gone \<Longrightarrow> mo_tasks s = xs @ (f, Has_file) # ys \<Longrightarrow>
    mod_step m s (s\<lparr>mo_refs := cm_put m (mo_refs s), mo_tasks := xs @ (f, In_release) # ys\<rparr>)"
| leave: "mo_phase s \<noteq> Gone \<Longrightarrow> mo_tasks s = xs @ (f, In_release) # ys \<Longrightarrow>
    mod_step m s (s\<lparr>mo_refs := mo_refs s - owner_refs m, mo_tasks := xs @ ys\<rparr>)"
| unload: "mo_phase s = Live \<Longrightarrow> mo_refs s = 0 \<Longrightarrow> mod_step m s (s\<lparr>mo_phase := Going\<rparr>)"
| freed: "mo_phase s = Going \<Longrightarrow> mod_step m s (s\<lparr>mo_phase := Gone\<rparr>)"

inductive_cases mod_stepE: "mod_step m s t"

inductive mod_reach :: "chr_module \<Rightarrow> modsys \<Rightarrow> bool" for m where
  start: "mod_reach m \<lparr>mo_phase = Live, mo_refs = 0, mo_tasks = []\<rparr>"
| step: "mod_reach m s \<Longrightarrow> mod_step m s t \<Longrightarrow> mod_reach m t"

text \<open>The references a driver takes itself.\<close>

definition self_refs :: "chr_module \<Rightarrow> nat" where
  "self_refs m = cm_get m True 0"

definition stage_refs :: "chr_module \<Rightarrow> task_stage \<Rightarrow> nat" where
  "stage_refs m st = owner_refs m + (if st = Has_file then self_refs m else 0)"

lemma rdonly_counts: "cm_get rdonly_module got n = (if got then n + 1 else n)" "cm_put rdonly_module n = n - 1"
  using length_greeting [of 0]
  by (auto simp: rdonly_module_def ro_device_open_def ro_device_release_def ro_boot_def is_s32_def Let_def)

lemma chr_module_counts:
  assumes "m \<in> set chr_modules"
  shows "cm_get m got n = (if got then n + self_refs m else n) \<and> cm_put m n = n - self_refs m"
  using assms rdonly_counts
  by (auto simp: chr_modules_def plain_module_def self_refs_def charioctl_module_def ioctl_device_open_def ioctl_device_release_def)

text \<open>While the module is live its use count is the sum over its tasks; after that a module that owns its table has none.\<close>

definition mod_inv :: "chr_module \<Rightarrow> modsys \<Rightarrow> bool" where
  "mod_inv m s \<longleftrightarrow> (if mo_phase s = Live then mo_refs s = (\<Sum>(f, st) \<leftarrow> mo_tasks s. stage_refs m st)
     else fo_owner (cm_fops m) \<longrightarrow> mo_tasks s = [])"

lemma mod_reach_inv:
  assumes "mod_reach m s" "m \<in> set chr_modules"
  shows "mod_inv m s"
  using assms(1)
proof (induction rule: mod_reach.induct)
  case start
  then show ?case by (simp add: mod_inv_def)
next
  case (step s t)
  from step.hyps(2) step.IH show ?case
  proof (induction rule: mod_step.induct)
    case (unload s)
    then show ?case by (cases "mo_tasks s") (auto simp: mod_inv_def stage_refs_def owner_refs_def)
  qed (auto simp: mod_inv_def stage_refs_def chr_module_counts [OF assms(2)])
qed

lemma unprotected_modules:
  "filter (\<lambda>m. \<not> fo_owner (cm_fops m) \<and> self_refs m = 0) chr_modules
     = map plain_module [mysensor_fops, mysensordrv_fops, myalarm_fops]"
  using rdonly_counts
  by (simp add: chr_modules_def plain_module_def self_refs_def charioctl_module_def ioctl_device_open_def no_ops_def
      myfakebell_fops_def mysensor_fops_def myblkdev_fops_def myconfig_fops_def mydevice_fops_def mysensordrv_fops_def
      myalarm_fops_def charrw_fops_def panicb_fops_def)

text \<open>An open that is under way when the module starts going.\<close>

lemma unload_under_open:
  assumes "owner_refs m = 0" "m \<in> set chr_modules"
  shows "mod_reach m \<lparr>mo_phase = Gone, mo_refs = 0, mo_tasks = [(f, Has_file)]\<rparr>"
proof -
  have "mod_reach m \<lparr>mo_phase = Live, mo_refs = 0, mo_tasks = [(f, In_open)]\<rparr>"
    using mod_reach.step [OF mod_reach.start mod_step.enter [of _ m f]] assms by simp
  from mod_reach.step [OF this mod_step.unload]
  have "mod_reach m \<lparr>mo_phase = Going, mo_refs = 0, mo_tasks = [(f, In_open)]\<rparr>" by simp
  from mod_reach.step [OF this mod_step.opened [of _ "[]" f "[]" m]]
  have "mod_reach m \<lparr>mo_phase = Going, mo_refs = 0, mo_tasks = [(f, Has_file)]\<rparr>"
    by (simp add: chr_module_counts [OF assms(2)])
  from mod_reach.step [OF this mod_step.freed] show ?thesis by simp
qed

lemma live_with_file:
  assumes "owner_refs m = 0" "self_refs m = 0" "m \<in> set chr_modules"
  shows "mod_reach m \<lparr>mo_phase = Live, mo_refs = 0, mo_tasks = [(f, Has_file)]\<rparr>"
proof -
  have "mod_reach m \<lparr>mo_phase = Live, mo_refs = 0, mo_tasks = [(f, In_open)]\<rparr>"
    using mod_reach.step [OF mod_reach.start mod_step.enter [of _ m f]] assms by simp
  from mod_reach.step [OF this mod_step.opened [of _ "[]" f "[]" m]] show ?thesis
    by (simp add: chr_module_counts [OF assms(3)] assms(2))
qed

text \<open>An unload can start under an open file.\<close>

definition unload_starts_under_file :: "chr_module \<Rightarrow> bool" where
  "unload_starts_under_file m \<longleftrightarrow> (\<exists>t u f. mod_reach m t \<and> mo_phase t = Live \<and> (f, Has_file) \<in> set (mo_tasks t)
     \<and> mod_step m t u \<and> mo_phase u = Going)"

lemma unload_starts_iff:
  assumes "m \<in> set chr_modules"
  shows "unload_starts_under_file m \<longleftrightarrow> owner_refs m = 0 \<and> self_refs m = 0"
proof
  assume "owner_refs m = 0 \<and> self_refs m = 0"
  then have r: "mod_reach m \<lparr>mo_phase = Live, mo_refs = 0, mo_tasks = [(0, Has_file)]\<rparr>" using live_with_file assms by blast
  have "mod_step m \<lparr>mo_phase = Live, mo_refs = 0, mo_tasks = [(0, Has_file)]\<rparr> \<lparr>mo_phase = Going, mo_refs = 0, mo_tasks = [(0, Has_file)]\<rparr>"
    using mod_step.unload [of "\<lparr>mo_phase = Live, mo_refs = 0, mo_tasks = [(0, Has_file)]\<rparr>" m] by simp
  with r show "unload_starts_under_file m" unfolding unload_starts_under_file_def
    by (intro exI [of _ "\<lparr>mo_phase = Live, mo_refs = 0, mo_tasks = [(0, Has_file)]\<rparr>"]
        exI [of _ "\<lparr>mo_phase = Going, mo_refs = 0, mo_tasks = [(0, Has_file)]\<rparr>"] exI [of _ 0]) simp
next
  assume "unload_starts_under_file m"
  then obtain t u f where t: "mod_reach m t" "mo_phase t = Live" "(f, Has_file) \<in> set (mo_tasks t)" "mod_step m t u" "mo_phase u = Going"
    unfolding unload_starts_under_file_def by blast
  from t(4,5,2) have "mo_refs t = 0" by (auto elim!: mod_stepE)
  with mod_reach_inv [OF t(1) assms] t(2,3) show "owner_refs m = 0 \<and> self_refs m = 0"
    by (force simp: mod_inv_def stage_refs_def sum_list_eq_0_iff)
qed

section \<open>Guarantees\<close>

text \<open>
  C17: a module whose table names it as owner stays live as long as any task is inside its open or release function or has a
  file open, over every interleaving of opens, closes and an unload. Of the five that do not, two count themselves in their open function; that keeps
  an unload from starting while a file is open, which for the other three (\<open>mysensor.c\<close>, \<open>mysensordrv.c\<close> and
  \<open>myalarm.c\<close>) it can; but for all five an open that is under way when the unload starts (when the reference they ask
  for is refused, which they ignore) can leave an open file on a module that is gone.
\<close>

theorem module_stays_for_files:
  assumes "m \<in> set chr_modules" "mod_reach m s"
  shows "(fo_owner (cm_fops m) \<longrightarrow> mo_tasks s \<noteq> [] \<longrightarrow> mo_phase s = Live)
    \<and> (m \<notin> plain_module ` {mysensor_fops, mysensordrv_fops, myalarm_fops} \<longrightarrow> mo_phase s = Live \<longrightarrow> (f, Has_file) \<in> set (mo_tasks s) \<longrightarrow>
         (\<forall>t. mod_step m s t \<longrightarrow> mo_phase t = Live))
    \<and> (m \<in> plain_module ` {mysensor_fops, mysensordrv_fops, myalarm_fops} \<longrightarrow> unload_starts_under_file m)
    \<and> (m \<in> plain_module ` {mysensor_fops, mysensordrv_fops, myalarm_fops} \<union> {rdonly_module, charioctl_module} \<longrightarrow>
         (\<exists>t. mod_reach m t \<and> mo_phase t = Gone \<and> mo_tasks t = [(f, Has_file)]))"
proof -
  have three: "m \<in> plain_module ` {mysensor_fops, mysensordrv_fops, myalarm_fops} \<longleftrightarrow> owner_refs m = 0 \<and> self_refs m = 0"
    using arg_cong [OF unprotected_modules, of set] assms(1) by (auto simp: owner_refs_def)
  have "mo_phase s = Live" if "fo_owner (cm_fops m)" "mo_tasks s \<noteq> []"
    using mod_reach_inv [OF assms(2,1)] that by (simp add: mod_inv_def split: if_splits)
  moreover have "mo_phase t = Live" if "\<not> unload_starts_under_file m" "mo_phase s = Live" "(f, Has_file) \<in> set (mo_tasks s)" "mod_step m s t" for t
  proof -
    have "mo_phase t \<noteq> Going" using that assms(2) unfolding unload_starts_under_file_def by blast
    with that(2,4) show ?thesis by (auto elim!: mod_stepE)
  qed
  moreover have "owner_refs m = 0" if "m \<in> plain_module ` {mysensor_fops, mysensordrv_fops, myalarm_fops} \<union> {rdonly_module, charioctl_module}"
  proof (cases "m \<in> plain_module ` {mysensor_fops, mysensordrv_fops, myalarm_fops}")
    case True
    then show ?thesis by (rule conjunct1 [OF iffD1 [OF three]])
  next
    case False
    with that have "m = rdonly_module \<or> m = charioctl_module" by blast
    then show ?thesis
      by (auto simp: owner_refs_def rdonly_module_def charioctl_module_def rdonly_fops_def charioctl_fops_def no_ops_def)
  qed
  moreover have "\<exists>t. mod_reach m t \<and> mo_phase t = Gone \<and> mo_tasks t = [(f, Has_file)]" if "owner_refs m = 0"
    using unload_under_open [OF that assms(1), of f] by (intro exI conjI) (assumption, simp_all)
  ultimately show ?thesis using unload_starts_iff [OF assms(1)] three by blast
qed

text \<open>The bell driver, the read-only device and the alarm driver.\<close>

theorem module_stays_for_files_witness:
  "unload_starts_under_file (plain_module myalarm_fops)
   \<and> (\<exists>t. mod_reach rdonly_module t \<and> mo_phase t = Gone \<and> mo_tasks t = [(3, Has_file)])
   \<and> (\<exists>s. mod_reach (plain_module myfakebell_fops) s \<and> mo_tasks s = [(3, In_open)] \<and> mo_phase s = Live)"
proof -
  have m: "plain_module myfakebell_fops \<in> set chr_modules" "plain_module myalarm_fops \<in> set chr_modules" "rdonly_module \<in> set chr_modules"
    by (simp_all add: chr_modules_def)
  have f: "mod_reach (plain_module myfakebell_fops) \<lparr>mo_phase = Live, mo_refs = 1, mo_tasks = [(3, In_open)]\<rparr>"
    using mod_reach.step [OF mod_reach.start mod_step.enter [of _ "plain_module myfakebell_fops" 3]]
    by (simp add: owner_refs_def plain_module_def myfakebell_fops_def)
  have "fo_owner (cm_fops (plain_module myfakebell_fops))" by (simp add: plain_module_def myfakebell_fops_def)
  with module_stays_for_files [OF m(1) f, of 3]
  have a: "mo_phase \<lparr>mo_phase = Live, mo_refs = 1, mo_tasks = [(3, In_open)]\<rparr> = Live" by simp
  have b: "unload_starts_under_file (plain_module myalarm_fops)"
    using module_stays_for_files [OF m(2) mod_reach.start, of 3] by simp
  have c: "\<exists>t. mod_reach rdonly_module t \<and> mo_phase t = Gone \<and> mo_tasks t = [(3, Has_file)]"
    using module_stays_for_files [OF m(3) mod_reach.start, of 3] by simp
  have "\<exists>s. mod_reach (plain_module myfakebell_fops) s \<and> mo_tasks s = [(3, In_open)] \<and> mo_phase s = Live"
    using f a by (intro exI [of _ "\<lparr>mo_phase = Live, mo_refs = 1, mo_tasks = [(3, In_open)]\<rparr>"]) simp
  with b c show ?thesis by blast
qed

end
