(* ===== verification/Log_Modules.thy ===== *)
theory Log_Modules
  imports Buses Peripherals
begin

text \<open>
  Code whose effect is on the kernel log: the modules \<open>helloworld\<close>, \<open>modlicense\<close> and \<open>myprintk\<close>, the logging buses of
  \<open>mydevice\<close> and \<open>mydriver\<close>, and the callbacks of the serial port. The log is a list of lines (without their newline);
  whether the rate limit lets a line through is a parameter.
\<close>

section \<open>Greetings and the rate limit\<close>

type_synonym klog = "string list"

definition hello_init :: "int \<times> klog" where "hello_init = (0, [''Hello, world''])"
definition hello_exit :: klog where "hello_exit = [''Goodbye, world'']"
definition init_hello :: "int \<times> klog" where "init_hello = (0, [''Hello, world''])"
definition cleanup_hello :: klog where "cleanup_hello = [''Goodbye, world'']"

text \<open>The loop from \<open>i\<close> on; \<open>pass i\<close> says whether the rate limit lets the \<open>i\<close>-th message through.\<close>

function ratelimit_loop :: "(int \<Rightarrow> bool) \<Rightarrow> int \<Rightarrow> klog" where
  "ratelimit_loop pass i =
    (if i < 20 then (if pass i then [''ratelimit_test: message '' @ print_d i] else []) @ ratelimit_loop pass (i + 1) else [])"
  by auto
termination by (relation "measure (\<lambda>(pass, i). nat (20 - i))") auto

declare ratelimit_loop.simps [simp del]

definition ratelimit_test_init :: "(int \<Rightarrow> bool) \<Rightarrow> int \<times> klog" where
  "ratelimit_test_init pass = (0, ratelimit_loop pass 0)"

definition ratelimit_test_exit :: klog where
  "ratelimit_test_exit = [''ratelimit_test: exit'']"

section \<open>The buses\<close>

text \<open>The bus of \<open>mydevice\<close>.\<close>

definition dvb_match :: "string \<Rightarrow> string \<Rightarrow> klog \<times> int" where
  "dvb_match dev drv =
    (let rc = strncmp (length drv) dev drv
     in (if rc = 0 then [''dev name and driver name match''] else [''dev name and driver name mismatch''],
         if rc = 0 then 1 else 0))"

definition dvb_uevent :: "int \<Rightarrow> string \<Rightarrow> string list \<Rightarrow> int \<times> string list" where
  "dvb_uevent added dev env = (0, if added = 0 then env @ [''DEV_NAME='' @ dev] else env)"

definition dvb_bus_device_release :: "string \<Rightarrow> klog" where
  "dvb_bus_device_release init_name = [''module:'' @ init_name @ '' is released'']"

definition dvb_child_device_release :: "string \<Rightarrow> klog" where
  "dvb_child_device_release init_name = [''child module:'' @ init_name @ '' is released'']"

definition dvb_register_device :: "int \<Rightarrow> bus_device \<Rightarrow> klog \<times> int \<times> bus_device \<times> kcall list" where
  "dvb_register_device reg dev =
    ([''child module '' @ d_init_name dev @ '' registered''],
     reg, dev\<lparr>d_bus := ''mybus'', d_parent := ''mybus0'', d_name := d_init_name dev\<rparr>,
     if reg = 0 then [Use (Named ''bus''), Acq (Device 0)] else [Use (Named ''bus'')])"

definition dvb_unregister_device :: "bus_device \<Rightarrow> klog \<times> kcall list" where
  "dvb_unregister_device dev = ([''child module '' @ d_init_name dev @ '' unregistered''], [Rel (Device 0)])"

definition dvb_bus_init :: "int \<Rightarrow> int \<Rightarrow> int \<times> kcall list" where
  "dvb_bus_init bus dev = (bus OR dev, (if bus = 0 then [Acq (Named ''bus'')] else []) @ (if dev = 0 then [Acq (Named ''busdev'')] else []))"

definition dvb_bus_exit :: "kcall list" where
  "dvb_bus_exit = [Rel (Named ''bus''), Rel (Named ''busdev'')]"

text \<open>The bus of \<open>mydriver\<close>: its copies of the callbacks.\<close>

definition drb_match :: "string \<Rightarrow> string \<Rightarrow> klog \<times> int" where
  "drb_match dev drv =
    (let rc = strncmp (length drv) dev drv
     in (if rc = 0 then [''dev name and driver name match''] else [''dev name and driver name mismatch''],
         if rc = 0 then 1 else 0))"

definition drb_uevent :: "int \<Rightarrow> string \<Rightarrow> string list \<Rightarrow> int \<times> string list" where
  "drb_uevent added dev env = (0, if added = 0 then env @ [''DEV_NAME='' @ dev] else env)"

definition drb_bus_device_release :: "string \<Rightarrow> klog" where
  "drb_bus_device_release init_name = [''module:'' @ init_name @ '' is released'']"

definition drb_child_device_release :: "string \<Rightarrow> klog" where
  "drb_child_device_release init_name = [''child module:'' @ init_name @ '' is released'']"

text \<open>The bare bus of \<open>mybus\<close>.\<close>

definition rwb_match :: "string \<Rightarrow> string \<Rightarrow> int" where
  "rwb_match dev drv = (if strncmp (length drv) dev drv = 0 then 1 else 0)"

definition rwb_uevent :: "int \<Rightarrow> string \<Rightarrow> string list \<Rightarrow> int \<times> string list" where
  "rwb_uevent added dev env = (0, if added = 0 then env @ [''DEV_NAME='' @ dev] else env)"

section \<open>The serial port's callbacks\<close>

definition simple_serial_startup :: "uart_port \<Rightarrow> int \<times> klog" where
  "simple_serial_startup p = (0, [''simple_serial: starting up''])"
definition simple_serial_shutdown :: "uart_port \<Rightarrow> klog" where
  "simple_serial_shutdown p = [''simple_serial: shutting down'']"
definition simple_serial_set_mctrl :: "u32 \<Rightarrow> uart_port \<Rightarrow> uart_port" where
  "simple_serial_set_mctrl mctrl p = p"
definition simple_serial_start_tx :: "uart_port \<Rightarrow> klog" where
  "simple_serial_start_tx p = [''simple_serial: starting TX'']"
definition simple_serial_stop_tx :: "uart_port \<Rightarrow> klog" where
  "simple_serial_stop_tx p = [''simple_serial: stopping TX'']"
definition simple_serial_stop_rx :: "uart_port \<Rightarrow> klog" where
  "simple_serial_stop_rx p = [''simple_serial: stopping RX'']"
definition simple_serial_enable_ms :: "uart_port \<Rightarrow> uart_port" where
  "simple_serial_enable_ms p = p"
definition simple_serial_request_port :: "uart_port \<Rightarrow> int" where
  "simple_serial_request_port p = 0"
definition simple_serial_release_port :: "uart_port \<Rightarrow> uart_port" where
  "simple_serial_release_port p = p"
definition simple_serial_verify_port :: "uart_port \<Rightarrow> int" where
  "simple_serial_verify_port p = 0"
definition simple_serial_handle_irq :: "uart_port \<Rightarrow> int \<times> klog" where
  "simple_serial_handle_irq p = (0, [''simple_serial: handling IRQ''])"

text \<open>The table: what a call of the serial core answers, does to the port and logs.\<close>

datatype uart_call = Startup | Shutdown | Tx_empty | Set_mctrl u32 | Get_mctrl | Stop_tx | Start_tx | Stop_rx | Enable_ms
  | Request_port | Release_port | Config_port int | Verify_port

fun simple_serial_ops :: "uart_call \<Rightarrow> uart_port \<Rightarrow> int option \<times> uart_port \<times> klog" where
  "simple_serial_ops Startup p = (case simple_serial_startup p of (r, l) \<Rightarrow> (Some r, p, l))"
| "simple_serial_ops Shutdown p = (None, p, simple_serial_shutdown p)"
| "simple_serial_ops Tx_empty p = (Some (uint simple_serial_tx_empty), p, [])"
| "simple_serial_ops (Set_mctrl m) p = (None, simple_serial_set_mctrl m p, [])"
| "simple_serial_ops Get_mctrl p = (Some (uint simple_serial_get_mctrl), p, [])"
| "simple_serial_ops Stop_tx p = (None, p, simple_serial_stop_tx p)"
| "simple_serial_ops Start_tx p = (None, p, simple_serial_start_tx p)"
| "simple_serial_ops Stop_rx p = (None, p, simple_serial_stop_rx p)"
| "simple_serial_ops Enable_ms p = (None, simple_serial_enable_ms p, [])"
| "simple_serial_ops Request_port p = (Some (simple_serial_request_port p), p, [])"
| "simple_serial_ops Release_port p = (None, simple_serial_release_port p, [])"
| "simple_serial_ops (Config_port flags) p = (None, simple_serial_config_port p, [])"
| "simple_serial_ops Verify_port p = (Some (simple_serial_verify_port p), p, [])"

fun serial_session_calls :: "uart_call list \<Rightarrow> uart_port \<Rightarrow> uart_port \<times> klog" where
  "serial_session_calls [] p = (p, [])"
| "serial_session_calls (c # cs) p =
    (case simple_serial_ops c p of (r, p1, l) \<Rightarrow> case serial_session_calls cs p1 of (p2, l2) \<Rightarrow> (p2, l @ l2))"

section \<open>Lemmas\<close>

lemma ratelimit_lines:
  "0 \<le> i \<Longrightarrow> ratelimit_loop pass i = map (\<lambda>k. ''ratelimit_test: message '' @ print_d k) (filter pass [i..19])"
proof (induction pass i rule: ratelimit_loop.induct)
  case (1 pass i)
  show ?case
  proof (cases "i < 20")
    case True
    then have "[i..19] = i # [i + 1..19]" by (simp add: upto_rec1)
    with True "1.IH" "1.prems" show ?thesis by (simp add: ratelimit_loop.simps [of pass i])
  next
    case False
    then show ?thesis by (simp add: ratelimit_loop.simps [of pass i])
  qed
qed

text \<open>The messages appear in order, each at most once, and all twenty when nothing is suppressed; the load succeeds either way.\<close>

lemma ratelimit_session:
  "ratelimit_test_init pass = (0, map (\<lambda>k. ''ratelimit_test: message '' @ print_d k) (filter pass [0..19]))"
  "length (snd (ratelimit_test_init (\<lambda>_. True))) = 20"
  by (simp_all add: ratelimit_test_init_def ratelimit_lines)

text \<open>The three buses match alike: a match is logged exactly for a driver name that is a prefix of the device name.\<close>

lemma buses_agree:
  "snd (dvb_match dev drv) = my_match dev drv" "snd (drb_match dev drv) = my_match dev drv" "rwb_match dev drv = my_match dev drv"
  "dvb_uevent a dev env = my_uevent a dev env" "drb_uevent a dev env = my_uevent a dev env" "rwb_uevent a dev env = my_uevent a dev env"
  "snd (dvb_register_device reg d) = my_bus_register_device ''mybus'' ''mybus0'' reg d"
  "dvb_bus_init x y = dev_bus_init x y" "dvb_bus_exit = dev_bus_exit"
  by (simp_all add: dvb_match_def drb_match_def rwb_match_def my_match_def dvb_uevent_def drb_uevent_def rwb_uevent_def my_uevent_def
      dvb_register_device_def my_bus_register_device_def dvb_bus_init_def dev_bus_init_def dvb_bus_exit_def dev_bus_exit_def Let_def)

lemma dvb_match_logs:
  "CHR 0x00 \<notin> set dev \<Longrightarrow> CHR 0x00 \<notin> set drv \<Longrightarrow> fst (dvb_match dev drv) = [''dev name and driver name match''] \<longleftrightarrow> prefix drv dev"
  using strncmp_prefix [of dev drv] by (simp add: dvb_match_def)

lemma dvb_session:
  "run_calls (snd (dvb_bus_init 0 0) @ snd (snd (snd (dvb_register_device 0 d))) @ snd (dvb_unregister_device d) @ dvb_bus_exit) h = Some h"
  by (simp add: dvb_bus_init_def dvb_register_device_def dvb_unregister_device_def dvb_bus_exit_def)

text \<open>Whatever the core calls, only the type of the port changes, and only through \<open>config_port\<close>.\<close>

lemma serial_calls_port:
  "fst (serial_session_calls cs p) = (if \<exists>f. Config_port f \<in> set cs then simple_serial_config_port p else p)"
proof (induction cs arbitrary: p)
  case Nil
  then show ?case by simp
next
  case (Cons c cs)
  have idem: "simple_serial_config_port (simple_serial_config_port q) = simple_serial_config_port q" for q
    by (simp add: simple_serial_config_port_def)
  show ?case
    by (cases c) (auto simp: case_prod_unfold Cons.IH idem simple_serial_startup_def simple_serial_set_mctrl_def
        simple_serial_enable_ms_def simple_serial_release_port_def)
qed

end
