(* ===== verification/Locking.thy ===== *)
theory Locking
  imports Lock_Skeletons
begin

text \<open>
  The locks of the drivers on several processors. Each processor runs one process-level function to its end, which interrupt code may
  interrupt unless interrupts are off. A lock is a bit that \<open>Take\<close> waits for and sets and that \<open>Drop\<close> and
  \<open>Reinit\<close> clear; which functions are inside a section is counted apart from it. The checker of \<open>Lock_Skeletons\<close> is
  proved to give mutual exclusion and progress, which is what lets the other theories take a critical section as one step; the bell driver
  does not pass it, nor do two others while their probe is under way.
\<close>

section \<open>The machine\<close>

datatype run_context = Process | Interrupt

text \<open>A function under way: the lock operations still to come on its path, and the locks it has taken and not dropped.\<close>

record frame =
  fr_context :: run_context
  fr_code :: "lock_op list"
  fr_locks :: "(string \<times> lock_kind) list"

record machine =
  ma_set :: "string \<Rightarrow> bool"
  ma_cpus :: "frame list list"

definition new_frame :: "run_context \<Rightarrow> lock_op list \<Rightarrow> frame" where
  "new_frame c xs = \<lparr>fr_context = c, fr_code = xs, fr_locks = []\<rparr>"

definition inside :: "string \<Rightarrow> frame \<Rightarrow> bool" where
  "inside l f \<longleftrightarrow> l \<in> fst ` set (fr_locks f)"

text \<open>How many functions are between taking and dropping a lock.\<close>

definition holders :: "string \<Rightarrow> frame list list \<Rightarrow> nat" where
  "holders l cpus = sum_list (map (\<lambda>st. length (filter (inside l) st)) cpus)"

definition irqs_on :: "frame list \<Rightarrow> bool" where
  "irqs_on st \<longleftrightarrow> (\<forall>f \<in> set st. fr_context f = Process \<and> Spin_irqsave \<notin> snd ` set (fr_locks f))"

text \<open>
  The stacks of the processors, the running frame last. \<open>work\<close> steps do a lock operation or end a function; the others begin a
  function or interrupt.
\<close>

inductive work :: "machine \<Rightarrow> machine \<Rightarrow> bool" where
  acquire: "c < length (ma_cpus s) \<Longrightarrow> ma_cpus s ! c = st @ [f] \<Longrightarrow> fr_code f = Take k l # xs \<Longrightarrow> \<not> ma_set s l \<Longrightarrow>
    work s (s\<lparr>ma_set := (ma_set s)(l := True), ma_cpus := (ma_cpus s)[c := st @ [f\<lparr>fr_code := xs, fr_locks := (l, k) # fr_locks f\<rparr>]]\<rparr>)"
| release: "c < length (ma_cpus s) \<Longrightarrow> ma_cpus s ! c = st @ [f] \<Longrightarrow> fr_code f = Drop l # xs \<Longrightarrow>
    work s (s\<lparr>ma_set := (ma_set s)(l := False),
              ma_cpus := (ma_cpus s)[c := st @ [f\<lparr>fr_code := xs, fr_locks := filter (\<lambda>p. fst p \<noteq> l) (fr_locks f)\<rparr>]]\<rparr>)"
| reinit: "c < length (ma_cpus s) \<Longrightarrow> ma_cpus s ! c = st @ [f] \<Longrightarrow> fr_code f = Reinit l # xs \<Longrightarrow>
    work s (s\<lparr>ma_set := (ma_set s)(l := False), ma_cpus := (ma_cpus s)[c := st @ [f\<lparr>fr_code := xs\<rparr>]]\<rparr>)"
| finish: "c < length (ma_cpus s) \<Longrightarrow> ma_cpus s ! c = st @ [f] \<Longrightarrow> fr_code f = [] \<Longrightarrow> work s (s\<lparr>ma_cpus := (ma_cpus s)[c := st]\<rparr>)"

inductive lock_step :: "driver_locks \<Rightarrow> machine \<Rightarrow> machine \<Rightarrow> bool" for d where
  working: "work s t \<Longrightarrow> lock_step d s t"
| call: "c < length (ma_cpus s) \<Longrightarrow> ma_cpus s ! c = [] \<Longrightarrow> b \<in> set (dr_process d) \<Longrightarrow> path b xs \<Longrightarrow>
    lock_step d s (s\<lparr>ma_cpus := (ma_cpus s)[c := [new_frame Process xs]]\<rparr>)"
| interrupt: "c < length (ma_cpus s) \<Longrightarrow> irqs_on (ma_cpus s ! c) \<Longrightarrow> b \<in> set (dr_interrupt d) \<Longrightarrow> path b xs \<Longrightarrow>
    lock_step d s (s\<lparr>ma_cpus := (ma_cpus s)[c := ma_cpus s ! c @ [new_frame Interrupt xs]]\<rparr>)"

text \<open>At the start one processor is in the part of probe that follows the publication of the device; \<open>n\<close> others are idle.\<close>

inductive lock_reach :: "driver_locks \<Rightarrow> nat \<Rightarrow> machine \<Rightarrow> bool" for d n where
  start: "path (dr_probe d) xs \<Longrightarrow>
    lock_reach d n \<lparr>ma_set = (\<lambda>l. False), ma_cpus = [new_frame Process xs] # replicate n []\<rparr>"
| step: "lock_reach d n s \<Longrightarrow> lock_step d s t \<Longrightarrow> lock_reach d n t"

section \<open>Invariant\<close>

text \<open>A function passes the rest of its check with the lock it holds, takes only locks the driver takes in its context, and holds one at most.\<close>

definition context_takes :: "driver_locks \<Rightarrow> run_context \<Rightarrow> (string \<times> lock_kind) list" where
  "context_takes d c = (case c of Process \<Rightarrow> process_takes d | Interrupt \<Rightarrow> interrupt_takes d)"

definition hold_of :: "frame \<Rightarrow> hold" where
  "hold_of f = (case fr_locks f of [] \<Rightarrow> None | p # ps \<Rightarrow> Some p)"

definition frame_ok :: "driver_locks \<Rightarrow> frame \<Rightarrow> bool" where
  "frame_ok d f \<longleftrightarrow> check_path (fr_code f) (hold_of f) = Some None \<and> length (fr_locks f) \<le> 1
     \<and> set (fr_locks f) \<subseteq> set (context_takes d (fr_context f))
     \<and> (\<forall>x \<in> set (fr_code f). set (op_takes x) \<subseteq> set (context_takes d (fr_context f)))"

definition stack_ok :: "driver_locks \<Rightarrow> frame list \<Rightarrow> bool" where
  "stack_ok d st \<longleftrightarrow> (\<forall>f \<in> set st. frame_ok d f) \<and> irqs_on (butlast st)
     \<and> length st \<le> 2 \<and> (length st = 2 \<longrightarrow> fr_context (last st) = Interrupt)"

definition lock_inv :: "driver_locks \<Rightarrow> machine \<Rightarrow> bool" where
  "lock_inv d s \<longleftrightarrow> (\<forall>st \<in> set (ma_cpus s). stack_ok d st) \<and> (\<forall>l. holders l (ma_cpus s) = (if ma_set s l then 1 else 0))"

lemma holders_update:
  "c < length cpus \<Longrightarrow> holders l (cpus[c := st]) = holders l cpus + length (filter (inside l) st) - length (filter (inside l) (cpus ! c))"
  by (simp add: holders_def map_update sum_list_update)

lemma holders_ge: "c < length cpus \<Longrightarrow> length (filter (inside l) (cpus ! c)) \<le> holders l cpus"
  unfolding holders_def by (rule member_le_sum_list) auto

lemma lock_inv_update:
  assumes "lock_inv d s" "c < length (ma_cpus s)" "stack_ok d st"
    and "\<And>l. holders l ((ma_cpus s)[c := st]) = (if bits l then 1 else 0)"
  shows "lock_inv d (s\<lparr>ma_set := bits, ma_cpus := (ma_cpus s)[c := st]\<rparr>)"
  using assms by (auto simp: lock_inv_def dest: set_update_subset_insert [THEN subsetD])

lemma irqs_on_butlast: "irqs_on st \<Longrightarrow> irqs_on (butlast st)"
  by (auto simp: irqs_on_def dest: in_set_butlastD)

lemma stack_ok_top: "stack_ok d (st @ [f]) \<longleftrightarrow> (\<forall>g \<in> set st. frame_ok d g) \<and> irqs_on st \<and> frame_ok d f
     \<and> length st \<le> 1 \<and> (st \<noteq> [] \<longrightarrow> fr_context f = Interrupt)"
  by (cases st) (auto simp: stack_ok_def)

lemma stack_ok_below: "stack_ok d (st @ [f]) \<Longrightarrow> stack_ok d st"
  by (simp add: stack_ok_top) (auto simp: stack_ok_def irqs_on_butlast)

lemma lock_inv_stack: "lock_inv d s \<Longrightarrow> c < length (ma_cpus s) \<Longrightarrow> stack_ok d (ma_cpus s ! c)"
  by (simp add: lock_inv_def)

lemma lock_inv_top: "lock_inv d s \<Longrightarrow> c < length (ma_cpus s) \<Longrightarrow> ma_cpus s ! c = st @ [f] \<Longrightarrow> frame_ok d f"
  using lock_inv_stack [of d s c] by (simp add: stack_ok_top)

text \<open>Replacing the running frame.\<close>

lemma lock_inv_replace:
  assumes inv: "lock_inv d s" and c: "c < length (ma_cpus s)" "ma_cpus s ! c = st @ [f]" and g: "frame_ok d g" "fr_context g = fr_context f"
    and bits: "\<And>l. holders l (ma_cpus s) + (if inside l g then 1 else 0) = (if bits l then 1 else 0) + (if inside l f then 1 else 0)"
  shows "lock_inv d (s\<lparr>ma_set := bits, ma_cpus := (ma_cpus s)[c := st @ [g]]\<rparr>)"
proof (rule lock_inv_update [OF inv c(1)])
  show "stack_ok d (st @ [g])" using lock_inv_stack [OF inv c(1)] c(2) g by (simp add: stack_ok_top)
  show "holders l ((ma_cpus s)[c := st @ [g]]) = (if bits l then 1 else 0)" for l
    using bits [of l] holders_ge [OF c(1), of l] c by (cases "inside l g"; cases "inside l f"; cases "bits l") (simp_all add: holders_update)
qed

lemma irqs_on_small: "stack_ok d st \<Longrightarrow> irqs_on st \<Longrightarrow> length st \<le> 1"
  by (cases st rule: rev_cases) (auto simp: stack_ok_top irqs_on_def)

lemma frame_ok_new:
  assumes "check b None = Some None" "path b xs" "set (takes b) \<subseteq> set (context_takes d x)"
  shows "frame_ok d (new_frame x xs)"
  using check_sees_paths [OF assms(2,1)] path_takes [OF assms(2)] assms(3)
  by (auto simp: frame_ok_def new_frame_def hold_of_def)

lemma lock_inv_push:
  assumes "lock_inv d s" "c < length (ma_cpus s)" "irqs_on (ma_cpus s ! c)" "ma_cpus s ! c = [] \<or> x = Interrupt"
    and "frame_ok d (new_frame x xs)"
  shows "lock_inv d (s\<lparr>ma_cpus := (ma_cpus s)[c := ma_cpus s ! c @ [new_frame x xs]]\<rparr>)"
proof -
  have "stack_ok d (ma_cpus s ! c @ [new_frame x xs])"
    using lock_inv_stack [OF assms(1,2)] assms(3-5) irqs_on_small [of d "ma_cpus s ! c"]
    by (auto simp: stack_ok_top) (auto simp: stack_ok_def new_frame_def)
  moreover have "holders l ((ma_cpus s)[c := ma_cpus s ! c @ [new_frame x xs]]) = (if ma_set s l then 1 else 0)" for l
    using assms(1,2) by (simp add: holders_update lock_inv_def inside_def new_frame_def)
  ultimately show ?thesis using lock_inv_update [OF assms(1,2), of _ "ma_set s"] by simp
qed

text \<open>What the check says about the next operation.\<close>

lemma frame_ok_take:
  assumes "frame_ok d f" "fr_code f = Take k l # xs"
  shows "fr_locks f = []" "(l, k) \<in> set (context_takes d (fr_context f))" "frame_ok d (f\<lparr>fr_code := xs, fr_locks := [(l, k)]\<rparr>)"
  using assms by (auto simp: frame_ok_def hold_of_def split: list.splits if_splits)

lemma frame_ok_drop:
  assumes "frame_ok d f" "fr_code f = Drop l # xs"
  shows "\<exists>k. fr_locks f = [(l, k)]" "frame_ok d (f\<lparr>fr_code := xs, fr_locks := []\<rparr>)"
  using assms by (auto simp: frame_ok_def hold_of_def split: list.splits if_splits option.splits)

lemma frame_ok_no_reinit: "frame_ok d f \<Longrightarrow> fr_code f \<noteq> Reinit l # xs"
  by (auto simp: frame_ok_def)

lemma frame_ok_end: "frame_ok d f \<Longrightarrow> fr_code f = [] \<Longrightarrow> fr_locks f = []"
  by (auto simp: frame_ok_def hold_of_def split: list.splits)

lemma lock_inv_work: "work s t \<Longrightarrow> lock_inv d s \<Longrightarrow> lock_inv d t"
proof (induction rule: work.induct)
  case (acquire c s st f k l xs)
  note f = frame_ok_take [OF lock_inv_top [OF acquire(5,1,2)] acquire(3)]
  have "lock_inv d (s\<lparr>ma_set := (ma_set s)(l := True), ma_cpus := (ma_cpus s)[c := st @ [f\<lparr>fr_code := xs, fr_locks := [(l, k)]\<rparr>]]\<rparr>)"
    using acquire(4,5) f(1) by (intro lock_inv_replace [OF acquire(5,1,2) f(3)]) (auto simp: lock_inv_def inside_def)
  with f(1) show ?case by simp
next
  case (release c s st f l xs)
  note f = frame_ok_drop [OF lock_inv_top [OF release(4,1,2)] release(3)]
  from f(1) obtain k where k: "fr_locks f = [(l, k)]" by blast
  have "0 < length (filter (inside l) (ma_cpus s ! c))" using k release(2) by (simp add: inside_def)
  with holders_ge [OF release(1), of l] have "ma_set s l" using release(4) by (auto simp: lock_inv_def split: if_splits)
  then have "lock_inv d (s\<lparr>ma_set := (ma_set s)(l := False), ma_cpus := (ma_cpus s)[c := st @ [f\<lparr>fr_code := xs, fr_locks := []\<rparr>]]\<rparr>)"
    using release(4) k by (intro lock_inv_replace [OF release(4,1,2) f(2)]) (auto simp: lock_inv_def inside_def)
  with k show ?case by simp
next
  case (reinit c s st f l xs)
  then show ?case using frame_ok_no_reinit [OF lock_inv_top [OF reinit(4,1,2)]] by simp
next
  case (finish c s st f)
  have "stack_ok d st" using lock_inv_stack [OF finish(4,1)] finish(2) stack_ok_below by simp
  moreover have "fr_locks f = []" using frame_ok_end [OF lock_inv_top [OF finish(4,1,2)] finish(3)] .
  then have "holders l ((ma_cpus s)[c := st]) = (if ma_set s l then 1 else 0)" for l
    using finish by (simp add: holders_update lock_inv_def inside_def)
  ultimately show ?case using lock_inv_update [OF finish(4,1), of st "ma_set s"] by simp
qed

lemma takes_process: "b \<in> set (dr_process d) \<Longrightarrow> set (takes b) \<subseteq> set (context_takes d Process)"
  by (auto simp: context_takes_def process_takes_def)

lemma takes_interrupt: "b \<in> set (dr_interrupt d) \<Longrightarrow> set (takes b) \<subseteq> set (context_takes d Interrupt)"
  by (auto simp: context_takes_def interrupt_takes_def)

lemma lock_reach_inv:
  assumes "disciplined d" "lock_reach d n s"
  shows "lock_inv d s"
  using assms(2)
proof (induction rule: lock_reach.induct)
  case (start xs)
  have "check (dr_probe d) None = Some None" using assms(1) by (simp add: disciplined_def)
  from frame_ok_new [OF this start, of d Process]
  have "frame_ok d (new_frame Process xs)" by (auto simp: context_takes_def process_takes_def)
  moreover have "holders l ([new_frame Process xs] # replicate n []) = 0" for l
    by (simp add: holders_def sum_list_0 inside_def new_frame_def)
  ultimately show ?case by (auto simp: lock_inv_def stack_ok_def irqs_on_def)
next
  case (step s t)
  from step.hyps(2) step.IH show ?case
  proof (induction rule: lock_step.induct)
    case (working s t)
    then show ?case by (rule lock_inv_work)
  next
    case (call c s b xs)
    then have "frame_ok d (new_frame Process xs)"
      using assms(1) takes_process by (intro frame_ok_new [of b]) (auto simp: disciplined_def)
    with call lock_inv_push [of d s c Process xs] show ?case by (simp add: irqs_on_def)
  next
    case (interrupt c s b xs)
    then have "frame_ok d (new_frame Interrupt xs)"
      using assms(1) takes_interrupt by (intro frame_ok_new [of b]) (auto simp: disciplined_def)
    with interrupt show ?case by (intro lock_inv_push) auto
  qed
qed

section \<open>Progress\<close>

lemma holders_pos: "0 < holders l cpus \<longleftrightarrow> (\<exists>c < length cpus. \<exists>f \<in> set (cpus ! c). inside l f)"
proof -
  have "holders l cpus = 0 \<longleftrightarrow> (\<forall>st \<in> set cpus. filter (inside l) st = [])"
    by (simp add: holders_def sum_list_eq_0_iff)
  then have "0 < holders l cpus \<longleftrightarrow> (\<exists>st \<in> set cpus. \<exists>f \<in> set st. inside l f)" by (auto simp: filter_empty_conv)
  then show ?thesis by (metis in_set_conv_nth)
qed

text \<open>A running frame that cannot go on waits for a lock that is set, and holds none.\<close>

lemma top_waits:
  assumes inv: "lock_inv d s" and c: "c < length (ma_cpus s)" "ma_cpus s ! c = st @ [f]" and stuck: "\<nexists>t. work s t"
  shows "\<exists>k l xs. fr_code f = Take k l # xs \<and> ma_set s l \<and> fr_locks f = []"
proof (cases "fr_code f")
  case Nil
  with work.finish [OF c] stuck show ?thesis by blast
next
  case (Cons x xs)
  show ?thesis
  proof (cases x)
    case (Take k l)
    with Cons frame_ok_take(1) [OF lock_inv_top [OF inv c]] work.acquire [OF c, of k l xs] stuck show ?thesis by blast
  next
    case (Drop l)
    with Cons work.release [OF c, of l xs] stuck show ?thesis by blast
  next
    case (Reinit l)
    with Cons work.reinit [OF c, of l xs] stuck show ?thesis by blast
  qed
qed

text \<open>A lock that cannot be had is held by a frame that was interrupted, and then the interrupting one waits for a lock that is held by
  a frame of the same kind: the rule excludes that.\<close>

lemma work_possible:
  assumes inv: "lock_inv d s" and disc: "disciplined d" and c: "c < length (ma_cpus s)" "ma_cpus s ! c \<noteq> []"
  shows "\<exists>t. work s t"
proof (rule ccontr)
  assume stuck: "\<nexists>t. work s t"
  have below: "\<exists>c' st g f. c' < length (ma_cpus s) \<and> ma_cpus s ! c' = st @ [g] \<and> f \<in> set st \<and> inside l f" if "ma_set s l" for l
  proof -
    have "0 < holders l (ma_cpus s)" using inv that by (simp add: lock_inv_def)
    then obtain c' f where f: "c' < length (ma_cpus s)" "f \<in> set (ma_cpus s ! c')" "inside l f" by (auto simp: holders_pos)
    then obtain st g where g: "ma_cpus s ! c' = st @ [g]" by (metis empty_iff list.set(1) rev_exhaust)
    with top_waits [OF inv f(1) g stuck] f have "f \<in> set st" by (auto simp: inside_def)
    with f g show ?thesis by blast
  qed
  have held: "\<exists>k. k \<noteq> Spin_irqsave \<and> (l, k) \<in> set (process_takes d)"
    if "c < length (ma_cpus s)" "ma_cpus s ! c = st @ [g]" "f \<in> set st" "inside l f" for c st g f l
  proof -
    from that(4) obtain k where k: "(l, k) \<in> set (fr_locks f)" by (auto simp: inside_def)
    have "stack_ok d (st @ [g])" using lock_inv_stack [OF inv that(1)] that(2) by simp
    then have "irqs_on st" "frame_ok d f" using that(3) by (simp_all add: stack_ok_top)
    then have "fr_context f = Process" "Spin_irqsave \<notin> snd ` set (fr_locks f)" "set (fr_locks f) \<subseteq> set (context_takes d (fr_context f))"
      using that(3) unfolding irqs_on_def frame_ok_def by blast+
    then have "k \<noteq> Spin_irqsave" "(l, k) \<in> set (context_takes d Process)" using k by force+
    then show ?thesis by (auto simp: context_takes_def)
  qed
  obtain st0 f0 where "ma_cpus s ! c = st0 @ [f0]" using c(2) by (metis rev_exhaust)
  with top_waits [OF inv c(1) _ stuck] obtain l0 where "ma_set s l0" by blast
  with below obtain c' st g f where g: "c' < length (ma_cpus s)" "ma_cpus s ! c' = st @ [g]" "f \<in> set st" by blast
  with top_waits [OF inv g(1,2) stuck] obtain k l xs where w: "fr_code g = Take k l # xs" "ma_set s l" by blast
  have "fr_context g = Interrupt" using lock_inv_stack [OF inv g(1)] g(2,3) by (auto simp: stack_ok_top)
  with frame_ok_take(2) [OF lock_inv_top [OF inv g(1,2)] w(1)] have "(l, k) \<in> set (interrupt_takes d)" by (simp add: context_takes_def)
  with disc have no: "(l, Spin) \<notin> set (process_takes d)" "(l, Mutex) \<notin> set (process_takes d)" by (auto simp: disciplined_def)
  from below [OF w(2)] held obtain k' where "k' \<noteq> Spin_irqsave" "(l, k') \<in> set (process_takes d)" by blast
  with no show False by (cases k') auto
qed

section \<open>Drivers that do not pass\<close>

text \<open>A lock initialised while another processor is in its section: a third one gets in.\<close>

lemma no_bits: "(\<lambda>l. False)(l := False) = (\<lambda>l. False)" by auto

lemma one_bit: "(\<lambda>l. False)(x := True) = (\<lambda>l. l = x)" by (rule ext) simp

lemma two_inside:
  assumes r: "lock_reach d n \<lparr>ma_set = (\<lambda>l. False), ma_cpus = [[new_frame Process (Reinit l # ps)], [], []]\<rparr>"
    and b: "b \<in> set (dr_process d)" "path b (Take k l # xs)"
  shows "\<exists>s. lock_reach d n s \<and> holders l (ma_cpus s) = 2"
proof -
  let ?N = "new_frame Process" and ?H = "\<lparr>fr_context = Process, fr_code = xs, fr_locks = [(l, k)]\<rparr>"
  have "lock_reach d n \<lparr>ma_set = (\<lambda>l. False), ma_cpus = [[?N (Reinit l # ps)], [?N (Take k l # xs)], []]\<rparr>"
    using lock_reach.step [OF r lock_step.call [OF _ _ b, of 1]] by simp
  from lock_reach.step [OF this lock_step.working [OF work.acquire [of 1 _ "[]" "?N (Take k l # xs)" k l xs]]]
  have "lock_reach d n \<lparr>ma_set = (\<lambda>l. False)(l := True), ma_cpus = [[?N (Reinit l # ps)], [?H], []]\<rparr>"
    by (simp add: new_frame_def)
  from lock_reach.step [OF this lock_step.working [OF work.reinit [of 0 _ "[]" "?N (Reinit l # ps)" l ps]]]
  have "lock_reach d n \<lparr>ma_set = (\<lambda>l. False), ma_cpus = [[?N ps], [?H], []]\<rparr>"
    by (simp add: new_frame_def no_bits)
  from lock_reach.step [OF this lock_step.call [OF _ _ b, of 2]]
  have "lock_reach d n \<lparr>ma_set = (\<lambda>l. False), ma_cpus = [[?N ps], [?H], [?N (Take k l # xs)]]\<rparr>"
    by (simp add: numeral_2_eq_2)
  from lock_reach.step [OF this lock_step.working [OF work.acquire [of 2 _ "[]" "?N (Take k l # xs)" k l xs]]]
  have "lock_reach d n \<lparr>ma_set = (\<lambda>l. False)(l := True), ma_cpus = [[?N ps], [?H], [?H]]\<rparr>"
    by (simp add: new_frame_def numeral_2_eq_2)
  moreover have "holders l [[?N ps], [?H], [?H]] = 2" by (simp add: holders_def inside_def new_frame_def)
  ultimately show ?thesis by (intro exI conjI) (assumption, simp)
qed

lemma path_section: "path (section_of k l) [Take k l, Drop l]"
  using path.seq [OF path.op path.op] by (simp add: section_of_def)

lemma path_section_or_return: "path (section_or_return k l) [Take k l, Drop l]"
  using path.seq [OF path.op path.left [OF path.op]] by (simp add: section_or_return_def)

lemma probe_races:
  assumes "d \<in> {mysensor_locks, mydevice_locks, myfakebell_locks}"
  shows "\<exists>l s. lock_reach d 2 s \<and> holders l (ma_cpus s) = 2"
proof -
  have start: "lock_reach d 2 \<lparr>ma_set = (\<lambda>l. False), ma_cpus = [[new_frame Process xs], [], []]\<rparr>" if "path (dr_probe d) xs" for xs
    using lock_reach.start [OF that, of 2] by (simp add: numeral_2_eq_2)
  from assms consider "d = mysensor_locks" | "d = mydevice_locks" | "d = myfakebell_locks" by blast
  then show ?thesis
  proof cases
    case 1
    have p: "path (dr_probe d) (Reinit ''lock'' # [])" using path.op [of "Reinit ''lock''"] by (simp add: 1 mysensor_locks_def rb_init_lock_def)
    have b: "rb_isempty_lock \<in> set (dr_process d)" "path rb_isempty_lock [Take Mutex ''lock'', Drop ''lock'']"
      using path_section by (simp_all add: 1 mysensor_locks_def rb_isempty_lock_def)
    from two_inside [OF start [OF p] b] show ?thesis by blast
  next
    case 2
    have p: "path (dr_probe d) (Reinit ''reflock'' # [Reinit ''configlock''])"
      using path.seq [OF path.op path.op, of "Reinit ''reflock''" "Reinit ''configlock''"] by (simp add: 2 mydevice_locks_def mydevice_init_lock_def)
    have b: "Loop getref_lock \<in> set (dr_process d)" "path (Loop getref_lock) [Take Mutex ''reflock'', Drop ''reflock'']"
      using path.again [OF path_section path.exit, of Mutex "''reflock''"] by (simp_all add: 2 mydevice_locks_def getref_lock_def)
    from two_inside [OF start [OF p] b] show ?thesis by blast
  next
    case 3
    have p: "path (dr_probe d) (Reinit ''mybelllock'' # [Reinit ''lk'', Reinit ''lk''])"
      using path.seq [OF path.op path.seq [OF path.op path.op], of "Reinit ''mybelllock''" "Reinit ''lk''" "Reinit ''lk''"]
      by (simp add: 3 myfakebell_locks_def myfakebell_init_lock_def ringbuf_init_lock_def)
    have b: "myfbpoll_lock \<in> set (dr_process d)" "path myfbpoll_lock (Take Spin ''mybelllock'' # [Drop ''mybelllock'', Take Spin_irqsave ''lk'', Drop ''lk''])"
      using path.seq [OF path_section path_section, of Spin "''mybelllock''" Spin_irqsave "''lk''"]
      by (simp_all add: 3 myfakebell_locks_def myfbpoll_lock_def ringbuf_getsize_lock_def)
    from two_inside [OF start [OF p] b] show ?thesis by blast
  qed
qed

text \<open>The bell after its probe: a reset while another processor is in a section of the ring, and an interrupt inside one of \<open>mybelllock\<close>.\<close>

lemma bell_idle: "lock_reach (probed myfakebell_locks) n \<lparr>ma_set = (\<lambda>l. False), ma_cpus = replicate (Suc n) []\<rparr>"
proof -
  have "path (dr_probe (probed myfakebell_locks)) []" using path.nop by (simp add: probed_def)
  from lock_reach.step [OF lock_reach.start [OF this] lock_step.working [OF work.finish [of 0 _ "[]" "new_frame Process []"]]]
  show ?thesis by (simp add: new_frame_def)
qed

lemma reset_path: "path myfbioctl_lock (Reinit ''lk'' # [Reinit ''lk''])"
  using path.seq [OF path.op path.op, of "Reinit ''lk''" "Reinit ''lk''"]
  by (simp add: myfbioctl_lock_def ringbuf_init_lock_def path.left path.right)

lemma pop_path: "path myfbread_lock [Take Spin_irqsave ''lk'', Drop ''lk'']"
  using path.seq [OF path_section path.right [OF path.left [OF path.nop]], of Spin_irqsave "''lk''"]
  by (simp add: myfbread_lock_def ringbuf_getsize_lock_def)

lemma reset_breaks_lock: "\<exists>s. lock_reach (probed myfakebell_locks) 2 s \<and> holders ''lk'' (ma_cpus s) = 2"
proof -
  have m: "myfbioctl_lock \<in> set (dr_process (probed myfakebell_locks))" "myfbread_lock \<in> set (dr_process (probed myfakebell_locks))"
    by (simp_all add: probed_def myfakebell_locks_def)
  from lock_reach.step [OF bell_idle lock_step.call [OF _ _ m(1) reset_path, of 0], of 2]
  have "lock_reach (probed myfakebell_locks) 2
      \<lparr>ma_set = (\<lambda>l. False), ma_cpus = [[new_frame Process (Reinit ''lk'' # [Reinit ''lk''])], [], []]\<rparr>"
    by (simp add: numeral_2_eq_2)
  from two_inside [OF this m(2) pop_path] show ?thesis .
qed

definition hang :: machine where
  "hang = \<lparr>ma_set = (\<lambda>l. l = ''mybelllock''),
     ma_cpus = [[\<lparr>fr_context = Process, fr_code = [Drop ''mybelllock'', Take Spin_irqsave ''lk'', Drop ''lk''], fr_locks = [(''mybelllock'', Spin)]\<rparr>,
                 new_frame Interrupt [Take Spin ''mybelllock'', Drop ''mybelllock'']]]\<rparr>"

lemma hang_reachable: "lock_reach (probed myfakebell_locks) 0 hang"
proof -
  let ?d = "probed myfakebell_locks"
  let ?ops = "[Drop ''mybelllock'', Take Spin_irqsave ''lk'', Drop ''lk'']"
  let ?held = "\<lparr>fr_context = Process, fr_code = ?ops, fr_locks = [(''mybelllock'', Spin)]\<rparr>"
  have m: "myfbpoll_lock \<in> set (dr_process ?d)" "myirq_top_lock \<in> set (dr_interrupt ?d)"
    by (simp_all add: probed_def myfakebell_locks_def)
  have p: "path myfbpoll_lock (Take Spin ''mybelllock'' # ?ops)"
    using path.seq [OF path_section path_section, of Spin "''mybelllock''" Spin_irqsave "''lk''"]
    by (simp add: myfbpoll_lock_def ringbuf_getsize_lock_def)
  have t: "path myirq_top_lock [Take Spin ''mybelllock'', Drop ''mybelllock'']"
    using path_section_or_return by (simp add: myirq_top_lock_def)
  from lock_reach.step [OF bell_idle lock_step.call [OF _ _ m(1) p, of 0], of 0]
  have "lock_reach ?d 0 \<lparr>ma_set = (\<lambda>l. False), ma_cpus = [[new_frame Process (Take Spin ''mybelllock'' # ?ops)]]\<rparr>" by simp
  from lock_reach.step [OF this lock_step.working [OF work.acquire [of 0 _ "[]" "new_frame Process (Take Spin ''mybelllock'' # ?ops)"
      Spin "''mybelllock''" ?ops]]]
  have "lock_reach ?d 0 \<lparr>ma_set = (\<lambda>l. l = ''mybelllock''), ma_cpus = [[?held]]\<rparr>" by (simp add: new_frame_def one_bit)
  from lock_reach.step [OF this lock_step.interrupt [OF _ _ m(2) t, of 0]]
  show ?thesis by (simp add: hang_def irqs_on_def)
qed

inductive_cases workE: "work s t"
inductive_cases lock_stepE: "lock_step d s t"

lemma hang_stuck: "\<not> lock_step d hang t"
proof
  assume "lock_step d hang t"
  then show False
    by (rule lock_stepE)
      (auto elim!: workE simp: hang_def irqs_on_def new_frame_def append_eq_Cons_conv Cons_eq_append_conv)
qed

section \<open>Guarantees\<close>

text \<open>
  C10: in the drivers of the mapped block device, the USB button, the alarm, the kprobe switch, and, once their probe has
  returned, the sensor and the reference-counted device: in every state that any interleaving of their functions and interrupts on any number of
  processors reaches, at most one function is between taking and dropping a lock, the lock is set exactly while there is one (so
  none is left locked), and some processor that is inside a function can always go on. In the sensor, the reference-counted device and the
  bell the probe initialises a lock after it has published the device, and two functions can be inside its section. In the bell driver
  they can at any time, because \<open>FB_RESET_BUFFER\<close> initialises the lock of the ring, and an interrupt that comes while
  \<open>mybelllock\<close> is held hangs the processor for good.
\<close>

theorem locks_progress:
  assumes "d \<in> set sound_drivers" "lock_reach d n s"
  shows "(\<forall>l. holders l (ma_cpus s) = (if ma_set s l then 1 else 0))
    \<and> (concat (ma_cpus s) \<noteq> [] \<longrightarrow> (\<exists>t. work s t))
    \<and> (\<forall>e \<in> {mysensor_locks, mydevice_locks, myfakebell_locks}. \<exists>l t. lock_reach e 2 t \<and> holders l (ma_cpus t) = 2)
    \<and> (\<exists>t. lock_reach (probed myfakebell_locks) 2 t \<and> holders ''lk'' (ma_cpus t) = 2)
    \<and> (\<exists>t. lock_reach (probed myfakebell_locks) 0 t \<and> concat (ma_cpus t) \<noteq> [] \<and> (\<forall>u. \<not> lock_step (probed myfakebell_locks) t u))"
proof (intro conjI)
  have disc: "disciplined d" using assms(1) by (rule sound_disciplined)
  with assms(2) have inv: "lock_inv d s" by (intro lock_reach_inv)
  then show "\<forall>l. holders l (ma_cpus s) = (if ma_set s l then 1 else 0)" by (simp add: lock_inv_def)
  show "concat (ma_cpus s) \<noteq> [] \<longrightarrow> (\<exists>t. work s t)"
  proof
    assume "concat (ma_cpus s) \<noteq> []"
    then obtain c where "c < length (ma_cpus s)" "ma_cpus s ! c \<noteq> []" by (metis concat_eq_Nil_conv in_set_conv_nth)
    then show "\<exists>t. work s t" by (rule work_possible [OF inv disc])
  qed
  show "\<forall>e \<in> {mysensor_locks, mydevice_locks, myfakebell_locks}. \<exists>l t. lock_reach e 2 t \<and> holders l (ma_cpus t) = 2"
    using probe_races by blast
  show "\<exists>t. lock_reach (probed myfakebell_locks) 2 t \<and> holders ''lk'' (ma_cpus t) = 2" by (rule reset_breaks_lock)
  show "\<exists>t. lock_reach (probed myfakebell_locks) 0 t \<and> concat (ma_cpus t) \<noteq> [] \<and> (\<forall>u. \<not> lock_step (probed myfakebell_locks) t u)"
    using hang_reachable hang_stuck by (intro exI [of _ hang]) (simp add: hang_def)
qed

text \<open>The button's ioctl, about to take the lock.\<close>

theorem locks_progress_witness:
  "\<exists>t. work \<lparr>ma_set = (\<lambda>l. False), ma_cpus = [[], [new_frame Process [Take Spin_irqsave ''lock'', Drop ''lock'']]]\<rparr> t"
proof -
  have "path (dr_probe myusb_locks) []" using path.nop by (simp add: myusb_locks_def)
  from lock_reach.step [OF lock_reach.start [OF this, of 1] lock_step.working [OF work.finish [of 0 _ "[]" "new_frame Process []"]]]
  have r: "lock_reach myusb_locks 1 \<lparr>ma_set = (\<lambda>l. False), ma_cpus = [[], []]\<rparr>" by (simp add: new_frame_def)
  have "path panicb_ioctl_lock [Take Spin_irqsave ''lock'', Drop ''lock'']"
    using path_section by (simp add: panicb_ioctl_lock_def path.left path.right)
  moreover have "panicb_ioctl_lock \<in> set (dr_process myusb_locks)" by (simp add: myusb_locks_def)
  ultimately have "lock_reach myusb_locks 1 \<lparr>ma_set = (\<lambda>l. False), ma_cpus = [[], [new_frame Process [Take Spin_irqsave ''lock'', Drop ''lock'']]]\<rparr>"
    using lock_reach.step [OF r lock_step.call [of 1]] by simp
  from locks_progress [OF _ this] show ?thesis by (simp add: sound_drivers_def)
qed

end
