(* ===== verification/Ringbuf_Race.thy ===== *)
theory Ringbuf_Race
  imports Ringbuf
begin

text \<open>
  \<open>FB_RESET_BUFFER\<close> of \<open>practice/myfakebell/myfakebell.c\<close> calls \<open>ringbuf_init\<close> on the live ring without its lock, while
  the interrupt thread may push. \<open>ringbuf_init\<close> is a \<open>memset\<close> over the structure. Here it is the list of its stores, by ascending
  address, and the push of an interrupt thread (one step, under the lock) comes after any number of them. That the memset also
  frees the lock under its holder is in \<open>Locking\<close>; the push stays one step here.
\<close>

section \<open>The stores of the reset\<close>

definition zero_cell :: "nat \<Rightarrow> ringbuf \<Rightarrow> ringbuf" where
  "zero_cell i r = r\<lparr>data := (data r)[i := rbdata_zero]\<rparr>"

text \<open>The samples, \<open>head\<close>, (the lock,) \<open>tail\<close>, \<open>size\<close> and \<open>dropcount\<close>.\<close>

definition reset_stores :: "(ringbuf \<Rightarrow> ringbuf) list" where
  "reset_stores = map zero_cell [0..<RINGBUF_SIZE]
     @ [head_update (\<lambda>_. 0), tail_update (\<lambda>_. 0), rsize_update (\<lambda>_. 0), dropcount_update (\<lambda>_. 0)]"

definition run_stores :: "(ringbuf \<Rightarrow> ringbuf) list \<Rightarrow> ringbuf \<Rightarrow> ringbuf" where
  "run_stores fs r = fold (\<lambda>f r. f r) fs r"

text \<open>A push after the first \<open>k\<close> stores.\<close>

definition reset_with_push :: "nat \<Rightarrow> rbdata \<Rightarrow> ringbuf \<Rightarrow> ringbuf" where
  "reset_with_push k v r = run_stores (drop k reset_stores) (ringbuf_push v (run_stores (take k reset_stores) r))"

lemma run_stores_append: "run_stores (fs @ gs) r = run_stores gs (run_stores fs r)"
  by (simp add: run_stores_def)

lemma run_stores_simps [simp]: "run_stores [] r = r" "run_stores (f # fs) r = run_stores fs (f r)"
  by (simp_all add: run_stores_def)

lemma run_cells: "\<exists>d. run_stores (map zero_cell is) r = r\<lparr>data := d\<rparr> \<and> length d = length (data r)"
proof (induction "is" arbitrary: r)
  case Nil
  show ?case by (intro exI [of _ "data r"]) simp
next
  case (Cons i "is")
  then obtain d where "run_stores (map zero_cell is) (zero_cell i r) = (zero_cell i r)\<lparr>data := d\<rparr>" "length d = length (data (zero_cell i r))"
    by blast
  then show ?case by (intro exI [of _ d]) (simp, simp add: zero_cell_def)
qed

lemma run_all_cells:
  assumes "n \<le> length (data r)"
  shows "run_stores (map zero_cell [0..<n]) r = r\<lparr>data := replicate n rbdata_zero @ drop n (data r)\<rparr>"
  using assms
proof (induction n)
  case (Suc n)
  have "drop n (data r) = data r ! n # drop (Suc n) (data r)" using Suc.prems by (simp add: Cons_nth_drop_Suc)
  then have "(replicate n rbdata_zero @ drop n (data r))[n := rbdata_zero] = replicate (Suc n) rbdata_zero @ drop (Suc n) (data r)"
    by (simp add: list_update_append replicate_app_Cons_same)
  with Suc.IH Suc.prems show ?case
    by (simp add: run_stores_append zero_cell_def del: replicate_Suc)
qed simp

lemma run_ring_cells:
  assumes "length (data r) = RINGBUF_SIZE"
  shows "run_stores (map zero_cell [0..<RINGBUF_SIZE]) r = r\<lparr>data := replicate RINGBUF_SIZE rbdata_zero\<rparr>"
  using run_all_cells [of RINGBUF_SIZE r] assms by simp

lemma reset_stores_init: "length (data r) = RINGBUF_SIZE \<Longrightarrow> run_stores reset_stores r = ringbuf_init r"
  unfolding reset_stores_def run_stores_append ringbuf_init_def by (subst run_ring_cells) simp_all

section \<open>A ring whose head is one ahead\<close>

definition ahead :: "ringbuf \<Rightarrow> bool" where
  "ahead r \<longleftrightarrow> length (data r) = 64 \<and> 0 \<le> tail r \<and> tail r < 64 \<and> 0 \<le> rsize r \<and> rsize r \<le> 64
     \<and> head r = (tail r + rsize r + 1) mod 64"

lemma ahead_not_inv: "ahead r \<Longrightarrow> \<not> ringbuf_inv r"
proof -
  have "(x + 1) mod 64 \<noteq> x mod 64" for x :: int by (simp add: mod_eq_dvd_iff)
  then show "ahead r \<Longrightarrow> \<not> ringbuf_inv r" unfolding ahead_def ringbuf_inv_def by metis
qed

text \<open>Neither a push nor a pop repairs it.\<close>

lemma ahead_push: "ahead r \<Longrightarrow> ahead (ringbuf_push v r)"
  by (auto simp: ahead_def ringbuf_push_def RINGBUF_SIZE_def Let_def mod_simps add_ac)

lemma ahead_pop: "ahead r \<Longrightarrow> ringbuf_pop r v = (ret, v', r') \<Longrightarrow> ahead r'"
  by (auto simp: ahead_def ringbuf_pop_def RINGBUF_SIZE_def mod_simps add_ac split: if_splits)

text \<open>Seen with one sample more than it counts, it is a well-formed ring.\<close>

definition one_more :: "ringbuf \<Rightarrow> ringbuf" where
  "one_more r = r\<lparr>rsize := rsize r + 1\<rparr>"

definition lagging :: "rbdata list \<Rightarrow> rbdata \<Rightarrow> ringbuf \<Rightarrow> bool" where
  "lagging vs p r \<longleftrightarrow> ringbuf_inv (one_more r) \<and> ringbuf_list (one_more r) = vs @ [p] \<and> rsize r = int (length vs)"

lemma laggingE:
  assumes "lagging vs p r"
  shows "ringbuf_inv (one_more r)" "ringbuf_list (one_more r) = vs @ [p]" "rsize r = int (length vs)" "length vs \<le> 63"
proof -
  show inv: "ringbuf_inv (one_more r)" and "ringbuf_list (one_more r) = vs @ [p]" and n: "rsize r = int (length vs)"
    using assms unfolding lagging_def by blast+
  from inv have "rsize r + 1 \<le> 64" by (simp add: ringbuf_inv_def one_more_def)
  then show "length vs \<le> 63" using n by simp
qed

lemma lagging_list:
  assumes "lagging vs p r"
  shows "ringbuf_list r = vs"
proof -
  have "nat (rsize r) \<le> nat (rsize r + 1)" by simp
  from take_ring_list [OF this, of 64 "data r" "nat (tail r)"]
  have "ringbuf_list r = take (nat (rsize r)) (ringbuf_list (one_more r))"
    by (simp add: ringbuf_list_def one_more_def)
  then show ?thesis unfolding laggingE(2) [OF assms] using laggingE(3) [OF assms] by simp
qed

lemma lagging_ahead: "lagging vs p r \<Longrightarrow> ahead r"
  using laggingE(1,3,4) [of vs p r] by (auto simp: one_more_def ringbuf_inv_def ahead_def add.assoc)

lemma lagging_push:
  assumes "lagging vs p r" "length vs < 63"
  shows "lagging (vs @ [p]) v (ringbuf_push v r)"
proof -
  note l = laggingE [OF assms(1)]
  have "one_more (ringbuf_push v r) = ringbuf_push v (one_more r)" "rsize (ringbuf_push v r) = int (length (vs @ [p]))"
    using l(3) assms(2) by (auto simp: one_more_def ringbuf_push_def RINGBUF_SIZE_def Let_def)
  moreover have "ringbuf_inv (ringbuf_push v (one_more r))" "ringbuf_list (ringbuf_push v (one_more r)) = (vs @ [p]) @ [v]"
    using ringbuf_push_refines [OF l(1), of v] assms(2) by (simp_all add: l(2))
  ultimately show ?thesis unfolding lagging_def by metis
qed

lemma lagging_pop:
  assumes "lagging (x # vs) p r"
  shows "\<exists>r'. ringbuf_pop r v = (0, x, r') \<and> lagging vs p r'"
proof -
  note l = laggingE [OF assms]
  have L: "ringbuf_list (one_more r) = x # vs @ [p]" using l(2) by simp
  obtain q where q: "ringbuf_pop (one_more r) v = (0, x, q)" "ringbuf_inv q" "ringbuf_list q = vs @ [p]"
    using ringbuf_pop_refines [OF l(1) L, of v] by blast
  obtain ret v' r' where r: "ringbuf_pop r v = (ret, v', r')" by (cases "ringbuf_pop r v") auto
  with q(1) l(3,4) have "ret = 0 \<and> v' = x \<and> one_more r' = q \<and> rsize r' = int (length vs)"
    by (auto simp: ringbuf_pop_def one_more_def)
  with r q show ?thesis unfolding lagging_def by metis
qed

lemma lagging_pop_empty: "lagging [] p r \<Longrightarrow> ringbuf_pop r v = (- 1, v, r)"
  using laggingE(3) [of "[]" p r] by (simp add: ringbuf_pop_def)

section \<open>Pushes and pops after the race\<close>

datatype rb_op = Push rbdata | Pop

text \<open>The samples the pops return and the ring after them.\<close>

fun rb_run :: "rb_op list \<Rightarrow> ringbuf \<Rightarrow> rbdata option list \<times> ringbuf" where
  "rb_run [] r = ([], r)"
| "rb_run (Push v # ops) r = rb_run ops (ringbuf_push v r)"
| "rb_run (Pop # ops) r = (case ringbuf_pop r rbdata_zero of (ret, v, r1) \<Rightarrow>
     case rb_run ops r1 of (outs, r2) \<Rightarrow> ((if ret = 0 then Some v else None) # outs, r2))"

text \<open>A queue that hands out a sample only once a newer one is there: its contents, and the newest sample, which it keeps back;
  \<open>None\<close> when it would have to hold 64.\<close>

fun lag_run :: "rb_op list \<Rightarrow> rbdata list \<Rightarrow> rbdata \<Rightarrow> (rbdata option list \<times> rbdata list \<times> rbdata) option" where
  "lag_run [] vs p = Some ([], vs, p)"
| "lag_run (Push v # ops) vs p = (if length vs < 63 then lag_run ops (vs @ [p]) v else None)"
| "lag_run (Pop # ops) vs p = (case lag_run ops (tl vs) p of None \<Rightarrow> None
     | Some (outs, vs', p') \<Rightarrow> Some ((case vs of [] \<Rightarrow> None | x # xs \<Rightarrow> Some x) # outs, vs', p'))"

lemma ahead_run: "ahead r \<Longrightarrow> ahead (snd (rb_run ops r))"
  by (induction ops r rule: rb_run.induct) (auto simp: ahead_push dest: ahead_pop split: prod.splits)

lemma lagging_run:
  assumes "lagging vs p r" "lag_run ops vs p = Some (outs, vs', p')"
  shows "fst (rb_run ops r) = outs \<and> lagging vs' p' (snd (rb_run ops r))"
  using assms
proof (induction ops vs p arbitrary: r outs rule: lag_run.induct)
  case (2 v ops vs p)
  then show ?case using lagging_push [of vs p r v] by (auto split: if_splits)
next
  case (3 ops vs p)
  then show ?case
    using lagging_pop_empty [of p r rbdata_zero] lagging_pop [of "hd vs" "tl vs" p r rbdata_zero]
    by (cases vs) (fastforce split: option.splits prod.splits)+
qed simp

lemma lagging_pushes: "lagging vs p r \<Longrightarrow> length vs + length ws \<le> 63 \<Longrightarrow>
  lagging (take (length vs + length ws) (vs @ p # ws)) (last (p # ws)) (fold ringbuf_push ws r)"
proof (induction ws arbitrary: vs p r)
  case (Cons w ws)
  from Cons.IH [OF lagging_push [OF Cons.prems(1)], of w] Cons.prems(2) show ?case by simp
qed simp

text \<open>The push that fills it goes into the cell of the oldest sample.\<close>

lemma lagging_overflow:
  assumes "lagging (x # vs) p r" "length vs = 62"
  shows "ringbuf_list (ringbuf_push v r) = v # vs @ [p]"
proof -
  note l = laggingE [OF assms(1)]
  have n: "rsize r = 63" using l(3) assms(2) by simp
  define t where "t = nat (tail r)"
  have t: "t < 64" "tail r = int t" "length (data r) = 64" "head r = int t"
    using l(1) n by (auto simp: one_more_def ringbuf_inv_def t_def)
  have p: "ringbuf_push v r = r\<lparr>data := (data r)[t := v], head := c_mod (s32 (int t + 1)) 64, rsize := 64\<rparr>"
    using n t by (simp add: ringbuf_push_def RINGBUF_SIZE_def Let_def)
  have R: "ring_list 64 (data r) t 64 = x # vs @ [p]" using l(2) n by (simp add: one_more_def ringbuf_list_def t_def)
  have upd: "(data r)[t := v] ! ((t + i) mod 64) = (if i = 0 then v else data r ! ((t + i) mod 64))" if "i < 64" for i
    using ring_index_inj [of i 64 0 t] that t by (auto simp: nth_list_update)
  have "ring_list 64 ((data r)[t := v]) t 64 = (ring_list 64 (data r) t 64)[0 := v]"
  proof (rule nth_equalityI)
    fix i assume "i < length (ring_list 64 ((data r)[t := v]) t 64)"
    then have i: "i < 64" by simp
    then show "ring_list 64 ((data r)[t := v]) t 64 ! i = (ring_list 64 (data r) t 64)[0 := v] ! i"
      by (simp add: upd [OF i] nth_list_update)
  qed simp
  then show ?thesis by (simp add: ringbuf_list_def p t(2) R)
qed

section \<open>What the race leaves\<close>

lemma race_early:
  assumes "k \<le> RINGBUF_SIZE" "length (data r) = RINGBUF_SIZE"
  shows "\<exists>d. reset_with_push k v r = \<lparr>data = d, head = 0, tail = 0, rsize = 0, dropcount = 0\<rparr> \<and> length d = RINGBUF_SIZE"
proof -
  let ?fields = "[head_update (\<lambda>_. 0), tail_update (\<lambda>_. 0), rsize_update (\<lambda>_. 0), dropcount_update (\<lambda>_. 0)] :: (ringbuf \<Rightarrow> ringbuf) list"
  have split: "take k reset_stores = map zero_cell (take k [0..<RINGBUF_SIZE])"
    "drop k reset_stores = map zero_cell (drop k [0..<RINGBUF_SIZE]) @ ?fields"
    using assms(1) by (simp_all add: reset_stores_def take_map drop_map)
  obtain d1 where d1: "run_stores (map zero_cell (take k [0..<RINGBUF_SIZE])) r = r\<lparr>data := d1\<rparr>" "length d1 = RINGBUF_SIZE"
    using run_cells [of "take k [0..<RINGBUF_SIZE]" r] assms by auto
  define r1 where "r1 = ringbuf_push v (r\<lparr>data := d1\<rparr>)"
  have "length (data r1) = RINGBUF_SIZE" using d1(2) by (simp add: r1_def ringbuf_push_def Let_def)
  with run_cells [of "drop k [0..<RINGBUF_SIZE]" r1]
  obtain d2 where d2: "run_stores (map zero_cell (drop k [0..<RINGBUF_SIZE])) r1 = r1\<lparr>data := d2\<rparr>" "length d2 = RINGBUF_SIZE"
    by metis
  have "reset_with_push k v r = run_stores ?fields (r1\<lparr>data := d2\<rparr>)"
    by (simp only: reset_with_push_def split d1(1) run_stores_append r1_def [symmetric] d2(1))
  with d2(2) show ?thesis by (intro exI [of _ d2]) simp
qed

lemma race_late:
  assumes "length (data r) = RINGBUF_SIZE"
  shows "reset_with_push (RINGBUF_SIZE + j) v r
    = run_stores (drop j [head_update (\<lambda>_. 0), tail_update (\<lambda>_. 0), rsize_update (\<lambda>_. 0), dropcount_update (\<lambda>_. 0)])
       (ringbuf_push v (run_stores (take j [head_update (\<lambda>_. 0), tail_update (\<lambda>_. 0), rsize_update (\<lambda>_. 0), dropcount_update (\<lambda>_. 0)])
          (r\<lparr>data := replicate RINGBUF_SIZE rbdata_zero\<rparr>)))"
  using run_ring_cells [OF assms] by (simp add: reset_with_push_def reset_stores_def run_stores_append)

text \<open>Where the push has to come: \<open>head\<close> is zero already and \<open>size\<close> not yet, and the push does not move the tail itself.\<close>

definition racing :: "nat \<Rightarrow> ringbuf \<Rightarrow> bool" where
  "racing k r \<longleftrightarrow> k = 65 \<or> k = 66 \<and> ringbuf_getsize r \<noteq> 64"

text \<open>The first cell of a zeroed array with the pushed sample in it.\<close>

definition one_sample :: "rbdata \<Rightarrow> rbdata list" where
  "one_sample v = (replicate RINGBUF_SIZE rbdata_zero)[0 := v]"

lemma one_sample: "length (one_sample v) = 64" "ring_list 64 (one_sample v) 0 (Suc 0) = [v]"
  by (simp_all add: one_sample_def RINGBUF_SIZE_def ring_list_def)

lemma race_fields:
  assumes "length (data r) = RINGBUF_SIZE"
  shows "reset_with_push (RINGBUF_SIZE + 1) v r = \<lparr>data = one_sample v, head = 1, tail = 0, rsize = 0, dropcount = 0\<rparr>"
    "rsize r \<noteq> int RINGBUF_SIZE \<Longrightarrow>
       reset_with_push (RINGBUF_SIZE + 2) v r = \<lparr>data = one_sample v, head = 1, tail = 0, rsize = 0, dropcount = 0\<rparr>"
    "rsize r = int RINGBUF_SIZE \<Longrightarrow>
       reset_with_push (RINGBUF_SIZE + 2) v r = \<lparr>data = one_sample v, head = 1, tail = 1, rsize = 0, dropcount = 0\<rparr>"
    "reset_with_push (RINGBUF_SIZE + 3) v r = \<lparr>data = one_sample v, head = 1, tail = 0, rsize = 1, dropcount = 0\<rparr>"
    "reset_with_push (RINGBUF_SIZE + 4) v r = \<lparr>data = one_sample v, head = 1, tail = 0, rsize = 1, dropcount = 0\<rparr>"
proof -
  have one: "c_mod (s32 (0 + 1)) (int RINGBUF_SIZE) = 1" "(0::int) \<noteq> int RINGBUF_SIZE" by (simp_all add: RINGBUF_SIZE_def)
  note race = race_late [OF assms] and defs = ringbuf_push_def Let_def one one_sample_def eval_nat_numeral
  show "reset_with_push (RINGBUF_SIZE + 1) v r = \<lparr>data = one_sample v, head = 1, tail = 0, rsize = 0, dropcount = 0\<rparr>"
    using one by (simp only: race) (simp add: defs)
  show "reset_with_push (RINGBUF_SIZE + 2) v r = \<lparr>data = one_sample v, head = 1, tail = 0, rsize = 0, dropcount = 0\<rparr>"
    if "rsize r \<noteq> int RINGBUF_SIZE" using that one by (simp only: race) (simp add: defs)
  show "reset_with_push (RINGBUF_SIZE + 2) v r = \<lparr>data = one_sample v, head = 1, tail = 1, rsize = 0, dropcount = 0\<rparr>"
    if "rsize r = int RINGBUF_SIZE" using that one by (simp only: race) (simp add: defs)
  show "reset_with_push (RINGBUF_SIZE + 3) v r = \<lparr>data = one_sample v, head = 1, tail = 0, rsize = 1, dropcount = 0\<rparr>"
    using one by (simp only: race) (simp add: defs)
  show "reset_with_push (RINGBUF_SIZE + 4) v r = \<lparr>data = one_sample v, head = 1, tail = 0, rsize = 1, dropcount = 0\<rparr>"
    using one by (simp only: race) (simp add: defs)
qed

lemma race_lags:
  assumes "ringbuf_inv r" "racing k r"
  shows "lagging [] v (reset_with_push k v r)"
proof -
  have len: "length (data r) = RINGBUF_SIZE" using assms(1) by (simp add: ringbuf_inv_def RINGBUF_SIZE_def)
  from assms(2) consider "k = RINGBUF_SIZE + 1" | "k = RINGBUF_SIZE + 2" "rsize r \<noteq> int RINGBUF_SIZE"
    by (auto simp: racing_def ringbuf_getsize_def RINGBUF_SIZE_def)
  then have "reset_with_push k v r = \<lparr>data = one_sample v, head = 1, tail = 0, rsize = 0, dropcount = 0\<rparr>"
    using race_fields(1,2) [OF len] by metis
  with one_sample [of v] show ?thesis by (simp add: lagging_def one_more_def ringbuf_inv_def ringbuf_list_def)
qed

lemma race_harmless:
  assumes "ringbuf_inv r" "k \<le> 68" "\<not> racing k r"
  shows "ringbuf_inv (reset_with_push k v r) \<and> ringbuf_list (reset_with_push k v r) = (if k \<le> 66 then [] else [v])"
proof -
  have len: "length (data r) = RINGBUF_SIZE" using assms(1) by (simp add: ringbuf_inv_def RINGBUF_SIZE_def)
  from assms(2,3) consider "k \<le> RINGBUF_SIZE" | "k = RINGBUF_SIZE + 2" "rsize r = int RINGBUF_SIZE" | "k = RINGBUF_SIZE + 3" | "k = RINGBUF_SIZE + 4"
    unfolding racing_def ringbuf_getsize_def RINGBUF_SIZE_def by linarith
  then show ?thesis
  proof cases
    case 1
    then show ?thesis using race_early [OF 1 len, of v] by (auto simp: ringbuf_inv_def ringbuf_list_def RINGBUF_SIZE_def)
  next
    case 2
    have "reset_with_push k v r = \<lparr>data = one_sample v, head = 1, tail = 1, rsize = 0, dropcount = 0\<rparr>"
      unfolding 2(1) by (rule race_fields(3) [OF len 2(2)])
    moreover have "k \<le> 66" using 2(1) by (simp add: RINGBUF_SIZE_def)
    ultimately show ?thesis using one_sample [of v] by (simp add: ringbuf_inv_def ringbuf_list_def)
  next
    case 3
    have "reset_with_push k v r = \<lparr>data = one_sample v, head = 1, tail = 0, rsize = 1, dropcount = 0\<rparr>"
      unfolding 3 by (rule race_fields(4) [OF len])
    moreover have "\<not> k \<le> 66" using 3 by (simp add: RINGBUF_SIZE_def)
    ultimately show ?thesis using one_sample [of v] by (simp add: ringbuf_inv_def ringbuf_list_def)
  next
    case 4
    have "reset_with_push k v r = \<lparr>data = one_sample v, head = 1, tail = 0, rsize = 1, dropcount = 0\<rparr>"
      unfolding 4 by (rule race_fields(5) [OF len])
    moreover have "\<not> k \<le> 66" using 4 by (simp add: RINGBUF_SIZE_def)
    ultimately show ?thesis using one_sample [of v] by (simp add: ringbuf_inv_def ringbuf_list_def)
  qed
qed

section \<open>Guarantees\<close>

text \<open>
  C11: the reset alone empties a well-formed ring. A push after any number of its 68 stores is harmless (the ring is
  well-formed, and holds the sample if \<open>size\<close> had been zeroed already) but for one window: when \<open>head\<close> is zero and \<open>size\<close> not yet
  (with \<open>tail\<close> zero too, only if the ring was not full). Then the head is left one cell ahead: no pushes and pops that
  follow make the ring well-formed again; as long as it is never filled up they run exactly like a queue that keeps
  the newest sample back until the next one comes; and the 64th push after the race puts its sample in front of the older ones.
\<close>

theorem reset_race:
  assumes "ringbuf_inv r" "k \<le> 68"
  shows "ringbuf_inv (run_stores reset_stores r) \<and> ringbuf_list (run_stores reset_stores r) = []
    \<and> (\<not> racing k r \<longrightarrow> ringbuf_inv (reset_with_push k v r)
         \<and> ringbuf_list (reset_with_push k v r) = (if k \<le> 66 then [] else [v]))
    \<and> (racing k r \<longrightarrow>
         (\<forall>ops. \<not> ringbuf_inv (snd (rb_run ops (reset_with_push k v r))))
       \<and> (\<forall>ops outs vs p. lag_run ops [] v = Some (outs, vs, p) \<longrightarrow>
            fst (rb_run ops (reset_with_push k v r)) = outs \<and> ringbuf_list (snd (rb_run ops (reset_with_push k v r))) = vs)
       \<and> (\<forall>ws w. length ws = 63 \<longrightarrow> ringbuf_list (fold ringbuf_push (ws @ [w]) (reset_with_push k v r)) = w # ws))"
proof (intro conjI impI allI)
  have len: "length (data r) = RINGBUF_SIZE" using assms(1) by (simp add: ringbuf_inv_def RINGBUF_SIZE_def)
  show "ringbuf_inv (run_stores reset_stores r)" "ringbuf_list (run_stores reset_stores r) = []"
    by (simp_all add: reset_stores_init [OF len] ringbuf_inv_init ringbuf_list_init)
  show "ringbuf_inv (reset_with_push k v r)" "ringbuf_list (reset_with_push k v r) = (if k \<le> 66 then [] else [v])"
    if "\<not> racing k r" using race_harmless [OF assms that] by simp_all
next
  assume "racing k r"
  with assms(1) have lag: "lagging [] v (reset_with_push k v r)" by (rule race_lags)
  show "\<not> ringbuf_inv (snd (rb_run ops (reset_with_push k v r)))" for ops
    by (rule ahead_not_inv) (rule ahead_run [OF lagging_ahead [OF lag]])
  show "fst (rb_run ops (reset_with_push k v r)) = outs" "ringbuf_list (snd (rb_run ops (reset_with_push k v r))) = vs"
    if "lag_run ops [] v = Some (outs, vs, p)" for ops outs vs p
    using lagging_run [OF lag that] lagging_list by auto
  show "ringbuf_list (fold ringbuf_push (ws @ [w]) (reset_with_push k v r)) = w # ws" if ws: "length ws = 63" for ws w
  proof -
    from ws obtain us u where us: "ws = us @ [u]" "length us = 62" by (cases ws rule: rev_exhaust) auto
    have "lagging (v # us) u (fold ringbuf_push ws (reset_with_push k v r))"
      using lagging_pushes [OF lag, of ws] ws us by simp
    from lagging_overflow [OF this us(2), of w] us(1) show ?thesis by simp
  qed
qed

text \<open>An empty ring, a sample pushed between the stores to \<open>head\<close> and \<open>tail\<close>, two more, and pops: the newest is not handed out.\<close>

theorem reset_race_witness:
  "let s = \<lambda>x. \<lparr>timestamp_ns = 0, sample_value = x, status = 0\<rparr>
   in fst (rb_run [Pop, Push (s 2), Push (s 3), Pop, Pop, Pop] (reset_with_push 65 (s 1) (ringbuf_init ringbuf_zero)))
        = [None, Some (s 1), Some (s 2), None]
    \<and> ringbuf_list (reset_with_push 67 (s 1) (ringbuf_init ringbuf_zero)) = [s 1]"
proof -
  define s :: "u32 \<Rightarrow> rbdata" where "s x = \<lparr>timestamp_ns = 0, sample_value = x, status = 0\<rparr>" for x
  define ops where "ops = [Pop, Push (s 2), Push (s 3), Pop, Pop, Pop]"
  have "lag_run ops [] (s 1) = Some ([None, Some (s 1), Some (s 2), None], [], s 3)" by (simp add: ops_def)
  then have "fst (rb_run ops (reset_with_push 65 (s 1) (ringbuf_init ringbuf_zero))) = [None, Some (s 1), Some (s 2), None]"
    using reset_race [OF ringbuf_inv_init [of ringbuf_zero], of 65 "s 1"] by (simp add: racing_def)
  moreover have "ringbuf_list (reset_with_push 67 (s 1) (ringbuf_init ringbuf_zero)) = [s 1]"
    using reset_race [OF ringbuf_inv_init [of ringbuf_zero], of 67 "s 1"] by (simp add: racing_def)
  ultimately show ?thesis unfolding ops_def s_def Let_def by (rule conjI)
qed

end
