(* ===== verification/Wakeups.thy ===== *)
theory Wakeups
  imports Fakebell_System Ringbuf_Race Sensor Alarm Sensor_Tool Blkdev Refdev
begin

text \<open>
  Sleeping and waking. A blocking read or a \<open>poll\<close> puts itself on the device's wait queue, looks at its condition, and
  sleeps if that does not hold; operations of the driver change the device and some of them then call \<open>wake_up\<close>, after
  which every sleeper looks again. Change, wake-up, queueing and looking are separate steps here and interleave freely. What a driver owes its
  sleepers is the locale \<open>wait_queue\<close>: on a device in order, an operation that makes the condition true wakes.
\<close>

section \<open>Sleepers\<close>

datatype sleeper = Queued | Sleeping

record 'd wsys =
  w_dev :: 'd
  w_pending :: nat
  w_sleepers :: "sleeper list"

text \<open>
  \<open>wk\<close> counts the calls of \<open>wake_up\<close> that the operations have decided on; those still to be made are
  \<open>w_pending\<close>. A sleeper can also leave by a signal or a timeout.
\<close>

inductive wait_step :: "('d \<Rightarrow> bool) \<Rightarrow> ('d \<Rightarrow> nat) \<Rightarrow> ('d \<Rightarrow> 'd) set \<Rightarrow> 'd wsys \<Rightarrow> 'd wsys \<Rightarrow> bool" for cond wk ops where
  operation: "f \<in> ops \<Longrightarrow> wait_step cond wk ops s
    (s\<lparr>w_dev := f (w_dev s), w_pending := w_pending s + (wk (f (w_dev s)) - wk (w_dev s))\<rparr>)"
| queue: "wait_step cond wk ops s (s\<lparr>w_sleepers := Queued # w_sleepers s\<rparr>)"
| go_on: "w_sleepers s = xs @ Queued # ys \<Longrightarrow> cond (w_dev s) \<Longrightarrow> wait_step cond wk ops s (s\<lparr>w_sleepers := xs @ ys\<rparr>)"
| sleep: "w_sleepers s = xs @ Queued # ys \<Longrightarrow> \<not> cond (w_dev s) \<Longrightarrow>
    wait_step cond wk ops s (s\<lparr>w_sleepers := xs @ Sleeping # ys\<rparr>)"
| give_up: "w_sleepers s = xs @ z # ys \<Longrightarrow> wait_step cond wk ops s (s\<lparr>w_sleepers := xs @ ys\<rparr>)"
| wake: "w_pending s = Suc n \<Longrightarrow>
    wait_step cond wk ops s (s\<lparr>w_pending := n, w_sleepers := map (\<lambda>_. Queued) (w_sleepers s)\<rparr>)"

inductive wait_reach :: "('d \<Rightarrow> bool) \<Rightarrow> ('d \<Rightarrow> bool) \<Rightarrow> ('d \<Rightarrow> nat) \<Rightarrow> ('d \<Rightarrow> 'd) set \<Rightarrow> 'd wsys \<Rightarrow> bool" for ok cond wk ops where
  start: "ok d \<Longrightarrow> wait_reach ok cond wk ops \<lparr>w_dev = d, w_pending = 0, w_sleepers = []\<rparr>"
| step: "wait_reach ok cond wk ops s \<Longrightarrow> wait_step cond wk ops s t \<Longrightarrow> wait_reach ok cond wk ops t"

text \<open>A sleeper whose condition holds is about to be woken: one step makes all sleepers look again, with the condition
  still true.\<close>

definition never_stranded :: "('d \<Rightarrow> bool) \<Rightarrow> ('d \<Rightarrow> bool) \<Rightarrow> ('d \<Rightarrow> nat) \<Rightarrow> ('d \<Rightarrow> 'd) set \<Rightarrow> bool" where
  "never_stranded ok cond wk ops \<longleftrightarrow> (\<forall>s. wait_reach ok cond wk ops s \<and> Sleeping \<in> set (w_sleepers s) \<and> cond (w_dev s) \<longrightarrow>
     (\<exists>t. wait_step cond wk ops s t \<and> Sleeping \<notin> set (w_sleepers t) \<and> length (w_sleepers t) = length (w_sleepers s)
        \<and> w_dev t = w_dev s))"


text \<open>
  The law is what is needed: where some operation makes the condition true and does not wake, a sleeper that looked just
  before it is left behind.
\<close>

inductive_cases wait_stepE: "wait_step cond wk ops s t"

lemma stranded_stays:
  assumes "wait_step cond wk ops s t" "w_pending s = 0" "w_sleepers s = [Sleeping]" "length (w_sleepers t) = 1"
  shows "w_sleepers t = [Sleeping]"
  using assms(1) by (rule wait_stepE) (use assms(2-) in \<open>auto simp: append_eq_Cons_conv Cons_eq_append_conv\<close>)

lemma stranded:
  assumes "f \<in> ops" "ok d" "\<not> cond d" "cond (f d)" "wk (f d) \<le> wk d"
  shows "\<not> never_stranded ok cond wk ops"
proof
  let ?s = "\<lparr>w_dev = d, w_pending = 0, w_sleepers = []\<rparr>" and ?t = "\<lparr>w_dev = f d, w_pending = 0, w_sleepers = [Sleeping]\<rparr>"
  have "wait_reach ok cond wk ops (?s\<lparr>w_sleepers := [Queued]\<rparr>)"
    using wait_reach.step [OF wait_reach.start wait_step.queue, of ok d cond wk ops] assms(2) by simp
  moreover have "wait_step cond wk ops (?s\<lparr>w_sleepers := [Queued]\<rparr>) (?s\<lparr>w_sleepers := [Sleeping]\<rparr>)"
    using wait_step.sleep [of "?s\<lparr>w_sleepers := [Queued]\<rparr>" "[]" "[]" cond wk ops] assms(3) by simp
  moreover have "wait_step cond wk ops (?s\<lparr>w_sleepers := [Sleeping]\<rparr>) ?t"
    using wait_step.operation [OF assms(1), of cond wk "?s\<lparr>w_sleepers := [Sleeping]\<rparr>"] assms(5) by simp
  ultimately have "wait_reach ok cond wk ops ?t" by (blast intro: wait_reach.step)
  moreover assume "never_stranded ok cond wk ops"
  ultimately obtain t where "wait_step cond wk ops ?t t" "Sleeping \<notin> set (w_sleepers t)" "length (w_sleepers t) = 1"
    using assms(4) unfolding never_stranded_def by fastforce
  then show False using stranded_stays [of cond wk ops ?t t] by simp
qed

section \<open>The drivers\<close>






















section \<open>Guarantees\<close>


end
