(* ===== verification/Sensor_Program.thy ===== *)
theory Sensor_Program
  imports Sensor
begin

text \<open>
  The test program \<open>practice/mysensor/app/main.c\<close> run on its driver: interrupts fill the ring, the driver prints the readings and the
  program shows them.
\<close>

section \<open>The program on the driver\<close>

text \<open>
  A read with the program's zeroed buffer of 128 bytes; a blocking one is called when a reading is there. \<open>calls_of\<close> is what the
  C library makes of it: -1 and \<open>errno\<close> for a negative result.
\<close>

definition read_call :: "bool \<Rightarrow> 'h mysensordev \<Rightarrow> (int \<times> string \<times> 'h mysensordev) option" where
  "read_call nonblock d = mysensor_read (\<lambda>rb. (0, rb)) 0 nonblock 127 (replicate 128 CHR 0x00) d"

definition calls_of :: "int \<Rightarrow> u32 \<Rightarrow> int \<times> string \<times> 'h mysensordev \<Rightarrow> sensor_calls" where
  "calls_of p got x = \<lparr>r_open = 3, r_close = 0, r_poll = p, r_revents = got,
     r_read = (if fst x < 0 then - 1 else fst x), r_errno = - fst x, r_buf = fst (snd x)\<rparr>"

text \<open>
  Interrupts at the times \<open>nows1\<close> come before the non-blocking read, those at \<open>nows2\<close> before \<open>poll\<close> returns (with nothing
  there it times out and nothing is read), and those at \<open>nows3\<close> until the blocking read goes on. \<open>k\<close> is the counter of the
  interrupt thread.
\<close>

definition sensor_run ::
  "'h bell_hw \<Rightarrow> (int \<times> nat) list \<Rightarrow> (int \<times> nat) list \<Rightarrow> (int \<times> nat) list \<Rightarrow> int \<Rightarrow> 'h mysensordev
    \<Rightarrow> ((sensor_line list \<times> int) \<times> 'h mysensordev) option" where
  "sensor_run B nows1 nows2 nows3 k d =
    (case irq_threads B nows1 (k, d) of (k1, d1) \<Rightarrow>
     case read_call True d1 of None \<Rightarrow> None | Some x1 \<Rightarrow>
     case irq_threads B nows2 (k1, snd (snd x1)) of (k2, d2) \<Rightarrow>
     let got = mysensor_poll d2 AND (POLLIN OR 0x38) in
     case (if got = 0 then Some (0, replicate 128 CHR 0x00, d2) else read_call False d2) of None \<Rightarrow> None | Some x2 \<Rightarrow>
     case irq_threads B nows3 (k2, snd (snd x2)) of (k3, d3) \<Rightarrow>
     case read_call False d3 of None \<Rightarrow> None | Some x3 \<Rightarrow>
       map_option (\<lambda>r. (r, snd (snd x3)))
         (sensor_main (calls_of 0 0 x1) (calls_of 0 0 x1) (calls_of (if got = 0 then 0 else 1) got x2) (calls_of 0 0 x3)))"

section \<open>Readings\<close>

fun readings :: "int \<Rightarrow> (int \<times> nat) list \<Rightarrow> (int \<times> string) list" where
  "readings k [] = []"
| "readings k (ts # nows) = (k mod 100, timestamp_text ts) # readings (k + 1) nows"

lemma length_readings [simp]: "length (readings k nows) = length nows"
  by (induction k nows rule: readings.induct) simp_all

lemma readings_append: "readings k (xs @ ys) = readings k xs @ readings (k + int (length xs)) ys"
  by (induction k xs rule: readings.induct) (simp_all add: add.assoc)

lemma readings_map2: "map2 (\<lambda>i ts. ((k + int i) mod 100, timestamp_text ts)) [0..<length nows] nows = readings k nows"
proof (induction k nows rule: readings.induct)
  case (2 k ts nows)
  have "map2 (\<lambda>i ts. ((k + int i) mod 100, timestamp_text ts)) [1..<Suc (length nows)] nows = readings (k + 1) nows"
    unfolding "2.IH" [symmetric] by (intro nth_equalityI) (auto simp: add.assoc simp del: upt_Suc)
  then show ?case by (simp add: upt_conv_Cons del: upt_Suc)
qed simp

lemma irq_adds:
  assumes "readings_ok (sens_rb d)" "0 \<le> k" "k + int (length nows) < 2 ^ 31" "\<forall>ts \<in> set nows. valid_ts ts"
    and "length (rb_list (sens_rb d)) + length nows \<le> 100"
  shows "\<exists>d'. irq_threads B nows (k, d) = (k + int (length nows), d') \<and> readings_ok (sens_rb d')
    \<and> rb_list (sens_rb d') = rb_list (sens_rb d) @ readings k nows"
proof -
  have "is_s32 k" using assms(2,3) by (simp add: is_s32_def)
  with irq_threads_readings [of d "rb_list (sens_rb d)" k nows B] assms show ?thesis
    by (cases "irq_threads B nows (k, d)") (auto simp: readings_map2)
qed

text \<open>The line that shows a reading.\<close>

definition shown :: "string \<Rightarrow> int \<times> string \<Rightarrow> sensor_line" where
  "shown label x = (let t = sensor_text (fst x) (snd x) in S_read label (int (length t)) t)"

lemma read_shows:
  assumes ok: "readings_ok (sens_rb d)" and l: "rb_list (sens_rb d) = x # xs"
  obtains n buf d' where "read_call nb d = Some (n, buf, d')" "0 \<le> n" "rb_list (sens_rb d') = xs" "readings_ok (sens_rb d')"
    "\<And>label. sensor_print label n buf = Some [shown label x]"
proof -
  obtain v ts where x: "x = (v, ts)" by (cases x)
  with ok l have v: "is_s32 v" "length ts \<le> 31" "CHR 0x00 \<notin> set ts" by (auto simp: readings_ok_def)
  let ?t = "sensor_text v ts" and ?z = "replicate 128 CHR 0x00"
  have t: "length ?t \<le> 62" "CHR 0x00 \<notin> set ?t"
    using v by (auto intro: length_sensor_text dest: sensor_text_no_nul)
  have "memcpy_at ?z 0 ?t = ?t @ replicate (128 - length ?t) CHR 0x00"
    by (simp add: memcpy_at_def)
  also have "\<dots> = ?t @ CHR 0x00 # replicate (127 - length ?t) CHR 0x00"
    using t(1) by (simp flip: replicate_Suc add: Suc_diff_le)
  finally have p: "sensor_print label (int (length ?t)) (memcpy_at ?z 0 ?t) = Some [shown label x]" for label
    using t x by (simp add: sensor_print_def shown_def Let_def)
  from rb_pop_cases [OF ok] l x obtain rb'
    where "rb_pop (sens_rb d) 0 (Some []) = (0, v, Some ts, rb')" "rb_list rb' = xs" "readings_ok rb'" by auto
  with v p that [of "int (length ?t)" "memcpy_at ?z 0 ?t" "d\<lparr>sens_rb := rb'\<rparr>"] show ?thesis
    by (simp add: read_call_def mysensor_read_def sensor_copy_ok Let_def)
qed

lemma read_none:
  "readings_ok (sens_rb d) \<Longrightarrow> rb_list (sens_rb d) = [] \<Longrightarrow> read_call True d = Some (- EAGAIN, replicate 128 CHR 0x00, d)"
  using rb_pop_cases [of "sens_rb d"] by (simp add: read_call_def mysensor_read_def Let_def)

text \<open>The first test with what it leaves in the ring.\<close>

lemma nonblocking_shows:
  assumes ok: "readings_ok (sens_rb d)"
  obtains x where "read_call True d = Some x" "rb_list (sens_rb (snd (snd x))) = tl (rb_list (sens_rb d))" "readings_ok (sens_rb (snd (snd x)))"
    "test_nonblocking_read (calls_of p r x) = Some [S_head ''test nonblocking read'',
       if rb_list (sens_rb d) = [] then S_eagain else shown ''nonblocking read'' (hd (rb_list (sens_rb d))), S_blank]"
proof (cases "rb_list (sens_rb d)")
  case Nil
  with that [of "(- EAGAIN, replicate 128 CHR 0x00, d)"] read_none [OF ok] ok show ?thesis
    by (simp add: test_nonblocking_read_def calls_of_def)
next
  case (Cons y ys)
  then obtain n buf d' where "read_call True d = Some (n, buf, d')" "0 \<le> n" "rb_list (sens_rb d') = ys" "readings_ok (sens_rb d')"
    "\<And>label. sensor_print label n buf = Some [shown label y]"
    using read_shows [OF ok] by blast
  with that [of "(n, buf, d')"] Cons show ?thesis by (simp add: test_nonblocking_read_def calls_of_def)
qed

text \<open>The other two tests and the whole program, once the first line of the non-blocking test is known.\<close>

lemma sensor_main_shows:
  assumes "test_nonblocking_read (calls_of 0 0 x1) = Some [S_head ''test nonblocking read'', y, S_blank]"
    and "0 \<le> m2" "sensor_print ''read after poll'' m2 b2 = Some [y2]" "0 \<le> m3" "sensor_print ''blocking read'' m3 b3 = Some [y3]"
  shows "sensor_main (calls_of 0 0 x1) (calls_of 0 0 x1) (calls_of 1 1 (m2, b2, e2)) (calls_of 0 0 (m3, b3, e3)) = Some (
      [S_testing, S_head ''test open/release'', S_open_ok 3, S_close_ok] @ [S_head ''test nonblocking read'', y, S_blank]
      @ [S_head ''test poll'', S_waiting, S_poll 1 1, y2, S_blank] @ [S_head ''test blocking read'', S_waiting, y3, S_blank, S_all_tested], 0)"
  using assms by (simp add: sensor_main_def test_open_close_def test_poll_and_read_def test_blocking_read_def calls_of_def)

section \<open>Guarantees\<close>

text \<open>
  C16: the sensor program on its driver, from the interrupts to the printed lines. From an empty ring, with at most 100 interrupts before it
  ends, at least one reading there when \<open>poll\<close> returns and one when the blocking read goes on, every test passes and each of
  the three reads shows the next reading of the sequence that the interrupts produced, value and time: none is skipped,
  repeated or cut. Without a reading the first test reports \<open>EAGAIN\<close> and takes none. What was not shown stays in the ring.
\<close>

theorem sensor_program_shows:
  fixes nows1 nows2 nows3 :: "(int \<times> nat) list" and k :: int
  defines "all \<equiv> readings k (nows1 @ nows2 @ nows3)" and "j \<equiv> (if nows1 = [] then 0 else 1)"
  assumes "readings_ok (sens_rb d)" "rb_list (sens_rb d) = []"
    and "0 \<le> k" "k + int (length all) < 2 ^ 31" "\<forall>ts \<in> set (nows1 @ nows2 @ nows3). valid_ts ts"
    and "length all \<le> 100" "j + 1 \<le> length (nows1 @ nows2)" "j + 2 \<le> length all"
  shows "\<exists>d'. sensor_run B nows1 nows2 nows3 k d = Some ((
      [S_testing, S_head ''test open/release'', S_open_ok 3, S_close_ok]
      @ [S_head ''test nonblocking read'', if nows1 = [] then S_eagain else shown ''nonblocking read'' (all ! 0), S_blank]
      @ [S_head ''test poll'', S_waiting, S_poll 1 1, shown ''read after poll'' (all ! j), S_blank]
      @ [S_head ''test blocking read'', S_waiting, shown ''blocking read'' (all ! (j + 1)), S_blank, S_all_tested], 0), d')
    \<and> rb_list (sens_rb d') = drop (j + 2) all"
proof -
  let ?n1 = "int (length nows1)" and ?n2 = "int (length nows2)"
  let ?r1 = "readings k nows1" and ?r2 = "readings (k + ?n1) nows2" and ?r3 = "readings (k + ?n1 + ?n2) nows3"
  have all: "all = ?r1 @ ?r2 @ ?r3" by (simp add: all_def readings_append add.assoc)
  then have n: "length all = length nows1 + length nows2 + length nows3" by simp
  obtain d1 where d1: "irq_threads B nows1 (k, d) = (k + ?n1, d1)" "readings_ok (sens_rb d1)" "rb_list (sens_rb d1) = ?r1"
    using irq_adds [of d k nows1 B] assms(3-8) n by auto
  obtain x1 where x1: "read_call True d1 = Some x1" "rb_list (sens_rb (snd (snd x1))) = tl ?r1" "readings_ok (sens_rb (snd (snd x1)))"
    and t1: "test_nonblocking_read (calls_of 0 0 x1) = Some [S_head ''test nonblocking read'',
       if ?r1 = [] then S_eagain else shown ''nonblocking read'' (hd ?r1), S_blank]"
    using nonblocking_shows [OF d1(2), of 0 0] d1(3) by metis
  have j: "tl ?r1 = drop j ?r1" "(if ?r1 = [] then S_eagain else shown ''nonblocking read'' (hd ?r1))
      = (if nows1 = [] then S_eagain else shown ''nonblocking read'' (all ! 0))" "j \<le> length nows1"
    using all by (cases nows1; simp add: j_def)+
  have le: "length nows1 + length nows2 - j \<le> 100"
    "length nows1 - Suc j + length nows2 + length nows3 - (Suc j - length nows1) \<le> 100"
    using assms(8) n by linarith+
  obtain d2 where d2: "irq_threads B nows2 (k + ?n1, snd (snd x1)) = (k + ?n1 + ?n2, d2)" "readings_ok (sens_rb d2)"
    "rb_list (sens_rb d2) = drop j (?r1 @ ?r2)"
    using irq_adds [of "snd (snd x1)" "k + ?n1" nows2 B] assms(5-8) n x1(2,3) j(1,3) le by auto
  have c2: "drop j (?r1 @ ?r2) = all ! j # drop (j + 1) (?r1 @ ?r2)"
    using assms(9) by (subst Cons_nth_drop_Suc [symmetric]) (auto simp: all nth_append)
  then obtain m2 b2 e2 where x2: "read_call False d2 = Some (m2, b2, e2)" "0 \<le> m2" "rb_list (sens_rb e2) = drop (j + 1) (?r1 @ ?r2)"
    "readings_ok (sens_rb e2)" "sensor_print ''read after poll'' m2 b2 = Some [shown ''read after poll'' (all ! j)]"
    using read_shows [OF d2(2), of "all ! j" _ False] d2(3) by metis
  have p: "mysensor_poll d2 = POLLIN OR POLLRDNORM"
    using d2(2) c2 d2(3) by (simp add: mysensor_poll_def readings_ok_def rb_isempty_list)
  obtain d3 where d3: "irq_threads B nows3 (k + ?n1 + ?n2, e2) = (k + ?n1 + ?n2 + int (length nows3), d3)" "readings_ok (sens_rb d3)"
    "rb_list (sens_rb d3) = drop (j + 1) all"
    using irq_adds [of e2 "k + ?n1 + ?n2" nows3 B] assms(5-9) n x2(3,4) le by (auto simp: all)
  have "drop (j + 1) all = all ! (j + 1) # drop (j + 2) all"
    using assms(10) by (subst Cons_nth_drop_Suc [symmetric]) auto
  then obtain m3 b3 e3 where x3: "read_call False d3 = Some (m3, b3, e3)" "0 \<le> m3" "rb_list (sens_rb e3) = drop (j + 2) all"
    "sensor_print ''blocking read'' m3 b3 = Some [shown ''blocking read'' (all ! (j + 1))]"
    using read_shows [OF d3(2), of "all ! (j + 1)" _ False] d3(3) by metis
  from sensor_main_shows [OF t1 [unfolded j(2)] x2(2,5) x3(2,4), of e2 e3] d1(1) x1(1) d2(1) p x2(1) d3(1) x3(1,3) show ?thesis
    by (simp add: sensor_run_def)
qed

theorem sensor_program_shows_witness:
  "\<exists>d'. sensor_run fakebell_hw [(1, 2)] [(3, 4), (5, 6)] [] 99
      \<lparr>sbell = fakebell_realize, sbell_irq = 0, sens_rb = rb_init ringbuffer_zero, swakes = 0\<rparr>
    = Some (([S_testing, S_head ''test open/release'', S_open_ok 3, S_close_ok]
      @ [S_head ''test nonblocking read'', shown ''nonblocking read'' (99, timestamp_text (1, 2)), S_blank]
      @ [S_head ''test poll'', S_waiting, S_poll 1 1, shown ''read after poll'' (0, timestamp_text (3, 4)), S_blank]
      @ [S_head ''test blocking read'', S_waiting, shown ''blocking read'' (1, timestamp_text (5, 6)), S_blank, S_all_tested], 0), d')
    \<and> rb_list (sens_rb d') = []"
  using sensor_program_shows [of "\<lparr>sbell = fakebell_realize, sbell_irq = 0, sens_rb = rb_init ringbuffer_zero, swakes = 0\<rparr>"
      99 "[(1, 2)]" "[(3, 4), (5, 6)]" "[]" fakebell_hw]
  by (simp add: readings_ok_init rb_list_init ringbuffer_zero_def valid_ts_def)

end
