(* ===== verification/Alarm_Program.thy ===== *)
theory Alarm_Program
  imports Alarm
begin

text \<open>
  The whole program \<open>practice/myalarm/userapp/main.c\<close> on the driver: it opens the device, waits in \<open>poll\<close> without a
  timeout, reads, clears and waits again. Interrupts come while it waits and, since reading and clearing are two calls, also
  between them.
\<close>

section \<open>The program\<close>

definition irqs :: "'h bell_hw \<Rightarrow> nat \<Rightarrow> 'h myalarmdev \<Rightarrow> 'h myalarmdev" where
  "irqs B n = (\<lambda>d. snd (alarm_irq_thread B d)) ^^ n"

text \<open>
  How a call of \<open>poll\<close> ends: it fails (a signal), or \<open>n\<close> interrupts came while it waited, and then \<open>m\<close> more between
  the read and the write that follow.
\<close>

datatype waited = Poll_fails | Woken nat nat

text \<open>
  \<open>while (1)\<close> over the calls of \<open>poll\<close> that have ended; with none left, or on a device that does not ring, the program
  is waiting. \<open>poll\<close> gives back the events that were asked for, and errors. The last result says whether the loop was left.
\<close>

fun alarm_loop :: "(string \<Rightarrow> int + int) \<Rightarrow> 'h bell_hw \<Rightarrow> waited list \<Rightarrow> 'h myalarmdev \<Rightarrow> (alarm_line list \<times> 'h myalarmdev \<times> bool) option" where
  "alarm_loop kstr B [] d = Some ([A_waiting], d, False)"
| "alarm_loop kstr B (Poll_fails # ws) d = alarm_round kstr id (- 1) 0 d"
| "alarm_loop kstr B (Woken n m # ws) d =
    (let d1 = irqs B n d
     in if malm_poll d1 = 0 then Some ([A_waiting], d1, False)
        else case alarm_round kstr (irqs B m) 1 (malm_poll d1 AND (POLLIN OR 0x38)) d1 of None \<Rightarrow> None
          | Some (ls, d2, stop) \<Rightarrow>
              if stop then Some (ls, d2, True)
              else case alarm_loop kstr B ws d2 of None \<Rightarrow> None | Some (ls', d3, left) \<Rightarrow> Some (ls @ ls', d3, left))"

text \<open>The exit status is absent while the program waits.\<close>

definition alarm_main ::
  "(string \<Rightarrow> int + int) \<Rightarrow> 'h bell_hw \<Rightarrow> int \<Rightarrow> waited list \<Rightarrow> 'h myalarmdev \<Rightarrow> (alarm_line list \<times> 'h myalarmdev \<times> int option) option" where
  "alarm_main kstr B fd ws d =
    (if fd < 0 then Some ([A_perror ''open''], d, Some 1)
     else case alarm_loop kstr B ws d of None \<Rightarrow> None
       | Some (ls, d', left) \<Rightarrow> Some (A_opened # ls, d', if left then Some 0 else None))"

section \<open>Lemmas\<close>

lemma irqs_reach: "alarm_reach B d \<Longrightarrow> alarm_reach B (irqs B n d)"
proof (induction n)
  case (Suc n)
  have "alarm_step B (irqs B n d) (snd (alarm_irq_thread B (irqs B n d)))"
    by (rule alarm_step.irq) (simp add: alarm_irq_thread_def)
  with Suc show ?case by (simp add: irqs_def alarm_reach.step)
qed (simp add: irqs_def)

lemma irqs_alarm: "al_alarm (irqs B n d) = (if n = 0 then al_alarm d else 1)"
  by (cases n) (simp_all add: irqs_def alarm_irq_thread_def)

lemma alarm_loop_safe:
  "alarm_reach B d \<Longrightarrow> \<exists>ls d' left. alarm_loop kstr B ws d = Some (ls, d', left) \<and> alarm_reach B d'"
proof (induction kstr B ws d rule: alarm_loop.induct)
  case (1 kstr B d)
  then show ?case by (intro exI [of _ False] exI [of _ d] exI) simp
next
  case (2 kstr B ws d)
  then show ?case using alarm_round_safe [of B d id kstr "- 1" 0] by simp
next
  case (3 kstr B n m ws d)
  let ?d = "irqs B n d" and ?r = "malm_poll (irqs B n d) AND (POLLIN OR 0x38)"
  have d: "alarm_reach B ?d" "alarm_reach B (irqs B m ?d)" using "3.prems" by (blast intro: irqs_reach)+
  obtain ls d' stop where r: "alarm_round kstr (irqs B m) 1 ?r ?d = Some (ls, d', stop)" "alarm_reach B d'"
    using alarm_round_safe [of B ?d "irqs B m" kstr 1 ?r] d by blast
  show ?case
  proof (cases "malm_poll ?d = 0 \<or> stop")
    case True
    with d r show ?thesis by (auto simp: Let_def)
  next
    case False
    with "3.IH" [OF refl _ r(1) refl refl _ r(2)] r show ?thesis by (auto simp: Let_def)
  qed
qed

definition report :: "alarm_line list" where
  "report = [A_waiting, A_event (''Alarm:1'' @ [CHR 0x0A]), A_cleared]"

lemma alarm_loop_reports:
  assumes "kstr ''0'' = Inr 0" "\<forall>(n, m) \<in> set ws. 0 < n"
  shows "\<exists>d'. al_alarm d' = (if ws = [] then al_alarm d else 0)
     \<and> (\<forall>vs. alarm_loop kstr B (map (case_prod Woken) ws @ vs) d
       = (case alarm_loop kstr B vs d' of None \<Rightarrow> None | Some (ls, d2, left) \<Rightarrow> Some (concat (replicate (length ws) report) @ ls, d2, left)))"
  using assms(2)
proof (induction ws arbitrary: d)
  case Nil
  then show ?case by (intro exI [of _ d]) (simp split: option.splits prod.splits)
next
  case (Cons w ws)
  obtain n m where w: "w = (n, m)" "0 < n" using Cons.prems by (cases w) auto
  let ?d = "irqs B n d"
  have "alarm_round kstr (irqs B m) 1 (malm_poll ?d AND (POLLIN OR 0x38)) ?d = Some (report, (irqs B m ?d)\<lparr>al_alarm := 0\<rparr>, False)"
    using w assms(1) alarm_round_rings [of ?d "irqs B m" kstr "malm_poll ?d AND (POLLIN OR 0x38)"]
    by (simp add: irqs_alarm malm_poll_def report_def)
  moreover have "malm_poll ?d \<noteq> 0" using w by (simp add: irqs_alarm malm_poll_def)
  moreover obtain d' where "al_alarm d' = 0"
    "\<And>vs. alarm_loop kstr B (map (case_prod Woken) ws @ vs) ((irqs B m ?d)\<lparr>al_alarm := 0\<rparr>)
       = (case alarm_loop kstr B vs d' of None \<Rightarrow> None | Some (ls, d2, left) \<Rightarrow> Some (concat (replicate (length ws) report) @ ls, d2, left))"
    using Cons.IH [of "(irqs B m ?d)\<lparr>al_alarm := 0\<rparr>"] Cons.prems by (auto split: if_splits)
  ultimately show ?case using w by (intro exI [of _ d']) (auto simp: Let_def split: option.splits)
qed

section \<open>Guarantees\<close>

text \<open>
  C30: the alarm program on its driver. From any state the driver can reach, whatever \<open>poll\<close>, \<open>read\<close> and \<open>write\<close>
  meet, no buffer is left. Each time interrupts end a wait the program prints \<open>Alarm:1\<close> once, clears the alarm and waits
  again, so that a burst is one report and every interrupt that comes while it waits is reported; a failing \<open>poll\<close> ends it with status 0. An
  interrupt between the read and the write is lost: afterwards the alarm is off however many there were (\<open>m\<close>), and \<open>poll\<close> sleeps.
\<close>

theorem alarm_program_reports:
  assumes "alarm_reach B d" "0 \<le> fd" "kstr ''0'' = Inr 0" "\<forall>(n, m) \<in> set ws. 0 < n"
  shows "alarm_main kstr' B fd' vs d \<noteq> None
    \<and> (\<exists>d'. alarm_main kstr B fd (map (case_prod Woken) ws) d
          = Some (A_opened # concat (replicate (length ws) report) @ [A_waiting], d', None)
        \<and> (ws \<noteq> [] \<longrightarrow> al_alarm d' = 0 \<and> malm_poll d' = 0)
        \<and> alarm_main kstr B fd (map (case_prod Woken) ws @ [Poll_fails]) d
          = Some (A_opened # concat (replicate (length ws) report) @ [A_waiting, A_perror ''poll''], d', Some 0))"
proof -
  have "alarm_main kstr' B fd' vs d \<noteq> None"
    using alarm_loop_safe [OF assms(1), of kstr' vs] by (auto simp: alarm_main_def)
  moreover obtain d' where d': "al_alarm d' = (if ws = [] then al_alarm d else 0)"
    and l: "\<And>vs. alarm_loop kstr B (map (case_prod Woken) ws @ vs) d
      = (case alarm_loop kstr B vs d' of None \<Rightarrow> None | Some (ls, d2, left) \<Rightarrow> Some (concat (replicate (length ws) report) @ ls, d2, left))"
    using alarm_loop_reports [of kstr ws d B] assms(3,4) by blast
  moreover have "malm_poll d' = 0" if "ws \<noteq> []" using d' that by (simp add: malm_poll_def)
  ultimately show ?thesis
    using assms(2) l [of "[]"] l [of "[Poll_fails]"] by (intro conjI exI [of _ d']) (auto simp: alarm_main_def alarm_round_def)
qed

text \<open>A probed device and two waits; an interrupt after the last read is never shown.\<close>

definition alarm_start :: "fakebell myalarmdev" where
  "alarm_start = \<lparr>al_mb = mb_enable_irq fakebell_hw (mb_ack_irq fakebell_hw fakebell_realize), al_alarm = 0, al_wakes = 0\<rparr>"

lemma alarm_start_reach: "alarm_reach fakebell_hw alarm_start"
  by (rule alarm_reach.probed [of _ "\<lparr>ae_alloc = True, ae_resource = True, ae_cdev_add = 0, ae_device_create = 1, ae_ioremap = 1,
      ae_get_irq = 4, ae_request_irq = 0\<rparr>" fakebell_realize])
    (simp add: alarm_start_def alarm_probe_def IS_ERR_def Let_def)

theorem alarm_program_reports_witness:
  "\<exists>d'. alarm_main (\<lambda>s. Inr 0) fakebell_hw 3 [Woken 2 0, Woken 1 1] alarm_start
      = Some (A_opened # report @ report @ [A_waiting], d', None) \<and> al_alarm d' = 0"
  using alarm_program_reports [OF alarm_start_reach, of 3 "\<lambda>s. Inr 0" "[(2, 0), (1, 1)]" "\<lambda>s. Inr 0" 3 "[]"]
  by (auto simp: numeral_2_eq_2)

end
