(* ===== verification/Bell_Headers.thy ===== *)
theory Bell_Headers
  imports Bell_Regs
begin

text \<open>
  Four drivers talk to the bell, each through its own copy of \<open>mybell.h\<close>. The models of all of them use the accessors of
  \<open>Bell_Regs\<close>, which translate the copy of \<open>myfakebell\<close>, the longest. Here the other three are tables, read with
  the meaning of \<open>mb_readl\<close> and \<open>mb_writel\<close>, and shown to define the same accessors.
\<close>

section \<open>Headers as tables\<close>

datatype mb_value = Const u32 | Bit string

datatype mb_access = Readl string | Writel string mb_value

datatype 'h mb_result = Got u32 | Put 'h

text \<open>An accessor whose register or bit is not declared does not compile: \<open>None\<close>.\<close>

fun value_of :: "(string \<times> u32) list \<Rightarrow> mb_value \<Rightarrow> u32 option" where
  "value_of bits (Const v) = Some v"
| "value_of bits (Bit b) = map_of bits b"

fun run_access ::
  "(string \<times> u32) list \<Rightarrow> (string \<times> u32) list \<Rightarrow> 'h bell_hw \<Rightarrow> 'h \<Rightarrow> mb_access \<Rightarrow> 'h mb_result option" where
  "run_access regs bits B d (Readl r) = (case map_of regs r of None \<Rightarrow> None | Some off \<Rightarrow> Some (Got (mb_readl B d off)))"
| "run_access regs bits B d (Writel r v) =
    (case (map_of regs r, value_of bits v) of (Some off, Some x) \<Rightarrow> Some (Put (mb_writel B d off x)) | _ \<Rightarrow> None)"

definition header_call ::
  "(string \<times> u32) list \<Rightarrow> (string \<times> u32) list \<Rightarrow> (string \<times> mb_access) list \<Rightarrow> string \<Rightarrow> 'h bell_hw \<Rightarrow> 'h \<Rightarrow> 'h mb_result option" where
  "header_call regs bits accs f B d = (case map_of accs f of None \<Rightarrow> None | Some a \<Rightarrow> run_access regs bits B d a)"

section \<open>The copies\<close>

text \<open>\<open>myirq/mybell.h\<close>.\<close>

definition myirq_registers :: "(string \<times> u32) list" where
  "myirq_registers = [(''MB_REG_STATUS'', 0x00), (''MB_REG_IRQ_ENABLE'', 0x04), (''MB_REG_IRQ_STATUS'', 0x08),
     (''MB_REG_IRQ_ACK'', 0x0c), (''MB_REG_EVENT_COUNT'', 0x10)]"
definition myirq_bits :: "(string \<times> u32) list" where
  "myirq_bits = [(''MB_STATUS_EVENT_ACTIVE'', push_bit 0 1), (''MB_IRQ_ENABLE_EN'', push_bit 0 1), (''MB_IRQ_STATUS_PENDING'', push_bit 0 1)]"
definition myirq_accessors :: "(string \<times> mb_access) list" where
  "myirq_accessors = [(''mb_get_status'', Readl ''MB_REG_STATUS''), (''mb_get_irq_status'', Readl ''MB_REG_IRQ_STATUS''),
     (''mb_get_event_count'', Readl ''MB_REG_EVENT_COUNT''), (''mb_enable_irq'', Writel ''MB_REG_IRQ_ENABLE'' (Bit ''MB_IRQ_ENABLE_EN'')),
     (''mb_disable_irq'', Writel ''MB_REG_IRQ_ENABLE'' (Const 0)), (''mb_ack_irq'', Writel ''MB_REG_IRQ_ACK'' (Const 1))]"

text \<open>\<open>practice/myalarm/mybell.h\<close>.\<close>

definition myalarm_registers :: "(string \<times> u32) list" where
  "myalarm_registers = [(''MB_REG_STATUS'', 0x00), (''MB_REG_IRQ_ENABLE'', 0x04), (''MB_REG_IRQ_STATUS'', 0x08),
     (''MB_REG_IRQ_ACK'', 0x0c), (''MB_REG_EVENT_COUNT'', 0x10)]"
definition myalarm_bits :: "(string \<times> u32) list" where
  "myalarm_bits = [(''MB_STATUS_EVENT_ACTIVE'', push_bit 0 1), (''MB_IRQ_ENABLE_EN'', push_bit 0 1), (''MB_IRQ_STATUS_PENDING'', push_bit 0 1)]"
definition myalarm_accessors :: "(string \<times> mb_access) list" where
  "myalarm_accessors = [(''mb_get_status'', Readl ''MB_REG_STATUS''), (''mb_get_irq_status'', Readl ''MB_REG_IRQ_STATUS''),
     (''mb_get_event_count'', Readl ''MB_REG_EVENT_COUNT''), (''mb_enable_irq'', Writel ''MB_REG_IRQ_ENABLE'' (Bit ''MB_IRQ_ENABLE_EN'')),
     (''mb_disable_irq'', Writel ''MB_REG_IRQ_ENABLE'' (Const 0)), (''mb_ack_irq'', Writel ''MB_REG_IRQ_ACK'' (Const 1))]"

text \<open>\<open>practice/mysensor/mybell.h\<close>.\<close>

definition mysensor_registers :: "(string \<times> u32) list" where
  "mysensor_registers = [(''MB_REG_STATUS'', 0x00), (''MB_REG_IRQ_ENABLE'', 0x04), (''MB_REG_IRQ_STATUS'', 0x08),
     (''MB_REG_IRQ_ACK'', 0x0c), (''MB_REG_EVENT_COUNT'', 0x10)]"
definition mysensor_bits :: "(string \<times> u32) list" where
  "mysensor_bits = [(''MB_STATUS_EVENT_ACTIVE'', push_bit 0 1), (''MB_IRQ_ENABLE_EN'', push_bit 0 1), (''MB_IRQ_STATUS_PENDING'', push_bit 0 1)]"
definition mysensor_accessors :: "(string \<times> mb_access) list" where
  "mysensor_accessors = [(''mb_get_status'', Readl ''MB_REG_STATUS''), (''mb_get_irq_status'', Readl ''MB_REG_IRQ_STATUS''),
     (''mb_get_event_count'', Readl ''MB_REG_EVENT_COUNT''), (''mb_enable_irq'', Writel ''MB_REG_IRQ_ENABLE'' (Bit ''MB_IRQ_ENABLE_EN'')),
     (''mb_disable_irq'', Writel ''MB_REG_IRQ_ENABLE'' (Const 0)), (''mb_ack_irq'', Writel ''MB_REG_IRQ_ACK'' (Const 1))]"

lemmas header_tables = myirq_registers_def myirq_bits_def myirq_accessors_def myalarm_registers_def myalarm_bits_def
  myalarm_accessors_def mysensor_registers_def mysensor_bits_def mysensor_accessors_def

section \<open>Agreement\<close>

text \<open>The accessors of the model, by name.\<close>

definition model_accessors :: "'h bell_hw \<Rightarrow> 'h \<Rightarrow> (string \<times> 'h mb_result) list" where
  "model_accessors B d = [(''mb_get_status'', Got (mb_get_status B d)), (''mb_get_irq_status'', Got (mb_get_irq_status B d)),
     (''mb_get_event_count'', Got (mb_get_event_count B d)), (''mb_enable_irq'', Put (mb_enable_irq B d)),
     (''mb_disable_irq'', Put (mb_disable_irq B d)), (''mb_ack_irq'', Put (mb_ack_irq B d))]"

lemmas model_defs = mb_get_status_def mb_get_irq_status_def mb_get_event_count_def mb_enable_irq_def mb_disable_irq_def
  mb_ack_irq_def mb_regs

lemma headers_agree:
  "header_call myirq_registers myirq_bits myirq_accessors f B d = map_of (model_accessors B d) f"
  "header_call myalarm_registers myalarm_bits myalarm_accessors f B d = map_of (model_accessors B d) f"
  "header_call mysensor_registers mysensor_bits mysensor_accessors f B d = map_of (model_accessors B d) f"
  by (simp_all add: header_call_def header_tables model_accessors_def model_defs)

text \<open>The bit by which all drivers recognise their interrupt is the same.\<close>

lemma headers_pending:
  "map_of myirq_bits ''MB_IRQ_STATUS_PENDING'' = Some MB_IRQ_STATUS_PENDING"
  "map_of myalarm_bits ''MB_IRQ_STATUS_PENDING'' = Some MB_IRQ_STATUS_PENDING"
  "map_of mysensor_bits ''MB_IRQ_STATUS_PENDING'' = Some MB_IRQ_STATUS_PENDING"
  by (simp_all add: header_tables mb_regs)

end
