(* ===== verification/Bus_Ids.thy ===== *)
theory Bus_Ids
  imports Driver_Tables Peripherals Small_Modules
begin

text \<open>
  What the remaining modules register with their subsystems: the identifiers of the PCI, USB, I2C and SPI drivers and the devices that
  the I2C and SPI modules make, the test device of \<open>myalarm\<close>, the serial driver, and the hooks of the security module. The
  subsystems' matching and dispatching is taken as documented: a driver is offered the devices whose identifier is in its table, and a
  security call returns the first answer of a registered hook that is not 0.
\<close>

section \<open>Drivers and their identifiers\<close>

record 'i bus_driver =
  bd_name :: string
  bd_ids :: "'i list"
  bd_probe :: string
  bd_remove :: string

definition claims :: "'i bus_driver list \<Rightarrow> 'i \<Rightarrow> string list" where
  "claims ds i = map bd_name (filter (\<lambda>d. i \<in> set (bd_ids d)) ds)"

text \<open>PCI and USB: vendor and device.\<close>

type_synonym dev_id = "nat \<times> nat"

definition pci_ids :: "dev_id list" where "pci_ids = [(0x8086, 0x100e)]"
definition simple_pci_driver :: "dev_id bus_driver" where
  "simple_pci_driver = \<lparr>bd_name = ''simple_pci'', bd_ids = pci_ids, bd_probe = ''simple_pci_probe'', bd_remove = ''simple_pci_remove''\<rparr>"

definition dma_nic_id_table :: "dev_id list" where "dma_nic_id_table = [(0x8086, 0x100e)]"
definition dma_nic_driver :: "dev_id bus_driver" where
  "dma_nic_driver = \<lparr>bd_name = ''dma_nic_driver'', bd_ids = dma_nic_id_table, bd_probe = ''dma_nic_probe'', bd_remove = ''dma_nic_remove''\<rparr>"

definition my_pci_tbl :: "dev_id list" where "my_pci_tbl = [(0x8086, 0x100e)]"
definition my_ethernet_driver :: "dev_id bus_driver" where
  "my_ethernet_driver = \<lparr>bd_name = ''my_ethernet_driver'', bd_ids = my_pci_tbl, bd_probe = ''my_probe'', bd_remove = ''my_remove''\<rparr>"

definition usb_id_table :: "dev_id list" where "usb_id_table = [(0x1130, 0x0202)]"
definition panicb_driver :: "dev_id bus_driver" where
  "panicb_driver = \<lparr>bd_name = ''zxypanicb'', bd_ids = usb_id_table, bd_probe = ''panicb_probe'', bd_remove = ''panicb_disconnect''\<rparr>"

text \<open>The node of the button: name pattern, operations and first minor.\<close>

definition panicb_class_driver :: "string \<times> file_operations \<times> nat" where
  "panicb_class_driver = (''wowpanicb%d'', panicb_fops, 0)"

text \<open>I2C: the name in the table; the board information is a name and an address.\<close>

definition etx_oled_id :: "string list" where "etx_oled_id = [''BPB_DEVICE'']"
definition etx_oled_driver :: "string bus_driver" where
  "etx_oled_driver = \<lparr>bd_name = ''BPB_DEVICE'', bd_ids = etx_oled_id, bd_probe = ''etx_oled_probe'', bd_remove = ''etx_oled_remove''\<rparr>"
definition oled_i2c_board_info :: "string \<times> u8" where "oled_i2c_board_info = (''BPB_DEVICE'', 0x3C)"

definition etx_oled_remove :: "string list" where "etx_oled_remove = [''OLED Removed!!'']"

text \<open>SPI: the device has a modalias; the driver matches it by its table of names or by a compatible string.\<close>

definition spi_id_table :: "string list" where "spi_id_table = [''zxyspidev'']"
definition spi_device_dt_ids :: "string list" where "spi_device_dt_ids = [''myspidev'']"
definition spi_device_driver :: "string bus_driver \<times> string list" where
  "spi_device_driver = (\<lparr>bd_name = ''zxy_spidev'', bd_ids = spi_id_table, bd_probe = ''spi_device_probe'', bd_remove = ''spi_device_remove''\<rparr>,
     spi_device_dt_ids)"

definition spi_device_remove :: "string list" where "spi_device_remove = [''SPI device removed'']"

record spi_board_info =
  bi_modalias :: string
  bi_max_speed_hz :: nat
  bi_bus_num :: int
  bi_chip_select :: nat
  bi_mode :: nat

definition fake_spi_board_info :: spi_board_info where
  "fake_spi_board_info = \<lparr>bi_modalias = ''zxyspidev'', bi_max_speed_hz = 1000000, bi_bus_num = - 1, bi_chip_select = 0, bi_mode = 0\<rparr>"

text \<open>The serial driver: names, major, minor and number of ports.\<close>

definition simple_uart_driver :: "string \<times> string \<times> nat \<times> nat \<times> nat" where
  "simple_uart_driver = (''simple_serial'', ''simple_serial'', 0, 0, 1)"

section \<open>The test build of the alarm driver\<close>

text \<open>First and last address or number of a resource.\<close>

datatype resource_kind = IORESOURCE_MEM | IORESOURCE_IRQ

definition myalarm_test_resources :: "(nat \<times> nat \<times> resource_kind) list" where
  "myalarm_test_resources = [(0x1f000000, 0x1f000fff, IORESOURCE_MEM), (70, 70, IORESOURCE_IRQ)]"

text \<open>
  \<open>myalarm.c\<close> with \<open>DRIVER_TEST\<close>: the device is registered after the driver, so that registering it probes it, and
  unregistered last, when the driver is gone and no longer bound.
\<close>

definition myalarminit_test :: "mod_env \<Rightarrow> int \<Rightarrow> kcall list \<Rightarrow> int \<times> kcall list" where
  "myalarminit_test e testdev probe =
    (case myalarminit e of (ret, calls) \<Rightarrow>
       if ret \<noteq> 0 then (ret, calls) else (0, calls @ pdev_register testdev ''fakebell@1f000000.0'' probe))"

definition myalarmexit_test :: "int \<Rightarrow> kcall list list \<Rightarrow> kcall list" where
  "myalarmexit_test testdev removes = myalarmexit removes @ pdev_unregister testdev ''fakebell@1f000000.0'' []"

section \<open>Security hooks\<close>

datatype lsm_call = Inode_permission int int | Inode_create int | Inode_unlink int

fun hook_name :: "lsm_call \<Rightarrow> string" where
  "hook_name (Inode_permission pid msk) = ''inode_permission''"
| "hook_name (Inode_create pid) = ''inode_create''"
| "hook_name (Inode_unlink pid) = ''inode_unlink''"

type_synonym security_hook = "string \<times> (lsm_call \<Rightarrow> int)"

definition mylsmid :: string where "mylsmid = ''zxylsm''"

definition my_lsm_hooks :: "security_hook list" where
  "my_lsm_hooks =
    [(''inode_permission'', \<lambda>c. case c of Inode_permission pid msk \<Rightarrow> my_lsm_inode_permission pid msk | _ \<Rightarrow> 0),
     (''inode_create'', \<lambda>c. case c of Inode_create pid \<Rightarrow> my_lsm_inode_create pid | _ \<Rightarrow> 0),
     (''inode_unlink'', \<lambda>c. case c of Inode_unlink pid \<Rightarrow> my_lsm_inode_unlink pid | _ \<Rightarrow> 0)]"

text \<open>\<open>security_add_hooks\<close> puts the hooks, with the name of their module, behind those that are there.\<close>

definition my_lsm_init :: "(string \<times> security_hook) list \<Rightarrow> int \<times> (string \<times> security_hook) list" where
  "my_lsm_init hooks = (0, hooks @ map (\<lambda>h. (mylsmid, h)) my_lsm_hooks)"

definition zxylsm :: "string \<times> ((string \<times> security_hook) list \<Rightarrow> int \<times> (string \<times> security_hook) list)" where
  "zxylsm = (''zxylsm'', my_lsm_init)"

fun security_call :: "(string \<times> security_hook) list \<Rightarrow> lsm_call \<Rightarrow> int" where
  "security_call [] c = 0"
| "security_call ((m, n, f) # hs) c = (if n = hook_name c \<and> f c \<noteq> 0 then f c else security_call hs c)"

section \<open>Lemmas\<close>

text \<open>
  The devices that the SPI and the I2C module make are offered to their drivers. Three PCI drivers claim the same card, so which of them
  gets it depends on the order of loading.
\<close>

lemma made_devices_claimed:
  "bi_modalias fake_spi_board_info \<in> set (bd_ids (fst spi_device_driver))"
  "fst oled_i2c_board_info \<in> set (bd_ids etx_oled_driver)"
  by (simp_all add: fake_spi_board_info_def spi_device_driver_def spi_id_table_def oled_i2c_board_info_def etx_oled_driver_def etx_oled_id_def)

lemma pci_contended:
  "claims [simple_pci_driver, dma_nic_driver, my_ethernet_driver] (0x8086, 0x100e) = [''simple_pci'', ''dma_nic_driver'', ''my_ethernet_driver'']"
  "claims [panicb_driver] i = (if i = (0x1130, 0x0202) then [''zxypanicb''] else [])"
  by (simp_all add: claims_def simple_pci_driver_def dma_nic_driver_def my_ethernet_driver_def pci_ids_def dma_nic_id_table_def
      my_pci_tbl_def panicb_driver_def usb_id_table_def)

text \<open>The registers of the bell lie in the memory of the test device.\<close>

lemma test_device_holds_registers:
  "\<forall>r \<in> {MB_REG_STATUS, MB_REG_IRQ_ENABLE, MB_REG_IRQ_STATUS, MB_REG_IRQ_ACK, MB_REG_EVENT_COUNT}.
     case hd myalarm_test_resources of (a, b, k) \<Rightarrow> a + unat r + 4 \<le> b + 1"
  by (simp add: myalarm_test_resources_def mb_regs)

text \<open>
  The test build of the alarm driver is balanced for every outcome of loading, of registering the test device and of its probe.
\<close>

lemma alarm_test_session:
  assumes "al_probe B hw e = (ret, calls)"
  shows "run_calls (case myalarminit_test i p calls of (r, c) \<Rightarrow>
      c @ (if r = 0 then myalarmexit_test p (if valid_ptr p \<and> ret = 0 then [fst (alarm_remove B hw)] else []) else [])) h = Some h"
proof (cases "fst (myalarminit i) = 0")
  case False
  then show ?thesis using al_mod.init_err [of i h] by (cases "myalarminit i") (simp add: myalarminit_test_def)
next
  case True
  let ?n = "Pdev ''fakebell@1f000000.0''" and ?b = "{#Region, Class, Driver#} + h"
  let ?es = "if valid_ptr p \<and> ret = 0 then [e] else []"
  let ?o = "sum_list (map (\<lambda>e. {#Cdev 0, Device 0#}) ?es)"
  have "run_calls (snd (myalarminit i)) h = Some ?b" using al_mod.init_ok [OF True] by simp
  moreover have "run_calls (pdev_register p ''fakebell@1f000000.0'' calls) ?b
      = Some (if valid_ptr p then ?o + add_mset ?n ?b else ?b)"
    using al_dev.probe_ok [of "add_mset ?n ?b" B hw e] al_dev.probe_err [of "add_mset ?n ?b" B hw e] assms
    by (auto simp: pdev_register_def)
  moreover have exit: "run_calls (myalarmexit (map (\<lambda>e. fst (alarm_remove B hw)) ?es)) (?o + ({#Region, Class, Driver#} + k)) = Some k" for k
    using al_mod.exit_ok [of ?es B hw k] assms by (simp add: split: if_splits)
  ultimately show ?thesis using True exit [of h] exit [of "add_mset ?n h"]
    by (cases "myalarminit i")
      (auto simp: myalarminit_test_def myalarmexit_test_def pdev_unregister_def run_calls_append add_mset_commute)
qed

text \<open>
  The security module changes no decision: behind any hooks that are already there, every call gets the answer that it got without
  the module.
\<close>

lemma security_call_append:
  "security_call (xs @ ys) c = (if security_call xs c \<noteq> 0 then security_call xs c else security_call ys c)"
  by (induction xs c rule: security_call.induct) auto

lemma lsm_transparent: "security_call (snd (my_lsm_init hooks)) c = security_call hooks c"
  by (cases c) (simp_all add: my_lsm_init_def security_call_append my_lsm_hooks_def lsm_grants)

end
