(* ===== verification/Spec2Isabelle.thy ===== *)
theory Spec2Isabelle
  imports Fakebell_App Sensor Blkdev Refdev Config_Drv Sensor_Tool Chardev Bell_Irq Alarm Ramdisk Dpdk_App
    Usb_Button Kprobe Nf_Hook Procfs Fuse_Fs Buses Pci_Drivers Peripherals Small_Modules Open_Files
    Ring_TSO Refdev_Remove Driver_Tables Log_Modules Locking Ringbuf_Race Wakeups
    Sensor_Program Alarm_Program Bell_Headers Bus_Ids
begin

text \<open>
  Verification of the drivers and programs of this repository, a collection of Linux kernel modules
  (character, block, USB, PCI, SPI, I2C, serial and network drivers, exercises around a virtual "bell" device) with the user programs that
  talk to them, and a DPDK program.

  \<^bold>\<open>How code becomes definitions.\<close> A struct is a record and its operations are functions from state to state; a
  kernel \<open>int\<close> is an \<open>int\<close> kept in range by \<open>s32\<close> where it may overflow, \<open>u8\<close> to \<open>u64\<close> are words. A function that can leave an array,
  read an unterminated string or use freed memory has \<open>None\<close> for that; error returns are values. Everything outside
  the repository (kernel services, the C library's parsing in the kernel, DPDK, the host controller) is an argument: a record of
  outcomes, a function, or the number of bytes a user copy leaves. What an argument must satisfy is a
  hypothesis of the theorem that needs it, and each such theorem has a witness at concrete arguments.
  Probe, remove, init and exit functions return the calls that acquire, use and release resources; \<open>run_calls\<close> of
  \<open>Kernel_Resources\<close> says whether such a run is sound.

  \<^bold>\<open>Shared theories.\<close> \<open>Kernel_Prelude\<close> (integers, circular arrays, \<open>memcpy\<close>, little-endian fields), \<open>C_Strings\<close> (printing
  and parsing of numbers, terminated strings), \<open>Kernel_Resources\<close> (locales \<open>device_lifecycle\<close>, \<open>module_lifecycle\<close>,
  \<open>plain_driver\<close>: the contract with the driver core), \<open>Ring_Spec\<close> (locale \<open>overwriting_ring\<close>: a bounded queue that forgets its oldest
  element), \<open>Text_Reader\<close> (locale \<open>text_reader\<close>: a text read in pieces), \<open>Bell_Regs\<close> (the register interface
  \<open>mybell.h\<close> and locale \<open>bell_device\<close>, the documented behaviour of the virtual device), \<open>Bell_Headers\<close> (the three shorter copies of
  that header define the same accessors).

  \<^bold>\<open>Components.\<close>
  \<^item> \<open>Ringbuf\<close>, \<open>Fakebell\<close>, \<open>Fakebell_System\<close>, \<open>Fakebell_App\<close>: \<open>practice/myfakebell\<close>. The sample ring refines
    the overwriting queue; the interrupt thread, readers and ioctls are interleaved at their critical sections and user copies, and
    every sample is delivered in order, lost to a faulting copy, in a reader's hands, buffered or counted as overwritten; the
    program prints what the driver copied out. \<open>Ringbuf_Race\<close>: the stores of the reset ioctl, which takes no lock, around a push,
    and what pushes and pops do to the ring that is left.
  \<^item> \<open>Block_Ring\<close>, \<open>Blkdev\<close>, \<open>Ring_TSO\<close>: \<open>practice/myblkdev\<close>, a byte ring shared by kernel and program through \<open>mmap\<close>. The
    sequential functions and their interleaving; then the single loads and stores on a machine with store buffers, where
    the stream is preserved if stores arrive in order and is not otherwise. The consumer loop terminates.
  \<^item> \<open>Sensor_Ring\<close>, \<open>Sensor\<close>, \<open>Sensor_Program\<close>: \<open>practice/mysensor\<close>, driver and test program, and the program run on the driver from the
    interrupts to the printed lines.
  \<^item> \<open>Refdev\<close>, \<open>Refdev_Remove\<close>: \<open>practice/mydevice\<close>, reference counts, the exclusive configuring file, and the removal of the
    device under open files.
  \<^item> \<open>Config_Drv\<close>: \<open>practice/myconfig\<close>. \<open>Fake_Sensor\<close>, \<open>Sensor_Tool\<close>: \<open>myproject\<close>, driver and command line tool.
  \<^item> \<open>Chardev\<close>: the three devices under \<open>chardev\<close> and the ioctl program.
  \<^item> \<open>Bell_Irq\<close>: \<open>myirq\<close>. \<open>Alarm\<close>, \<open>Alarm_Program\<close>: \<open>practice/myalarm\<close>, driver, program, and the program's whole run
    with interrupts at any point of it.
  \<^item> \<open>Ramdisk\<close>: \<open>myblkdev/blk.c\<close>, requests over segments against a flat array.
  \<^item> \<open>Dpdk_Packet\<close>, \<open>Dpdk_App\<close>: \<open>mydpdk\<close>, the frame against a parser of the wire formats, ownership of mbufs.
  \<^item> \<open>Usb_Button\<close>: \<open>myusb\<close>. \<open>Kprobe\<close>: \<open>mykprobe\<close>. \<open>Nf_Hook\<close>: \<open>mynfhook\<close>. \<open>Procfs\<close>: \<open>procfs\<close>. \<open>Fuse_Fs\<close>: \<open>myfuse\<close>.
  \<^item> \<open>Buses\<close>: \<open>mybus\<close>, \<open>mydevice\<close>, \<open>mydriver\<close>. \<open>Pci_Drivers\<close>: \<open>mydma\<close>, \<open>mynetcard\<close>, \<open>mypci\<close>.
    \<open>Peripherals\<close>: \<open>myspi\<close>, \<open>myserial\<close>, \<open>myi2c\<close>. \<open>Small_Modules\<close>: \<open>mykthread\<close>, \<open>myworkqueue\<close>, \<open>mymem\<close>, \<open>myclass\<close>,
    \<open>mysecure\<close>, \<open>modparam\<close>, \<open>eximport\<close>.
  \<^item> \<open>Open_Files\<close>: the open and release functions of the drivers.
  \<^item> \<open>Driver_Tables\<close>: the file operations and identifiers each driver registers, the test builds, and the use count of the
    modules under open files and an unload, during which no reference can be had. \<open>Bus_Ids\<close>: the tables of the PCI, USB, I2C, SPI and serial drivers, the test build of the
    alarm driver, and the registration of the security hooks, which change no decision.
  \<^item> \<open>Wakeups\<close> (locale \<open>wait_queue\<close>): sleepers and wake-ups of the six drivers with a wait queue. \<open>Lock_Skeletons\<close>: the lock
    operations of every function that takes a lock, with the branches and loops around them, and a checker proved to see every path.
    \<open>Locking\<close>: the skeletons on several processors with interrupts; what passes the checker has mutual exclusion and progress, and
    runs of the bell, and of the sensor and \<open>mydevice\<close> under their probe, that have not.
  \<^item> \<open>Log_Modules\<close>: \<open>helloworld\<close>, \<open>modlicense\<close>, \<open>myprintk\<close>, the logging copies of the bus callbacks, and the callbacks of
    the serial port.

  \<^bold>\<open>Loops.\<close> Loops are recursive functions with a termination proof. Three may not end: the byte loop of the ioctl program has fuel, and
  any fuel above the length of the message is enough (\<open>char_main_prints\<close>); the kernel thread is a partial function whose
  return is proved exactly when it is told to stop; the endless loops of programs are taken round by round.

  \<^bold>\<open>Abstractions.\<close> In the theories of the drivers locks are not state: a critical section is one step, and
  code outside one is split into its accesses where others can interfere. \<open>Locking\<close> justifies this for a driver that passes its checker. It
  does not for the ring of the bell while \<open>FB_RESET_BUFFER\<close> runs, which initialises the lock (\<open>Fakebell_System\<close> leaves the
  reset out of its interleavings, and \<open>Ringbuf_Race\<close> keeps the push one step), nor for the bell, the sensor and \<open>mydevice\<close>
  while probe initialises the locks of a device it has already published; the theories take these drivers as probed. Only \<open>Ring_TSO\<close> has stores that arrive late.
  Log output of kernel modules is left out except in \<open>Log_Modules\<close> (what user programs print is kept); \<open>put_user\<close> in the byte-wise
  readers is taken to succeed. ioctl numbers are the arguments of the macros that build them.

  \<^bold>\<open>Not modelled.\<close> Callbacks that only return a constant (the USB and DPDK ones among them) have no definition of their own. How the kernel
  matches devices to drivers is not in the repository; \<open>Driver_Tables\<close> and \<open>Bus_Ids\<close> record what is claimed. Kernel configurations, device
  trees, disk images and build files are data.
\<close>

section \<open>Every driver keeps the contract of the driver core\<close>

text \<open>
  C40: for the three PCI drivers, the USB button and the alarm driver, a whole life of the module (load, any number of probes with
  any outcomes of every kernel call, unload with the bound devices still there) neither releases what it does not
  hold nor leaves anything behind.
\<close>

theorem drivers_balanced:
  assumes "fst (myalarminit i) = 0"
  shows "run_calls (snd (dma_nic_init 0) @ concat (map (\<lambda>e. snd (dma_probe_calls e)) des)
       @ dma_nic_exit (map dma_remove_calls (filter (\<lambda>e. fst (dma_probe_calls e) = 0) des))) h = Some h
   \<and> run_calls (snd (net_init 0) @ concat (map (\<lambda>e. snd (my_probe e)) nes)
       @ net_exit (map (\<lambda>e. my_remove) (filter (\<lambda>e. fst (my_probe e) = 0) nes))) h = Some h
   \<and> run_calls (snd (simple_pci_init 0) @ concat (map (\<lambda>e. snd (simple_pci_probe e)) pes)
       @ simple_pci_exit (map (\<lambda>e. simple_pci_remove) (filter (\<lambda>e. fst (simple_pci_probe e) = 0) pes))) h = Some h
   \<and> run_calls (snd (usb_panicb_init 0) @ concat (map (\<lambda>e. snd (usb_probe_calls e)) ues)
       @ usb_panicb_exit (map (\<lambda>e. panicb_disconnect True) (filter (\<lambda>e. fst (usb_probe_calls e) = 0) ues))) h = Some h
   \<and> run_calls (snd (myalarminit i) @ concat (map (\<lambda>e. snd (al_probe B hw e)) aes)
       @ myalarmexit (map (\<lambda>e. fst (alarm_remove B hw)) (filter (\<lambda>e. fst (al_probe B hw e) = 0) aes))) h = Some h"
proof -
  have r: "fst (register_driver 0) = 0" by (simp add: register_driver_def)
  show ?thesis
    using dma.module_session [OF r] net.module_session [OF r] spci.module_session [OF r] usb_session al_mod.module_session [OF assms]
    by (simp add: pci_modules)
qed

text \<open>One working and one failing network card.\<close>

theorem drivers_balanced_witness:
  "run_calls (snd (net_init 0) @ concat (map (\<lambda>e. snd (my_probe e))
       [\<lparr>net_enable = 0, net_alloc = True, net_register = 0\<rparr>, \<lparr>net_enable = 0, net_alloc = True, net_register = - 17\<rparr>])
     @ net_exit [my_remove]) {#} = Some {#}"
proof -
  have "fst (myalarminit \<lparr>m_region = 0, m_class = 1, m_register = 0\<rparr>) = 0" by (simp add: myalarminit_def IS_ERR_def)
  from drivers_balanced [OF this, where des = "[]" and pes = "[]" and ues = "[]" and aes = "[]" and B = fakebell_hw and hw = fakebell_realize
      and nes = "[\<lparr>net_enable = 0, net_alloc = True, net_register = 0\<rparr>, \<lparr>net_enable = 0, net_alloc = True, net_register = - 17\<rparr>]" and h = "{#}"]
  show ?thesis by (simp add: my_probe_def)
qed

end
